(* ===== verification/Conf_Prelude.thy ===== *)
theory Conf_Prelude
  imports Main "HOL-Library.Word" "HOL-Library.Sublist" "HOL-Library.Char_ord"
begin

text \<open>
  Shared vocabulary of the development: the integer widths the C++ sources use, bytes and
  characters, the \<open>std::string\<close> searches (\<open>find\<close>, \<open>substr\<close>) that several components
  call, \<open>std::to_string\<close>, and the generic lemmas about them.  A \<open>std::string\<close> is a
  list of characters (bytes), a \<open>std::vector<uint8_t>\<close> a list of 8-bit words, a null
  pointer the value \<open>None\<close>.
\<close>

type_synonym u8 = "8 word"
type_synonym u16 = "16 word"
type_synonym u32 = "32 word"
type_synonym bytes = "8 word list"

named_theorems find_simps \<open>equations that run a string search over a structured text\<close>
named_theorems feed_simps \<open>field equations of the feed client's handlers\<close>
named_theorems cdm_simps \<open>definitions of the OpenCDM entry points\<close>

section \<open>Bytes and characters\<close>

definition char_of_byte :: "u8 \<Rightarrow> char" where
  "char_of_byte b = char_of (unat b)"

definition byte_of_char :: "char \<Rightarrow> u8" where
  "byte_of_char c = word_of_nat (of_char c)"

definition string_of_bytes :: "bytes \<Rightarrow> string" where
  "string_of_bytes = map char_of_byte"

definition bytes_of_string :: "string \<Rightarrow> bytes" where
  "bytes_of_string = map byte_of_char"

lemma of_char_int: "(of_char c :: int) = int (of_char c)"
proof -
  have "(of_char c :: int) = of_char (char_of (int (of_char c)) :: char)"
    by (simp only: char_of_nat char_of_char)
  also have "\<dots> = int (of_char c) mod 256" by (rule of_char_of)
  also have "\<dots> = int (of_char c mod 256)" by (simp only: zmod_int of_nat_numeral)
  also have "\<dots> = int (of_char c)" by (simp only: of_char_mod_256)
  finally show ?thesis .
qed

lemma char_of_byte_of_char [simp]: "char_of_byte (byte_of_char c) = c"
proof -
  have "unat (word_of_nat (of_char c) :: u8) = of_char c"
    by (simp add: unat_of_nat)
  then show ?thesis by (simp add: char_of_byte_def byte_of_char_def)
qed

lemma byte_of_char_of_byte [simp]: "byte_of_char (char_of_byte b) = b"
proof -
  have "unat b < 256" using unsigned_less [of b] by simp
  then show ?thesis by (simp add: char_of_byte_def byte_of_char_def)
qed

lemma string_of_bytes_of_string [simp]: "string_of_bytes (bytes_of_string s) = s"
  by (simp add: string_of_bytes_def bytes_of_string_def comp_def)

lemma bytes_of_string_of_bytes [simp]: "bytes_of_string (string_of_bytes b) = b"
  by (simp add: string_of_bytes_def bytes_of_string_def comp_def)

lemma length_string_of_bytes [simp]: "length (string_of_bytes b) = length b"
  by (simp add: string_of_bytes_def)

lemma length_bytes_of_string [simp]: "length (bytes_of_string s) = length s"
  by (simp add: bytes_of_string_def)

section \<open>Searching a string\<close>

text \<open>
  \<open>find_sub n s\<close> is the offset of the first occurrence of \<open>n\<close> in \<open>s\<close>;
  \<open>str_find s n pos\<close> is \<open>s.find(n, pos)\<close> with \<open>npos\<close> as \<open>None\<close>, and
  \<open>chr_find\<close> the overload for one character.  \<open>cpp_substr s pos n\<close> is
  \<open>s.substr(pos, n)\<close>, which the sources call with \<open>pos \<le> s.size()\<close> only.
\<close>

fun find_sub :: "string \<Rightarrow> string \<Rightarrow> nat option" where
  "find_sub n [] = (if n = [] then Some 0 else None)"
| "find_sub n (x # xs) =
     (if prefix n (x # xs) then Some 0 else map_option Suc (find_sub n xs))"

definition str_find :: "string \<Rightarrow> string \<Rightarrow> nat \<Rightarrow> nat option" where
  "str_find s n pos =
     (if pos \<le> length s then map_option ((+) pos) (find_sub n (drop pos s)) else None)"

definition chr_find :: "string \<Rightarrow> char \<Rightarrow> nat \<Rightarrow> nat option" where
  "chr_find s c pos = str_find s [c] pos"

definition cpp_substr :: "string \<Rightarrow> nat \<Rightarrow> nat \<Rightarrow> string" where
  "cpp_substr s pos n = take n (drop pos s)"

lemma find_sub_bound: "find_sub n s = Some i \<Longrightarrow> i + length n \<le> length s"
proof (induction s arbitrary: i)
  case Nil
  then show ?case by (simp split: if_splits)
next
  case (Cons x xs)
  then show ?case by (auto split: if_splits dest: prefix_length_le)
qed

lemma find_sub_prefix: "find_sub n s = Some i \<Longrightarrow> prefix n (drop i s)"
  by (induction s arbitrary: i) (auto split: if_splits)

lemma find_sub_first: "find_sub n s = Some i \<Longrightarrow> j < i \<Longrightarrow> \<not> prefix n (drop j s)"
proof (induction s arbitrary: i j)
  case Nil
  then show ?case by (simp split: if_splits)
next
  case (Cons x xs)
  show ?case
  proof (cases j)
    case 0
    with Cons.prems show ?thesis by (auto split: if_splits)
  next
    case (Suc k)
    with Cons show ?thesis by (auto split: if_splits)
  qed
qed

lemma find_sub_None: "find_sub n s = None \<longleftrightarrow> \<not> sublist n s"
  by (induction s) (auto simp: sublist_Cons_right)

lemma str_find_bound: "str_find s n pos = Some i \<Longrightarrow> pos \<le> i \<and> i + length n \<le> length s"
  by (auto simp: str_find_def split: if_splits dest!: find_sub_bound)

lemma chr_find_bound: "chr_find s c pos = Some i \<Longrightarrow> pos \<le> i \<and> i < length s"
  unfolding chr_find_def by (drule str_find_bound) simp

lemma chr_find_nth:
  assumes "chr_find s c pos = Some i"
  shows "s ! i = c"
proof -
  obtain k where k: "find_sub [c] (drop pos s) = Some k" "i = pos + k" "pos \<le> length s"
    using assms by (auto simp: chr_find_def str_find_def split: if_splits)
  have "k < length (drop pos s)" using find_sub_bound [OF k(1)] by simp
  moreover have "prefix [c] (drop k (drop pos s))" using k(1) by (rule find_sub_prefix)
  ultimately show ?thesis
    using k by (cases "drop k (drop pos s)") (auto simp: add.commute nth_via_drop)
qed

text \<open>Skipping a text that cannot start the needle.\<close>

lemma find_sub_skip [find_simps]:
  "c \<notin> set u \<Longrightarrow> find_sub (c # n) (u @ s) = map_option ((+) (length u)) (find_sub (c # n) s)"
  by (cases "find_sub (c # n) s"; induction u) auto

lemma find_sub_none_char [find_simps]: "c \<notin> set u \<Longrightarrow> find_sub (c # n) u = None"
  by (auto simp: find_sub_None sublist_def)

lemma find_sub_hit [find_simps]: "find_sub n (n @ s) = Some 0"
proof (cases "n @ s")
  case (Cons x xs)
  then have "prefix n (x # xs)" by (metis prefixI)
  with Cons show ?thesis by simp
qed simp

text \<open>The first occurrence is the one announced when no earlier one overlaps it.\<close>

lemma find_sub_at:
  assumes "n \<noteq> []" "\<not> sublist n (pre @ butlast n)"
  shows "find_sub n (pre @ n @ s) = Some (length pre)"
  using assms(2)
proof (induction pre)
  case Nil
  then show ?case by (simp add: find_sub_hit)
next
  case (Cons x pre)
  have split: "(x # pre) @ n @ s = (x # pre @ butlast n) @ last n # s"
    using assms(1) append_butlast_last_id [of n] by (metis append.assoc append_Cons append_Nil)
  have "\<not> prefix n ((x # pre) @ n @ s)"
  proof
    assume "prefix n ((x # pre) @ n @ s)"
    moreover have "prefix (x # pre @ butlast n) ((x # pre) @ n @ s)" unfolding split by simp
    moreover have "length n \<le> length (x # pre @ butlast n)" by simp
    ultimately have "prefix n (x # pre @ butlast n)" by (rule prefix_length_prefix)
    with Cons.prems show False by (simp add: prefix_imp_sublist)
  qed
  moreover have "\<not> sublist n (pre @ butlast n)"
    using Cons.prems by (simp add: sublist_Cons_right)
  ultimately show ?case using Cons.IH by simp
qed

section \<open>Decimal numbers\<close>

text \<open>\<open>std::to_string\<close> of an unsigned number, and the value a run of digits denotes.\<close>

definition digit_char :: "nat \<Rightarrow> char" where
  "digit_char d = char_of (48 + d)"

fun to_dec :: "nat \<Rightarrow> string" where
  "to_dec n = (if n < 10 then [digit_char n] else to_dec (n div 10) @ [digit_char (n mod 10)])"

declare to_dec.simps [simp del]

definition is_digit :: "char \<Rightarrow> bool" where
  "is_digit c \<longleftrightarrow> CHR ''0'' \<le> c \<and> c \<le> CHR ''9''"

definition digit_val :: "char \<Rightarrow> nat" where
  "digit_val c = of_char c - 48"

definition dec_val :: "nat \<Rightarrow> string \<Rightarrow> nat" where
  "dec_val = foldl (\<lambda>n c. n * 10 + digit_val c)"

lemma digit_val_char [simp]: "d < 10 \<Longrightarrow> digit_val (digit_char d) = d"
  by (simp add: digit_val_def digit_char_def)

lemma is_digit_char [simp]: "d < 10 \<Longrightarrow> is_digit (digit_char d)"
  by (simp add: is_digit_def digit_char_def less_eq_char_def)

lemma dec_val_append: "dec_val a (s @ t) = dec_val (dec_val a s) t"
  by (simp add: dec_val_def)

lemma dec_val_to_dec [simp]: "dec_val 0 (to_dec n) = n"
proof (induction n rule: to_dec.induct)
  case (1 n)
  show ?case
  proof (cases "n < 10")
    case True
    then show ?thesis by (simp add: to_dec.simps [of n] dec_val_def)
  next
    case False
    with 1 have "dec_val 0 (to_dec n) = dec_val (n div 10) [digit_char (n mod 10)]"
      by (simp add: to_dec.simps [of n] dec_val_append)
    also have "\<dots> = n" by (simp add: dec_val_def)
    finally show ?thesis .
  qed
qed

lemma to_dec_inj: "to_dec m = to_dec n \<longleftrightarrow> m = n"
  by (metis dec_val_to_dec)

lemma to_dec_digits: "c \<in> set (to_dec n) \<Longrightarrow> is_digit c"
proof (induction n rule: to_dec.induct)
  case (1 n)
  then show ?case
    by (cases "n < 10") (auto simp: to_dec.simps [of n])
qed

lemma to_dec_not_Nil [simp]: "to_dec n \<noteq> []"
  by (subst to_dec.simps) simp

end
