(* ===== verification/Json_Scan.thy ===== *)
theory Json_Scan
  imports Conf_Prelude
begin

text \<open>
  The field scanner of the ClearKey backend, \<open>jsonStringValues\<close> of
  \<open>backends/opencdm/clearkey/open_cdm.cpp\<close>: the model on string positions as the code
  has it, an equivalent scanner on the remaining text, and the two shapes of ClearKey JSON
  it is meant for (the \<open>kids\<close> array of the init data, the \<open>kid\<close> and \<open>k\<close> fields of a
  JWK set).
\<close>

section \<open>The model\<close>

abbreviation dquote :: char where "dquote \<equiv> CHR 0x22"

definition is_json_blank :: "char \<Rightarrow> bool" where
  "is_json_blank c \<longleftrightarrow> c = CHR '' '' \<or> c = CHR 0x09 \<or> c = CHR 0x0A"

text \<open>\<open>while (cursor < size && blank) ++cursor\<close>\<close>

function skip_blanks :: "string \<Rightarrow> nat \<Rightarrow> nat" where
  "skip_blanks json cursor =
     (if cursor < length json \<and> is_json_blank (json ! cursor)
      then skip_blanks json (Suc cursor) else cursor)"
  by pat_completeness auto
termination
  by (relation "measure (\<lambda>(json, cursor). length json - cursor)") auto

declare skip_blanks.simps [simp del]

text \<open>
  The loop over an array value: every quoted string from position \<open>q\<close> that opens
  no later than the closing bracket, \<open>end\<close> being \<open>npos\<close> when there is none.
\<close>

function array_members :: "string \<Rightarrow> nat option \<Rightarrow> nat \<Rightarrow> string list" where
  "array_members json end' q =
     (case chr_find json dquote q of
        None \<Rightarrow> []
      | Some op \<Rightarrow>
          if (case end' of None \<Rightarrow> False | Some e \<Rightarrow> op > e) then []
          else
            (case chr_find json dquote (op + 1) of
               None \<Rightarrow> []
             | Some cl \<Rightarrow>
                 cpp_substr json (op + 1) (cl - op - 1) # array_members json end' (cl + 1)))"
  by pat_completeness auto
termination
  by (relation "measure (\<lambda>(json, end', q). length json + 1 - q)") (auto dest!: chr_find_bound)

declare array_members.simps [simp del]

text \<open>The outer loop, from the position where the next search for the field starts.\<close>

function scan_from :: "string \<Rightarrow> string \<Rightarrow> nat \<Rightarrow> string list" where
  "scan_from json needle pos =
     (if needle = [] then []
      else case str_find json needle pos of
        None \<Rightarrow> []
      | Some hit \<Rightarrow>
          (let pos1 = hit + length needle
           in case chr_find json CHR '':'' pos1 of
                None \<Rightarrow> []
              | Some colon \<Rightarrow>
                  (let cursor = skip_blanks json (colon + 1)
                   in if cursor < length json \<and> json ! cursor = CHR ''[''
                      then array_members json (chr_find json CHR '']'' cursor) cursor
                             @ scan_from json needle pos1
                      else if cursor < length json \<and> json ! cursor = dquote
                      then (case chr_find json dquote (cursor + 1) of
                              None \<Rightarrow> []
                            | Some cl \<Rightarrow>
                                cpp_substr json (cursor + 1) (cl - cursor - 1)
                                  # scan_from json needle (cl + 1))
                      else scan_from json needle pos1)))"
  by pat_completeness auto
termination
proof (relation "measure (\<lambda>(json, needle, pos). length json + 1 - pos)", goal_cases)
  case (2 json needle pos hit pos1 colon cursor)
  then show ?case by (cases needle) (auto dest!: str_find_bound)
next
  case (3 json needle pos hit pos1 colon cursor cl)
  have "colon + 1 \<le> cursor" unfolding 3
    by (induction json "colon + 1" arbitrary: colon rule: skip_blanks.induct)
      (subst skip_blanks.simps, auto dest: Suc_leD)
  with 3 show ?case by (auto dest!: str_find_bound chr_find_bound)
next
  case (4 json needle pos hit pos1 colon cursor)
  then show ?case by (cases needle) (auto dest!: str_find_bound)
qed auto

declare scan_from.simps [simp del]

text \<open>
  The needle is the quoted key, so it is never empty; the guard of \<open>scan_from\<close> only
  makes the recursion total.
\<close>

definition json_needle :: "string \<Rightarrow> string" where
  "json_needle key = [dquote] @ key @ [dquote]"

definition jsonStringValues :: "string \<Rightarrow> string \<Rightarrow> string list" where
  "jsonStringValues json key = scan_from json (json_needle key) 0"

section \<open>The scanner on the remaining text\<close>

text \<open>\<open>break_at c s\<close>: the text before the first \<open>c\<close> and the text after it.\<close>

fun break_at :: "char \<Rightarrow> string \<Rightarrow> (string \<times> string) option" where
  "break_at c [] = None"
| "break_at c (x # xs) =
     (if x = c then Some ([], xs) else map_option (\<lambda>(a, b). (x # a, b)) (break_at c xs))"

lemma break_at_Some: "break_at c s = Some (a, b) \<longleftrightarrow> s = a @ c # b \<and> c \<notin> set a"
proof (induction s arbitrary: a)
  case (Cons x xs)
  show ?case by (cases a; cases "x = c") (auto simp: Cons.IH split: option.splits)
qed simp

lemma break_at_None: "break_at c s = None \<longleftrightarrow> c \<notin> set s"
  by (induction s) auto

lemma break_at_app [simp]: "c \<notin> set u \<Longrightarrow> break_at c (u @ c # r) = Some (u, r)"
  by (simp add: break_at_Some)

lemma break_at_length: "break_at c s = Some (a, b) \<Longrightarrow> length b < length s"
  by (simp add: break_at_Some)

lemma find_sub_break:
  "find_sub [c] s = map_option (\<lambda>(a, b). length a) (break_at c s)"
  by (induction s) (auto simp: option.map_comp comp_def split_def)

text \<open>
  The members of an array: quoted strings, up to the first quote that opens after a
  closing bracket, also when that bracket stands inside a member.
\<close>

function members_text :: "string \<Rightarrow> string list" where
  "members_text s =
     (case break_at dquote s of
        None \<Rightarrow> []
      | Some (a, r) \<Rightarrow>
          if CHR '']'' \<in> set a then []
          else (case break_at dquote r of
                  None \<Rightarrow> []
                | Some (v, r') \<Rightarrow> v # (if CHR '']'' \<in> set v then [] else members_text r')))"
  by pat_completeness auto
termination
  by (relation "measure length") (auto dest!: break_at_length)

declare members_text.simps [simp del]

definition after_sub :: "string \<Rightarrow> string \<Rightarrow> string option" where
  "after_sub needle s = map_option (\<lambda>i. drop (i + length needle) s) (find_sub needle s)"

lemma after_sub_length:
  "after_sub needle s = Some r \<Longrightarrow> needle \<noteq> [] \<Longrightarrow> length r < length s"
  by (cases needle) (auto simp: after_sub_def dest!: find_sub_bound)

function scan_text :: "string \<Rightarrow> string \<Rightarrow> string list" where
  "scan_text needle s =
     (if needle = [] then []
      else case after_sub needle s of
        None \<Rightarrow> []
      | Some r \<Rightarrow>
          (case break_at CHR '':'' r of
             None \<Rightarrow> []
           | Some (x, r2) \<Rightarrow>
               (let r3 = dropWhile is_json_blank r2
                in case r3 of
                     [] \<Rightarrow> scan_text needle r
                   | c # t \<Rightarrow>
                       if c = CHR ''['' then members_text r3 @ scan_text needle r
                       else if c = dquote
                       then (case break_at dquote t of
                               None \<Rightarrow> []
                             | Some (v, r4) \<Rightarrow> v # scan_text needle r4)
                       else scan_text needle r)))"
  by pat_completeness auto
termination
proof (relation "measure (\<lambda>(needle, s). length s)", goal_cases)
  case (4 needle s r p x r2 r3 c t q v r4)
  then have "dropWhile is_json_blank r2 = c # t" by simp
  then have "length t < length (dropWhile is_json_blank r2)" by simp
  also have "\<dots> \<le> length r2" by (rule length_dropWhile_le)
  finally show ?case
    using 4 by (auto dest!: break_at_length after_sub_length)
qed (auto dest!: after_sub_length)

declare scan_text.simps [simp del]

section \<open>The two scanners agree\<close>

text \<open>A position in the text is the length of the text before it.\<close>

lemma str_find_at: "str_find (pre @ s) n (length pre) = map_option ((+) (length pre)) (find_sub n s)"
  by (simp add: str_find_def)

lemma chr_find_at:
  "chr_find (pre @ s) c (length pre) =
     map_option (\<lambda>(a, b). length pre + length a) (break_at c s)"
  by (simp add: chr_find_def str_find_at find_sub_break option.map_comp comp_def split_def)

lemma skip_blanks_at:
  "skip_blanks (pre @ s) (length pre) = length pre + length (takeWhile is_json_blank s)"
proof (induction s arbitrary: pre)
  case Nil
  show ?case by (subst skip_blanks.simps) simp
next
  case (Cons c s)
  have "skip_blanks ((pre @ [c]) @ s) (length (pre @ [c])) =
          length (pre @ [c]) + length (takeWhile is_json_blank s)" by (rule Cons.IH)
  then show ?case by (subst skip_blanks.simps) (simp add: nth_append)
qed

lemma chr_find_skip:
  "c \<notin> set u \<Longrightarrow> chr_find (pre @ u @ s) c (length pre) = chr_find ((pre @ u) @ s) c (length (pre @ u))"
  unfolding chr_find_def str_find_at
  by (cases "find_sub [c] s") (simp_all add: find_sub_skip str_find_at del: append_assoc)

lemma chr_find_hit:
  assumes "c \<in> set u"
  shows "\<exists>e. chr_find (pre @ u @ s) c (length pre) = Some e \<and> e < length pre + length u"
proof -
  obtain u1 u2 where u: "u = u1 @ c # u2" "c \<notin> set u1"
    using split_list_first [OF assms] by blast
  then have "break_at c (u @ s) = Some (u1, u2 @ s)" by simp
  then show ?thesis by (simp add: chr_find_at u(1))
qed

lemma array_members_passed:
  assumes "e < length pre"
  shows "array_members (pre @ s) (Some e) (length pre) = []"
  using assms by (subst array_members.simps) (auto simp: chr_find_at split: option.splits)

lemma array_members_at:
  "array_members (pre @ s) (chr_find (pre @ s) CHR '']'' (length pre)) (length pre) = members_text s"
proof (induction s arbitrary: pre rule: members_text.induct)
  case (1 s)
  let ?e = "chr_find (pre @ s) CHR '']'' (length pre)"
  show ?case
  proof (cases "break_at dquote s")
    case None
    then show ?thesis
      by (subst array_members.simps, subst members_text.simps) (simp add: chr_find_at)
  next
    case (Some ar)
    then obtain a r where ar: "break_at dquote s = Some (a, r)" and s: "s = a @ dquote # r"
      by (cases ar) (auto simp: break_at_Some)
    let ?p1 = "pre @ a @ [dquote]"
    have op: "chr_find (pre @ s) dquote (length pre) = Some (length pre + length a)"
      by (simp add: chr_find_at ar)
    have t1: "pre @ s = ?p1 @ r" and l1: "length pre + length a + 1 = length ?p1"
      by (simp_all add: s)
    have cl: "chr_find (pre @ s) dquote (length pre + length a + 1) =
                map_option (\<lambda>(v, r'). length ?p1 + length v) (break_at dquote r)"
      unfolding t1 l1 by (rule chr_find_at)
    show ?thesis
    proof (cases "CHR '']'' \<in> set a")
      case True
      from chr_find_hit [OF this, of pre "dquote # r"] obtain e
        where "?e = Some e" "e < length pre + length a" by (auto simp: s)
      then show ?thesis
        using True op by (subst array_members.simps, subst members_text.simps) (simp add: ar)
    next
      case False
      have e1: "?e = chr_find (?p1 @ r) CHR '']'' (length ?p1)"
        using chr_find_skip [of "CHR '']''" "a @ [dquote]" pre r] False by (simp add: s)
      have late: "\<not> (case ?e of None \<Rightarrow> False | Some e \<Rightarrow> length pre + length a > e)"
        unfolding e1 by (auto split: option.splits dest!: chr_find_bound)
      show ?thesis
      proof (cases "break_at dquote r")
        case None
        then show ?thesis
          using False op cl late
          by (subst array_members.simps, subst members_text.simps) (simp add: ar)
      next
        case (Some vr)
        then obtain v r' where vr: "break_at dquote r = Some (v, r')" and r: "r = v @ dquote # r'"
          by (cases vr) (auto simp: break_at_Some)
        let ?p2 = "?p1 @ v @ [dquote]"
        have t2: "pre @ s = ?p2 @ r'" by (simp add: s r)
        have val: "cpp_substr (pre @ s) (length pre + length a + 1) (length v) = v"
          unfolding t1 l1 cpp_substr_def by (simp add: r)
        have rest: "array_members (pre @ s) ?e (length ?p2) =
            (if CHR '']'' \<in> set v then [] else members_text r')"
        proof (cases "CHR '']'' \<in> set v")
          case True
          from chr_find_hit [OF this, of ?p1 "dquote # r'"] obtain e
            where "?e = Some e" "e < length ?p2" unfolding e1 by (auto simp: r)
          then show ?thesis unfolding t2 using True array_members_passed [of e ?p2 r'] by simp
        next
          case F: False
          have "?e = chr_find (?p2 @ r') CHR '']'' (length ?p2)"
            using chr_find_skip [of "CHR '']''" "v @ [dquote]" ?p1 r'] F e1 by (simp add: r)
          then show ?thesis
            unfolding t2 using F 1 [OF ar refl False vr refl F, of ?p2] by simp
        qed
        have "array_members (pre @ s) ?e (length pre) =
            v # array_members (pre @ s) ?e (length ?p2)"
          using op cl late val by (subst array_members.simps) (simp add: vr add.assoc)
        also have "\<dots> = members_text s"
          using rest False by (subst members_text.simps) (simp add: ar vr)
        finally show ?thesis .
      qed
    qed
  qed
qed

lemma scan_from_at: "scan_from (pre @ s) needle (length pre) = scan_text needle s"
proof (induction "length s" arbitrary: s pre rule: less_induct)
  case less
  show ?case
  proof (cases "needle = [] \<or> after_sub needle s = None")
    case True
    then show ?thesis
      by (subst scan_from.simps, subst scan_text.simps) (auto simp: str_find_at after_sub_def)
  next
    case False
    then obtain i where n: "needle \<noteq> []" and i: "find_sub needle s = Some i"
      by (auto simp: after_sub_def)
    let ?k = "i + length needle" let ?r = "drop ?k s" let ?p1 = "pre @ take ?k s"
    have r: "after_sub needle s = Some ?r" by (simp add: after_sub_def i)
    have "?k \<le> length s" using find_sub_bound [OF i] .
    then have l1: "length pre + i + length needle = length ?p1" by simp
    have t1: "pre @ s = ?p1 @ ?r" by simp
    have hit: "str_find (pre @ s) needle (length pre) = Some (length pre + i)"
      by (simp add: str_find_at i)
    have colon: "chr_find (pre @ s) CHR '':'' (length ?p1) =
        map_option (\<lambda>(x, r2). length ?p1 + length x) (break_at CHR '':'' ?r)"
      unfolding t1 by (rule chr_find_at)
    show ?thesis
    proof (cases "break_at CHR '':'' ?r")
      case None
      then show ?thesis using n hit colon
        by (subst scan_from.simps, subst scan_text.simps) (simp add: r l1 del: length_append append_take_drop_id)
    next
      case (Some xr)
      then obtain x r2 where x: "break_at CHR '':'' ?r = Some (x, r2)" and rx: "?r = x @ CHR '':'' # r2"
        by (cases xr) (auto simp: break_at_Some)
      let ?w = "takeWhile is_json_blank r2" let ?r3 = "dropWhile is_json_blank r2"
      let ?p3 = "?p1 @ x @ [CHR '':''] @ ?w"
      have t3: "pre @ s = ?p3 @ ?r3" using t1 rx by simp
      have cur: "skip_blanks (pre @ s) (length ?p1 + length x + 1) = length ?p3"
      proof -
        have "pre @ s = (?p1 @ x @ [CHR '':'']) @ r2" using t1 rx by simp
        then show ?thesis using skip_blanks_at [of "?p1 @ x @ [CHR '':'']" r2] by (simp add: add.assoc)
      qed
      have at: "length ?p3 < length (pre @ s) \<longleftrightarrow> ?r3 \<noteq> []"
          "?r3 = c # t \<Longrightarrow> (pre @ s) ! length ?p3 = c" for c t
        unfolding t3 by (simp_all add: nth_append del: append_assoc)
      have short: "length ?r < length s" using after_sub_length [OF r n] .
      have again: "scan_from (pre @ s) needle (length ?p1) = scan_text needle ?r"
        unfolding t1 by (rule less.hyps [OF short])
      show ?thesis
      proof (cases ?r3)
        case Nil
        then show ?thesis using n hit colon cur at again
          by (subst scan_from.simps, subst scan_text.simps) (simp add: r x l1 Let_def del: length_append dropWhile_eq_Nil_conv)
      next
        case (Cons c t)
        show ?thesis
        proof (cases "c = CHR ''[''")
          case True
          have "array_members (pre @ s) (chr_find (pre @ s) CHR '']'' (length ?p3)) (length ?p3) =
              members_text ?r3" unfolding t3 by (rule array_members_at)
          with Cons True show ?thesis using n hit colon cur at again
            by (subst scan_from.simps, subst scan_text.simps) (simp add: r x l1 Let_def del: length_append)
        next
          case not_arr: False
          show ?thesis
          proof (cases "c = dquote")
            case False
            with Cons not_arr show ?thesis using n hit colon cur at again
              by (subst scan_from.simps, subst scan_text.simps) (simp add: r x l1 Let_def del: length_append)
          next
            case True
            let ?p4 = "?p3 @ [dquote]"
            have t4: "pre @ s = ?p4 @ t" using t3 Cons True by simp
            have cl: "chr_find (pre @ s) dquote (length ?p3 + 1) =
                map_option (\<lambda>(v, r4). length ?p4 + length v) (break_at dquote t)"
              using chr_find_at [of ?p4 t dquote] unfolding t4 [symmetric] by simp
            show ?thesis
            proof (cases "break_at dquote t")
              case None
              with Cons True not_arr show ?thesis using n hit colon cur at cl
                by (subst scan_from.simps, subst scan_text.simps) (simp add: r x l1 Let_def del: length_append)
            next
              case (Some vr)
              then obtain v r4 where v: "break_at dquote t = Some (v, r4)" and tv: "t = v @ dquote # r4"
                by (cases vr) (auto simp: break_at_Some)
              let ?p5 = "?p4 @ v @ [dquote]"
              have t5: "pre @ s = ?p5 @ r4" using t4 tv by simp
              have "length r4 < length s"
                using arg_cong [OF t5, of length] arg_cong [OF t1, of length] by simp
              then have ih: "scan_from (pre @ s) needle (length ?p5) = scan_text needle r4"
                unfolding t5 by (rule less.hyps)
              have val: "cpp_substr (pre @ s) (length ?p3 + 1) (length v) = v"
                unfolding cpp_substr_def t4 by (simp add: tv)
              have close: "chr_find (pre @ s) dquote (length ?p3 + 1) = Some (length ?p3 + 1 + length v)"
                using cl v by simp
              have l5: "length ?p3 + 1 + length v + 1 = length ?p5" by simp
              have "scan_from (pre @ s) needle (length pre) =
                  v # scan_from (pre @ s) needle (length ?p3 + 1 + length v + 1)"
                using Cons True not_arr n hit colon cur at close val x
                by (subst scan_from.simps) (simp add: l1 Let_def del: length_append)
              also have "\<dots> = scan_text needle s"
                unfolding l5 ih using Cons True not_arr n v
                by (subst (2) scan_text.simps) (simp add: r x Let_def)
              finally show ?thesis .
            qed
          qed
        qed
      qed
    qed
  qed
qed

lemma scan_is_text: "jsonStringValues json key = scan_text (json_needle key) json"
  using scan_from_at [of "[]" json "json_needle key"] by (simp add: jsonStringValues_def)

text \<open>C8: The position-based scanner of the code reads exactly what the scanner on the
  remaining text reads, for every JSON text and every key.\<close>

theorem jsonStringValues_text: "jsonStringValues json key = scan_text (json_needle key) json"
  by (rule scan_is_text)

section \<open>The two ClearKey shapes\<close>

text \<open>
  \<open>{"kids":["...",...]}\<close> with what follows the bracket left open, and
  \<open>{"keys":[{"kty":"oct","kid":"...","k":"..."},...]\<close> likewise.
\<close>

definition quoted :: "string \<Rightarrow> string" where
  "quoted v = dquote # v @ [dquote]"

fun join_quoted :: "string list \<Rightarrow> string" where
  "join_quoted [] = []"
| "join_quoted [v] = quoted v"
| "join_quoted (v # w # vs) = quoted v @ '','' @ join_quoted (w # vs)"

definition kids_json :: "string list \<Rightarrow> string" where
  "kids_json vs = ''{'' @ quoted ''kids'' @ '':['' @ join_quoted vs @ '']}''"

definition jwk_entry :: "string \<times> string \<Rightarrow> string" where
  "jwk_entry kv = ''{'' @ quoted ''kty'' @ '':'' @ quoted ''oct'' @ '','' @ quoted ''kid'' @ '':''
     @ quoted (fst kv) @ '','' @ quoted ''k'' @ '':'' @ quoted (snd kv) @ ''}''"

fun jwk_entries :: "(string \<times> string) list \<Rightarrow> string" where
  "jwk_entries [] = []"
| "jwk_entries [p] = jwk_entry p"
| "jwk_entries (p # q # ps) = jwk_entry p @ '','' @ jwk_entries (q # ps)"

definition jwk_json :: "(string \<times> string) list \<Rightarrow> string" where
  "jwk_json ps = ''{'' @ quoted ''keys'' @ '':['' @ jwk_entries ps @ ''],'' @ quoted ''type'' @ '':''
     @ quoted ''temporary'' @ ''}''"

text \<open>A value that the scanner can carry: no quote, colon or closing bracket in it.\<close>

definition plain :: "string \<Rightarrow> bool" where
  "plain v \<longleftrightarrow> dquote \<notin> set v \<and> CHR '':'' \<notin> set v \<and> CHR '']'' \<notin> set v"

lemma members_text_join:
  assumes "\<forall>v\<in>set vs. plain v" "dquote \<notin> set u" "CHR '']'' \<notin> set u"
  shows "members_text (u @ join_quoted vs @ CHR '']'' # rest) = vs"
  using assms
proof (induction vs arbitrary: u rule: join_quoted.induct)
  case 1
  then show ?case
  proof (cases "break_at dquote (u @ CHR '']'' # rest)")
    case (Some ar)
    then obtain a r where "break_at dquote (u @ CHR '']'' # rest) = Some (a, r)"
      and eq: "u @ CHR '']'' # rest = a @ dquote # r" by (cases ar) (auto simp: break_at_Some)
    moreover have "CHR '']'' \<in> set a"
      using eq 1 by (auto simp: append_eq_append_conv2 append_eq_Cons_conv Cons_eq_append_conv)
    ultimately show ?thesis by (subst members_text.simps) simp
  qed (subst members_text.simps, simp)
next
  case (2 v)
  have "members_text (CHR '']'' # rest) = []"
  proof (cases "break_at dquote (CHR '']'' # rest)")
    case (Some ar)
    then show ?thesis by (subst members_text.simps) (auto split: if_splits)
  qed (subst members_text.simps, simp)
  with 2 show ?case by (subst members_text.simps) (simp add: quoted_def plain_def)
next
  case (3 v w vs)
  have "members_text ('','' @ join_quoted (w # vs) @ CHR '']'' # rest) = w # vs"
    using 3 by (intro "3.IH") auto
  with 3 show ?case by (subst members_text.simps) (simp add: quoted_def plain_def)
qed

lemma join_quoted_no_colon: "\<forall>v\<in>set vs. plain v \<Longrightarrow> CHR '':'' \<notin> set (join_quoted vs)"
  by (induction vs rule: join_quoted.induct) (auto simp: quoted_def plain_def)

text \<open>Past the field there is no colon left, so a member that looks like the field name is
  not taken for a second occurrence.\<close>

lemma scan_text_no_colon:
  assumes "CHR '':'' \<notin> set s"
  shows "scan_text needle s = []"
proof (cases "after_sub needle s")
  case (Some r)
  then have "CHR '':'' \<notin> set r"
    using assms by (auto simp: after_sub_def dest: in_set_dropD)
  then have "break_at CHR '':'' r = None" by (simp add: break_at_None)
  with Some show ?thesis by (subst scan_text.simps) simp
qed (subst scan_text.simps, simp)

text \<open>Running the scanner over literal text: a position where the needle does not start is
  skipped, an occurrence with a string value is taken.\<close>

lemma after_sub_step: "\<not> prefix n (c # s) \<Longrightarrow> after_sub n (c # s) = after_sub n s"
  by (cases "find_sub n s") (auto simp: after_sub_def)

lemma scan_text_step:
  "\<not> prefix n (c # s) \<Longrightarrow> scan_text n (c # s) = scan_text n s"
proof -
  assume "\<not> prefix n (c # s)"
  then have "after_sub n (c # s) = after_sub n s" by (rule after_sub_step)
  then show ?thesis by (simp only: scan_text.simps [of n "c # s"] scan_text.simps [of n s])
qed

lemma scan_text_skip: "dquote \<notin> set u \<Longrightarrow> scan_text (dquote # n) (u @ s) = scan_text (dquote # n) s"
  by (induction u) (simp_all add: scan_text_step)

lemma after_sub_hit: "after_sub n (n @ s) = Some s"
  by (simp add: after_sub_def find_sub_hit)

lemma prefix_close_quote:
  "dquote \<notin> set v \<Longrightarrow> dquote \<notin> set k \<Longrightarrow>
     prefix (k @ [dquote]) (v @ dquote # s) \<longleftrightarrow> v = k"
proof (induction k arbitrary: v)
  case Nil
  then show ?case by (cases v) auto
next
  case (Cons c k)
  then show ?case by (cases v) auto
qed

lemma scan_text_other_value:
  assumes "dquote \<notin> set v" "dquote \<notin> set k" "v \<noteq> k" "\<not> prefix (json_needle k) (dquote # s)"
  shows "scan_text (json_needle k) (quoted v @ s) = scan_text (json_needle k) s"
proof -
  have "\<not> prefix (json_needle k) (dquote # (v @ dquote # s))"
    using assms prefix_close_quote [of v k s] by (simp add: json_needle_def)
  then have "scan_text (json_needle k) (quoted v @ s) = scan_text (json_needle k) (v @ dquote # s)"
    by (simp add: quoted_def scan_text_step)
  also have "\<dots> = scan_text (json_needle k) (dquote # s)"
    using assms(1) by (simp add: json_needle_def scan_text_skip)
  also have "\<dots> = scan_text (json_needle k) s"
    using assms(4) by (rule scan_text_step)
  finally show ?thesis .
qed

lemma scan_text_value:
  assumes "dquote \<notin> set v"
  shows "scan_text (json_needle k) (quoted k @ '':'' @ quoted v @ s) = v # scan_text (json_needle k) s"
proof -
  have "after_sub (json_needle k) (quoted k @ '':'' @ quoted v @ s) = Some ('':'' @ quoted v @ s)"
    using after_sub_hit [of "json_needle k"] by (simp add: json_needle_def quoted_def)
  then show ?thesis
    using assms
    by (subst scan_text.simps) (simp add: json_needle_def quoted_def is_json_blank_def)
qed

text \<open>What the scanner reads after the name of an array field: the members, then whatever the
  text from the bracket on still holds.\<close>

lemma scan_array_field:
  assumes "\<forall>v\<in>set vs. plain v" "dquote \<notin> set u"
  shows "scan_text (json_needle k) (u @ quoted k @ '':['' @ join_quoted vs @ CHR '']'' # t)
       = vs @ scan_text (json_needle k) (join_quoted vs @ CHR '']'' # t)"
proof -
  let ?n = "json_needle k" and ?r = "'':['' @ join_quoted vs @ CHR '']'' # t"
  have "scan_text ?n (u @ quoted k @ ?r) = scan_text ?n (quoted k @ ?r)"
    using assms(2) by (simp add: json_needle_def scan_text_skip)
  also have "after_sub ?n (quoted k @ ?r) = Some ?r"
    using after_sub_hit [of ?n ?r] by (simp add: json_needle_def quoted_def)
  then have "scan_text ?n (quoted k @ ?r) = members_text (''['' @ join_quoted vs @ CHR '']'' # t) @ scan_text ?n ?r"
    by (subst scan_text.simps) (simp add: json_needle_def is_json_blank_def Let_def)
  also have "members_text (''['' @ join_quoted vs @ CHR '']'' # t) = vs"
    using assms members_text_join [of vs "''[''" t] by simp
  also have "scan_text ?n ?r = scan_text ?n (join_quoted vs @ CHR '']'' # t)"
    by (simp add: scan_text_step json_needle_def)
  finally show ?thesis .
qed

lemma scan_past_members:
  assumes "\<forall>v\<in>set vs. dquote \<notin> set v" "k \<notin> set vs"
    and key: "dquote \<notin> set k" "CHR '']'' \<notin> set k" "CHR '','' \<notin> set k"
  shows "scan_text (json_needle k) (join_quoted vs @ CHR '']'' # t) = scan_text (json_needle k) t"
  using assms(1,2)
proof (induction vs rule: join_quoted.induct)
  case 1
  show ?case by (simp add: scan_text_step json_needle_def)
next
  case (2 v)
  have "\<not> prefix (json_needle k) (dquote # CHR '']'' # t)"
    using key by (cases k) (auto simp: json_needle_def)
  with 2 key have "scan_text (json_needle k) (quoted v @ CHR '']'' # t) = scan_text (json_needle k) (CHR '']'' # t)"
    by (intro scan_text_other_value) auto
  then show ?case by (simp add: scan_text_step json_needle_def)
next
  case (3 v w vs)
  let ?s = "CHR '','' # join_quoted (w # vs) @ CHR '']'' # t"
  have "\<not> prefix (json_needle k) (dquote # ?s)"
    using key by (cases k) (auto simp: json_needle_def)
  with 3 key have "scan_text (json_needle k) (quoted v @ ?s) = scan_text (json_needle k) ?s"
    by (intro scan_text_other_value) auto
  with 3 show ?case by (simp add: scan_text_step json_needle_def)
qed

lemma scan_kids:
  assumes "\<forall>v\<in>set vs. plain v"
  shows "jsonStringValues (kids_json vs) ''kids'' = vs"
proof -
  have "CHR '':'' \<notin> set (join_quoted vs @ '']}'')" using join_quoted_no_colon [OF assms] by simp
  then have "scan_text (json_needle ''kids'') (join_quoted vs @ '']}'') = []" by (rule scan_text_no_colon)
  then show ?thesis
    using scan_array_field [OF assms, of "''{''" "''kids''" "''}''"]
    by (simp add: scan_is_text kids_json_def)
qed

text \<open>The scanner reads back the members of a \<open>kids\<close> array, in order, for every list of
  values without quotes, colons or brackets; a member spelled \<open>kids\<close> does no harm as long as
  nothing follows the array.\<close>

lemma jsonStringValues_kids:
  assumes "\<forall>v\<in>set vs. plain v"
  shows "jsonStringValues (kids_json vs) ''kids'' = vs"
  using assms by (rule scan_kids)

lemma jsonStringValues_kids_witness:
  "jsonStringValues (kids_json [''QUE'', ''kids'']) ''kids'' = [''QUE'', ''kids'']"
  using jsonStringValues_kids [of "[''QUE'', ''kids'']"] by (simp add: plain_def)

lemma scan_kid_entry:
  assumes "dquote \<notin> set k" "dquote \<notin> set v" "v \<noteq> ''kid''"
  shows "scan_text (json_needle ''kid'') (jwk_entry (k, v) @ s) = k # scan_text (json_needle ''kid'') s"
proof -
  let ?n = "json_needle ''kid''"
  have "scan_text ?n (jwk_entry (k, v) @ s) =
      scan_text ?n (quoted ''kid'' @ '':'' @ quoted k @ '','' @ quoted ''k'' @ '':'' @ quoted v @ ''}'' @ s)"
    by (simp add: jwk_entry_def quoted_def json_needle_def scan_text_step)
  also have "\<dots> = k # scan_text ?n ('','' @ quoted ''k'' @ '':'' @ quoted v @ ''}'' @ s)"
    using assms(1) by (rule scan_text_value)
  also have "scan_text ?n ('','' @ quoted ''k'' @ '':'' @ quoted v @ ''}'' @ s) = scan_text ?n (quoted v @ ''}'' @ s)"
    by (simp add: quoted_def json_needle_def scan_text_step)
  also have "\<dots> = scan_text ?n (''}'' @ s)"
    using assms by (intro scan_text_other_value) (simp_all add: json_needle_def)
  also have "\<dots> = scan_text ?n s" by (simp add: json_needle_def scan_text_step)
  finally show ?thesis .
qed

lemma scan_k_entry:
  assumes "dquote \<notin> set k" "dquote \<notin> set v" "k \<noteq> ''k''"
  shows "scan_text (json_needle ''k'') (jwk_entry (k, v) @ s) = v # scan_text (json_needle ''k'') s"
proof -
  let ?n = "json_needle ''k''"
  have "scan_text ?n (jwk_entry (k, v) @ s) =
      scan_text ?n (quoted k @ '','' @ quoted ''k'' @ '':'' @ quoted v @ ''}'' @ s)"
    by (simp add: jwk_entry_def quoted_def json_needle_def scan_text_step)
  also have "\<dots> = scan_text ?n ('','' @ quoted ''k'' @ '':'' @ quoted v @ ''}'' @ s)"
    using assms by (intro scan_text_other_value) (simp_all add: json_needle_def)
  also have "\<dots> = scan_text ?n (quoted ''k'' @ '':'' @ quoted v @ ''}'' @ s)"
    by (simp add: json_needle_def scan_text_step)
  also have "\<dots> = v # scan_text ?n (''}'' @ s)"
    using assms(2) by (rule scan_text_value)
  also have "scan_text ?n (''}'' @ s) = scan_text ?n s" by (simp add: json_needle_def scan_text_step)
  finally show ?thesis .
qed

lemma scan_entries:
  assumes entry: "\<And>p s. p \<in> set ps \<Longrightarrow> scan_text (json_needle n) (jwk_entry p @ s) = f p # scan_text (json_needle n) s"
  shows "scan_text (json_needle n) (jwk_entries ps @ s) = map f ps @ scan_text (json_needle n) s"
  using entry
proof (induction ps rule: jwk_entries.induct)
  case (3 p q ps)
  have "scan_text (json_needle n) (jwk_entries (p # q # ps) @ s)
      = f p # scan_text (json_needle n) (CHR '','' # jwk_entries (q # ps) @ s)"
    using 3(2) [of p] by simp
  also have "scan_text (json_needle n) (CHR '','' # jwk_entries (q # ps) @ s)
      = scan_text (json_needle n) (jwk_entries (q # ps) @ s)"
    by (simp add: scan_text_step json_needle_def)
  finally show ?case using 3 by simp
qed simp_all

lemma scan_jwk:
  assumes "\<forall>(k, v)\<in>set ps. dquote \<notin> set k \<and> dquote \<notin> set v \<and> k \<noteq> ''k'' \<and> v \<noteq> ''kid''"
  shows "jsonStringValues (jwk_json ps) ''kid'' = map fst ps
       \<and> jsonStringValues (jwk_json ps) ''k'' = map snd ps"
proof -
  let ?tail = "''],'' @ quoted ''type'' @ '':'' @ quoted ''temporary'' @ ''}''"
  have start: "scan_text (json_needle n) (jwk_json ps) = scan_text (json_needle n) (jwk_entries ps @ ?tail)"
    if "n \<in> {''kid'', ''k''}" for n
    using that by (auto simp: jwk_json_def quoted_def json_needle_def scan_text_step)
  have stop: "scan_text (json_needle n) ?tail = []" if "n \<in> {''kid'', ''k''}" for n
    using that by (auto simp: quoted_def json_needle_def scan_text_step scan_text.simps [of _ "[]"] after_sub_def)
  have "scan_text (json_needle ''kid'') (jwk_entries ps @ ?tail) = map fst ps @ scan_text (json_needle ''kid'') ?tail"
    using assms by (intro scan_entries) (auto simp: scan_kid_entry)
  moreover have "scan_text (json_needle ''k'') (jwk_entries ps @ ?tail) = map snd ps @ scan_text (json_needle ''k'') ?tail"
    using assms by (intro scan_entries) (auto simp: scan_k_entry)
  ultimately show ?thesis
    unfolding scan_is_text using start stop by simp
qed

text \<open>On a JWK set the scanner returns the key ids and the keys positionally paired, for
  every list of entries whose values are free of quotes and are not themselves spelled like
  the field names.\<close>

lemma jsonStringValues_jwk:
  assumes "\<forall>(k, v)\<in>set ps. dquote \<notin> set k \<and> dquote \<notin> set v \<and> k \<noteq> ''k'' \<and> v \<noteq> ''kid''"
  shows "jsonStringValues (jwk_json ps) ''kid'' = map fst ps
       \<and> jsonStringValues (jwk_json ps) ''k'' = map snd ps"
  using assms by (rule scan_jwk)

lemma jsonStringValues_jwk_witness:
  "jsonStringValues (jwk_json [(''AQ'', ''Ag''), (''Aw'', ''BA'')]) ''k'' = [''Ag'', ''BA'']"
  using jsonStringValues_jwk [of "[(''AQ'', ''Ag''), (''Aw'', ''BA'')]"] by simp

end
