(* ===== verification/Base64_Url.thy ===== *)
theory Base64_Url
  imports Conf_Prelude
begin

unbundle bit_operations_syntax

text \<open>
  The base64url codec of the ClearKey backend (\<open>backends/opencdm/clearkey/open_cdm.cpp\<close>,
  \<open>base64UrlEncode\<close>, \<open>base64UrlValue\<close>, \<open>base64UrlDecode\<close>): the model on 32-bit words,
  a bit-string specification of the decoder and the proof that the accumulator loop
  implements it, and the round trip.
\<close>

section \<open>The model\<close>

definition kAlphabet :: string where
  "kAlphabet = ''ABCDEFGHIJKLMNOPQRSTUVWXYZabcdefghijklmnopqrstuvwxyz0123456789-_''"

text \<open>\<open>kAlphabet[(n >> k) & 63]\<close>\<close>

definition sextet :: "u32 \<Rightarrow> nat \<Rightarrow> char" where
  "sextet n k = kAlphabet ! unat (drop_bit k n AND 63)"

text \<open>The loop takes three bytes at a time; what is left after it is the tail of 0, 1 or 2.\<close>

fun base64UrlEncode :: "bytes \<Rightarrow> string" where
  "base64UrlEncode (a # b # c # rest) =
     (let n = push_bit 16 (ucast a) OR push_bit 8 (ucast b) OR ucast c :: u32
      in [sextet n 18, sextet n 12, sextet n 6, sextet n 0] @ base64UrlEncode rest)"
| "base64UrlEncode [a] =
     (let n = push_bit 16 (ucast a) :: u32 in [sextet n 18, sextet n 12])"
| "base64UrlEncode [a, b] =
     (let n = push_bit 16 (ucast a) OR push_bit 8 (ucast b) :: u32
      in [sextet n 18, sextet n 12, sextet n 6])"
| "base64UrlEncode [] = []"

definition base64UrlValue :: "char \<Rightarrow> int" where
  "base64UrlValue c =
     (if CHR ''A'' \<le> c \<and> c \<le> CHR ''Z'' then of_char c - of_char CHR ''A''
      else if CHR ''a'' \<le> c \<and> c \<le> CHR ''z'' then of_char c - of_char CHR ''a'' + 26
      else if CHR ''0'' \<le> c \<and> c \<le> CHR ''9'' then of_char c - of_char CHR ''0'' + 52
      else if c = CHR ''-'' then 62
      else if c = CHR ''_'' then 63
      else -1)"

text \<open>
  The decoding loop over the characters left, with the 32-bit accumulator, the number of
  pending bits and the output so far.  The result is the C++ return value with the
  contents of the out-parameter.
\<close>

fun decode_loop :: "string \<Rightarrow> u32 \<Rightarrow> nat \<Rightarrow> bytes \<Rightarrow> bool \<times> bytes" where
  "decode_loop [] acc bits out = (True, out)"
| "decode_loop (c # cs) acc bits out =
     (if c = CHR ''='' then decode_loop cs acc bits out
      else
        let v = base64UrlValue c
        in if v < 0 then (False, out)
           else
             let acc' = push_bit 6 acc OR word_of_int v; bits' = bits + 6
             in if bits' \<ge> 8
                then decode_loop cs acc' (bits' - 8)
                       (out @ [ucast (drop_bit (bits' - 8) acc' AND 255)])
                else decode_loop cs acc' bits' out)"

definition base64UrlDecode :: "string \<Rightarrow> bool \<times> bytes" where
  "base64UrlDecode cs = decode_loop cs 0 0 []"

section \<open>Specification on bit strings\<close>

definition bits6 :: "int \<Rightarrow> bool list" where
  "bits6 v = map (bit v) [5, 4, 3, 2, 1, 0]"

definition bits8 :: "u8 \<Rightarrow> bool list" where
  "bits8 b = map (bit b) [7, 6, 5, 4, 3, 2, 1, 0]"

definition byte_of_bits :: "bool list \<Rightarrow> u8" where
  "byte_of_bits bs = horner_sum of_bool 2 (rev bs)"

fun bytes_of_bits :: "bool list \<Rightarrow> bytes" where
  "bytes_of_bits (b7 # b6 # b5 # b4 # b3 # b2 # b1 # b0 # bs) =
     byte_of_bits [b7, b6, b5, b4, b3, b2, b1, b0] # bytes_of_bits bs"
| "bytes_of_bits _ = []"

definition in_alphabet :: "char \<Rightarrow> bool" where
  "in_alphabet c \<longleftrightarrow> c \<in> set kAlphabet"

definition data_chars :: "string \<Rightarrow> string" where
  "data_chars = filter (\<lambda>c. c \<noteq> CHR ''='')"

definition decode_spec :: "string \<Rightarrow> bytes option" where
  "decode_spec cs =
     (if \<forall>c\<in>set (data_chars cs). in_alphabet c
      then Some (bytes_of_bits (concat (map (\<lambda>c. bits6 (base64UrlValue c)) (data_chars cs))))
      else None)"

section \<open>Values and the alphabet\<close>

lemma length_kAlphabet [simp]: "length kAlphabet = 64"
  by (simp add: kAlphabet_def)

lemma value_alphabet_all:
  "list_all (\<lambda>i. base64UrlValue (kAlphabet ! i) = int i) [0..<64]"
  by code_simp

lemma value_alphabet: "i < 64 \<Longrightarrow> base64UrlValue (kAlphabet ! i) = int i"
  using value_alphabet_all by (auto simp: list_all_iff)

lemma kAlphabet_codes:
  "map of_char kAlphabet = [65..<91] @ [97..<123] @ [48..<58] @ [45, 95 :: nat]"
  by code_simp

lemma in_alphabet_code:
  "in_alphabet c \<longleftrightarrow> (let k = of_char c :: nat in
     65 \<le> k \<and> k < 91 \<or> 97 \<le> k \<and> k < 123 \<or> 48 \<le> k \<and> k < 58 \<or> k = 45 \<or> k = 95)"
proof -
  have "in_alphabet c \<longleftrightarrow> (of_char c :: nat) \<in> set (map of_char kAlphabet)"
    unfolding in_alphabet_def set_map by (simp only: inj_image_mem_iff [OF inj_of_char])
  then show ?thesis
    unfolding kAlphabet_codes set_append set_upt Let_def by auto
qed

lemma value_code:
  "base64UrlValue c = (let k = of_char c :: nat in
     if 65 \<le> k \<and> k < 91 then int k - 65
     else if 97 \<le> k \<and> k < 123 then int k - 71
     else if 48 \<le> k \<and> k < 58 then int k + 4
     else if k = 45 then 62 else if k = 95 then 63 else - 1)"
proof -
  have "c = CHR ''-'' \<longleftrightarrow> of_char c = (of_char CHR ''-'' :: nat)"
    by (simp only: of_char_eq_iff)
  moreover have "c = CHR ''_'' \<longleftrightarrow> of_char c = (of_char CHR ''_'' :: nat)"
    by (simp only: of_char_eq_iff)
  ultimately show ?thesis
    unfolding base64UrlValue_def less_eq_char_def Let_def by (simp add: of_char_int [of c])
qed

lemma value_char:
  "if in_alphabet c then 0 \<le> base64UrlValue c \<and> base64UrlValue c < 64
   else base64UrlValue c = - 1"
  unfolding in_alphabet_code value_code by (auto simp: Let_def)

lemma value_in: "in_alphabet c \<Longrightarrow> 0 \<le> base64UrlValue c \<and> base64UrlValue c < 64"
  using value_char [of c] by simp

lemma value_out: "\<not> in_alphabet c \<Longrightarrow> base64UrlValue c = - 1"
  using value_char [of c] by simp

lemma value_neg_iff: "base64UrlValue c < 0 \<longleftrightarrow> \<not> in_alphabet c"
  using value_char [of c] by (auto split: if_splits)

lemma in_alphabet_special [simp]:
  "\<not> in_alphabet CHR ''=''" "\<not> in_alphabet CHR 0x22" "\<not> in_alphabet CHR '':''"
  "\<not> in_alphabet CHR '']''" "\<not> in_alphabet CHR ''[''" "\<not> in_alphabet CHR '',''"
  by (simp_all add: in_alphabet_def kAlphabet_def)

section \<open>The accumulator loop implements the specification\<close>

text \<open>The pending bits of the accumulator, most significant first.\<close>

definition low_bits :: "nat \<Rightarrow> u32 \<Rightarrow> bool list" where
  "low_bits n acc = map (bit acc) (rev [0..<n])"

lemma length_low_bits [simp]: "length (low_bits n acc) = n"
  by (simp add: low_bits_def)

lemma length_bits6 [simp]: "length (bits6 v) = 6"
  by (simp add: bits6_def)

lemma bit_small_int: "0 \<le> v \<Longrightarrow> v < 64 \<Longrightarrow> \<not> bit (v :: int) (i + 6)"
proof
  assume "0 \<le> v" "v < 64" "bit v (i + 6)"
  then have "take_bit 6 v = v" by (simp add: take_bit_int_eq_self)
  with \<open>bit v (i + 6)\<close> have "bit (take_bit 6 v) (i + 6)" by simp
  then show False by (simp add: bit_take_bit_iff)
qed

lemma low_bits_push:
  assumes "0 \<le> v" "v < 64" "n + 6 \<le> 32"
  shows "low_bits (n + 6) (push_bit 6 acc OR word_of_int v) = low_bits n acc @ bits6 v"
proof -
  have "[0..<n + 6] = [0, 1, 2, 3, 4, 5] @ map (\<lambda>i. i + 6) [0..<n]"
    using upt_add_eq_append [of 0 6 n] by (simp add: map_add_upt add.commute upt_conv_Cons)
  then have r: "rev [0..<n + 6] = map (\<lambda>i. i + 6) (rev [0..<n]) @ [5, 4, 3, 2, 1, 0]"
    by (simp add: rev_map)
  have hi: "bit (push_bit 6 acc OR word_of_int v) (i + 6) = bit acc i" if "i < n" for i
    using that assms bit_small_int [OF assms(1,2), of i]
    by (simp add: bit_or_iff bit_push_bit_iff bit_word_of_int_iff)
  have lo: "bit (push_bit 6 acc OR word_of_int v) i = bit v i" if "i < 6" for i
    using that by (simp add: bit_or_iff bit_push_bit_iff bit_word_of_int_iff)
  show ?thesis
    unfolding low_bits_def bits6_def r by (simp add: hi lo)
qed

lemma low_bits_split:
  assumes "8 \<le> n"
  shows "low_bits n acc = map (bit acc) (rev [n - 8..<n]) @ low_bits (n - 8) acc"
proof -
  have "[0..<n] = [0..<n - 8] @ [n - 8..<n]"
    using assms upt_add_eq_append [of 0 "n - 8" 8] by simp
  then show ?thesis by (simp add: low_bits_def)
qed

lemma byte_of_low_bits:
  assumes "8 \<le> n" "n \<le> 32"
  shows "byte_of_bits (map (bit acc) (rev [n - 8..<n])) = ucast (drop_bit (n - 8) (acc :: u32) AND 255)"
proof (rule bit_eqI)
  fix i assume "possible_bit TYPE(u8) i"
  then have i: "i < 8" by simp
  have "(255 :: u32) = mask 8" by (simp add: mask_eq_exp_minus_1)
  then have "bit (255 :: u32) i" using i by (simp only: bit_mask_iff) simp
  then have r: "bit (ucast (drop_bit (n - 8) acc AND 255) :: u8) i = bit acc (n - 8 + i)"
    using i assms by (simp add: bit_ucast_iff bit_and_iff bit_drop_bit_eq)
  have "rev [n - 8..<n] = rev [n - 8..<n - 8 + 8]" using assms by simp
  then have "bit (byte_of_bits (map (bit acc) (rev [n - 8..<n]))) i = bit acc (n - 8 + i)"
    using i assms by (simp add: byte_of_bits_def rev_map bit_horner_sum_bit_word_iff)
  with r show "bit (byte_of_bits (map (bit acc) (rev [n - 8..<n]))) i
      = bit (ucast (drop_bit (n - 8) acc AND 255) :: u8) i" by simp
qed

lemma bytes_of_bits_append8:
  "length b = 8 \<Longrightarrow> bytes_of_bits (b @ bs) = byte_of_bits b # bytes_of_bits bs"
  by (auto simp: length_Suc_conv numeral_eq_Suc)

lemma bytes_of_bits_short: "length bs < 8 \<Longrightarrow> bytes_of_bits bs = []"
  by (cases bs rule: bytes_of_bits.cases) auto

lemma decode_loop_bits:
  assumes "\<forall>c\<in>set (data_chars cs). in_alphabet c" "bits < 8"
  shows "decode_loop cs acc bits out =
     (True, out @ bytes_of_bits (low_bits bits acc
                    @ concat (map (\<lambda>c. bits6 (base64UrlValue c)) (data_chars cs))))"
  using assms
proof (induction cs acc bits out rule: decode_loop.induct)
  case (1 acc bits out)
  then show ?case by (simp add: data_chars_def bytes_of_bits_short)
next
  case (2 c cs acc bits out)
  show ?case
  proof (cases "c = CHR ''=''")
    case True
    with 2 show ?thesis by (simp add: data_chars_def)
  next
    case False
    let ?v = "base64UrlValue c" let ?acc = "push_bit 6 acc OR word_of_int ?v :: u32"
    let ?rest = "concat (map (\<lambda>c. bits6 (base64UrlValue c)) (data_chars cs))"
    have b8: "bits < 8" using 2 by simp
    have rng: "0 \<le> ?v" "?v < 64"
      using 2 False value_in [of c] by (auto simp: data_chars_def)
    have push: "low_bits bits acc @ bits6 ?v = low_bits (bits + 6) ?acc"
      using low_bits_push [OF rng, of bits acc] 2 by simp
    have dc: "data_chars (c # cs) = c # data_chars cs"
      using False by (simp add: data_chars_def)
    show ?thesis
    proof (cases "8 \<le> bits + 6")
      case True
      have "bytes_of_bits (low_bits (bits + 6) ?acc @ ?rest)
          = ucast (drop_bit (bits - 2) ?acc AND 255) # bytes_of_bits (low_bits (bits - 2) ?acc @ ?rest)"
        using True b8 byte_of_low_bits [of "bits + 6" ?acc]
        by (simp add: low_bits_split [of "bits + 6"] bytes_of_bits_append8)
      then show ?thesis
        using True False rng 2 dc push [symmetric] by (simp add: Let_def)
    next
      case short: False
      then show ?thesis
        using False rng 2 dc push [symmetric] by (simp add: Let_def)
    qed
  qed
qed

lemma decode_loop_good:
  "fst (decode_loop cs acc bits out) \<Longrightarrow> \<forall>c\<in>set (data_chars cs). in_alphabet c"
  by (induction cs arbitrary: acc bits out)
    (auto simp: data_chars_def Let_def value_neg_iff split: if_splits)

lemma decode_refines:
  "(case decode_spec cs of
      None \<Rightarrow> fst (base64UrlDecode cs) = False
    | Some d \<Rightarrow> base64UrlDecode cs = (True, d))"
  using decode_loop_bits [of cs 0 0 "[]"] decode_loop_good [of cs 0 0 "[]"]
  by (auto simp: decode_spec_def base64UrlDecode_def low_bits_def)

text \<open>C6: The decoder is the bit-string specification: it rejects a string exactly when a
  character other than the padding is outside the alphabet, and otherwise returns the
  concatenated sextets regrouped in bytes, the incomplete last group dropped; the
  never-masked 32-bit accumulator does not disturb the result.\<close>

theorem base64UrlDecode_refines_spec:
  "(case decode_spec cs of
      None \<Rightarrow> fst (base64UrlDecode cs) = False
    | Some d \<Rightarrow> base64UrlDecode cs = (True, d))"
  by (rule decode_refines)

section \<open>The encoder and the round trip\<close>

lemma sextet_index: "unat (drop_bit k (n :: u32) AND 63) < 64"
proof -
  have "(63 :: u32) = mask 6" by (simp add: mask_eq_exp_minus_1)
  then have "drop_bit k n AND 63 = take_bit 6 (drop_bit k n)" by (simp only: take_bit_eq_mask)
  moreover have "unat (take_bit 6 (drop_bit k n)) < 2 ^ 6"
    by (simp only: unsigned_take_bit_eq take_bit_nat_less_exp)
  ultimately show ?thesis by simp
qed

lemma value_sextet: "base64UrlValue (sextet n k) = uint (drop_bit k n AND 63)"
  using value_alphabet [OF sextet_index [of k n]] by (simp add: sextet_def)

lemma in_alphabet_sextet [simp]: "in_alphabet (sextet n k)"
  using sextet_index [of k n] by (simp add: sextet_def in_alphabet_def)

lemma bits6_sextet:
  "k \<le> 18 \<Longrightarrow> bits6 (base64UrlValue (sextet n k)) = map (\<lambda>i. bit n (k + i)) [5, 4, 3, 2, 1, 0]"
proof -
  have m: "(63 :: u32) = mask 6" by (simp add: mask_eq_exp_minus_1)
  have "bit (uint (drop_bit k n AND 63)) i = bit n (k + i)" if "i < 6" for i
    unfolding m using that by (simp add: bit_uint_iff bit_and_iff bit_drop_bit_eq bit_mask_iff)
  then show ?thesis by (simp add: value_sextet bits6_def)
qed

lemma byte_bit_high [simp]: "8 \<le> j \<Longrightarrow> \<not> bit (b :: u8) j"
  by (auto dest: bit_imp_le_length)

lemma encode_in_alphabet: "c \<in> set (base64UrlEncode d) \<Longrightarrow> in_alphabet c"
  by (induction d rule: base64UrlEncode.induct) (auto simp: Let_def)

lemma data_chars_encode [simp]: "data_chars (base64UrlEncode d) = base64UrlEncode d"
  unfolding data_chars_def
  by (rule filter_True) (auto dest: encode_in_alphabet)

text \<open>The sextets of one block are the bits of its bytes, padded with zeros.\<close>

lemma sextet_bits_explicit:
  "k \<le> 18 \<Longrightarrow> bits6 (base64UrlValue (sextet n k)) =
     [bit n (k + 5), bit n (k + 4), bit n (k + 3), bit n (k + 2), bit n (k + 1), bit n k]"
  by (simp add: bits6_sextet)

lemma block_bits:
  fixes a b c :: u8
  defines "n \<equiv> push_bit 16 (ucast a) OR push_bit 8 (ucast b) OR ucast c :: u32"
  shows "bits6 (base64UrlValue (sextet n 18)) @ bits6 (base64UrlValue (sextet n 12))
       @ bits6 (base64UrlValue (sextet n 6)) @ bits6 (base64UrlValue (sextet n 0))
     = bits8 a @ bits8 b @ bits8 c"
proof -
  have hi: "bit n (j + 16) = bit a j" if "j < 8" for j
    using that by (simp add: n_def bit_or_iff bit_push_bit_iff bit_ucast_iff)
  have mid: "bit n (j + 8) = bit b j" if "j < 8" for j
    using that by (simp add: n_def bit_or_iff bit_push_bit_iff bit_ucast_iff)
  have lo: "bit n j = bit c j" if "j < 8" for j
    using that by (simp add: n_def bit_or_iff bit_push_bit_iff bit_ucast_iff)
  show ?thesis
    using hi [of 0] hi [of 1] hi [of 2] hi [of 3] hi [of 4] hi [of 5] hi [of 6] hi [of 7]
      mid [of 0] mid [of 1] mid [of 2] mid [of 3] mid [of 4] mid [of 5] mid [of 6] mid [of 7]
      lo [of 0] lo [of 1] lo [of 2] lo [of 3] lo [of 4] lo [of 5] lo [of 6] lo [of 7]
    by (simp add: sextet_bits_explicit bits8_def numeral_2_eq_2)
qed

lemma length_bits8 [simp]: "length (bits8 b) = 8"
  by (simp add: bits8_def)

lemma bits8_zero: "bits8 0 = replicate 8 False"
  by (simp add: bits8_def numeral_eq_Suc)

lemma tail2_bits:
  fixes a b :: u8
  defines "n \<equiv> push_bit 16 (ucast a) OR push_bit 8 (ucast b) :: u32"
  shows "bits6 (base64UrlValue (sextet n 18)) @ bits6 (base64UrlValue (sextet n 12))
       @ bits6 (base64UrlValue (sextet n 6)) = bits8 a @ bits8 b @ [False, False]"
proof -
  have "n = push_bit 16 (ucast a) OR push_bit 8 (ucast b) OR ucast (0 :: u8)"
    by (simp add: n_def)
  then show ?thesis
    using arg_cong [OF block_bits [of a b 0], of "take 18"]
    by (simp add: bits8_zero numeral_2_eq_2)
qed

lemma tail1_bits:
  fixes a :: u8
  defines "n \<equiv> push_bit 16 (ucast a) :: u32"
  shows "bits6 (base64UrlValue (sextet n 18)) @ bits6 (base64UrlValue (sextet n 12))
       = bits8 a @ replicate 4 False"
proof -
  have "n = push_bit 16 (ucast a) OR push_bit 8 (ucast (0 :: u8)) OR ucast (0 :: u8)"
    by (simp add: n_def)
  then show ?thesis
    using arg_cong [OF block_bits [of a 0 0], of "take 12"]
    by (simp add: bits8_zero)
qed

definition pad_len :: "nat \<Rightarrow> nat" where
  "pad_len n = (if n mod 3 = 0 then 0 else if n mod 3 = 1 then 4 else 2)"

lemma bits_encode:
  "concat (map (\<lambda>c. bits6 (base64UrlValue c)) (base64UrlEncode d)) =
     concat (map bits8 d) @ replicate (pad_len (length d)) False"
proof (induction d rule: base64UrlEncode.induct)
  case (1 a b c rest)
  have "pad_len (length (a # b # c # rest)) = pad_len (length rest)"
    by (simp add: pad_len_def)
  with 1 [OF refl] block_bits [of a b c] show ?case by (simp add: Let_def)
next
  case (2 a)
  show ?case using tail1_bits [of a] by (simp add: Let_def pad_len_def)
next
  case (3 a b)
  show ?case using tail2_bits [of a b] by (simp add: Let_def pad_len_def numeral_2_eq_2)
next
  case 4
  show ?case by (simp add: pad_len_def)
qed

lemma byte_of_bits8 [simp]: "byte_of_bits (bits8 b) = b"
proof -
  have "rev (bits8 b) = map (bit b) [0..<8]"
  proof -
    have "[0..<8] = [0, 1, 2, 3, 4, 5, 6, 7 :: nat]" by code_simp
    then show ?thesis by (simp add: bits8_def)
  qed
  then show ?thesis
    by (simp only: byte_of_bits_def horner_sum_bit_eq_take_bit)
      (simp add: take_bit_word_eq_self)
qed

lemma bytes_of_bits_bytes: "length p < 8 \<Longrightarrow> bytes_of_bits (concat (map bits8 d) @ p) = d"
  by (induction d) (simp_all add: bytes_of_bits_append8 bytes_of_bits_short)

lemma decode_encode [simp]: "base64UrlDecode (base64UrlEncode d) = (True, d)"
proof -
  have "length (replicate (pad_len (length d)) False) < 8" by (simp add: pad_len_def)
  then have "decode_spec (base64UrlEncode d) = Some d"
    by (simp add: decode_spec_def bits_encode bytes_of_bits_bytes encode_in_alphabet)
  then show ?thesis using decode_refines [of "base64UrlEncode d"] by simp
qed

text \<open>C7: Decoding an encoding gives the bytes back, for every byte string.\<close>

theorem base64Url_roundtrip: "base64UrlDecode (base64UrlEncode d) = (True, d)"
  by (rule decode_encode)

lemma length_encode: "length (base64UrlEncode d) = (4 * length d + 2) div 3"
  by (induction d rule: base64UrlEncode.induct) (simp_all add: Let_def)

text \<open>The encoding of \<open>n\<close> bytes has \<open>ceil(4n/3)\<close> characters, all of the URL-safe
  alphabet (so neither padding nor a character JSON would escape), and never more than the
  capacity reserved for it.\<close>

lemma base64UrlEncode_shape:
  "length (base64UrlEncode d) = (4 * length d + 2) div 3
   \<and> length (base64UrlEncode d) \<le> (length d + 2) div 3 * 4
   \<and> set (base64UrlEncode d) \<subseteq> set kAlphabet"
  using encode_in_alphabet [of _ d] by (auto simp: length_encode in_alphabet_def)

lemma length_bytes_of_bits: "length (bytes_of_bits bs) = length bs div 8"
  by (induction bs rule: bytes_of_bits.induct) auto

text \<open>A decoded text never yields more bytes than its data characters carry bits for:
  the output has \<open>6n div 8\<close> bytes for \<open>n\<close> characters other than the padding.\<close>

lemma base64UrlDecode_length:
  assumes "base64UrlDecode s = (True, d)"
  shows "length d = 6 * length (data_chars s) div 8"
proof -
  have "length (concat (map (\<lambda>c. bits6 (base64UrlValue c)) xs)) = 6 * length xs" for xs
    by (induction xs) auto
  moreover have "decode_spec s = Some d"
    using assms decode_refines [of s] by (auto split: option.splits)
  ultimately show ?thesis
    by (auto simp: decode_spec_def length_bytes_of_bits split: if_splits)
qed

lemma base64UrlDecode_length_witness:
  "length (snd (base64UrlDecode ''QUE='')) = 2"
proof -
  have "base64UrlDecode ''QUE='' = (True, [0x41, 0x41])" by code_simp
  from base64UrlDecode_length [OF this] show ?thesis
    using \<open>base64UrlDecode ''QUE='' = (True, [0x41, 0x41])\<close> by (simp add: data_chars_def)
qed

section \<open>Encodings never look like the fields of the license JSON\<close>

lemma encode_not_one: "base64UrlEncode d \<noteq> [c]"
proof
  assume "base64UrlEncode d = [c]"
  then have "(4 * length d + 2) div 3 = 1" using length_encode [of d] by simp
  then show False by presburger
qed

lemma encode_Nil_iff [simp]: "base64UrlEncode d = [] \<longleftrightarrow> d = []"
  by (cases d rule: base64UrlEncode.cases) (auto simp: Let_def)

text \<open>The last character of a three-character encoding carries two zero bits, so the
  literal \<open>kid\<close> is no encoding.\<close>

lemma encode_not_kid: "base64UrlEncode d \<noteq> ''kid''"
proof
  assume e: "base64UrlEncode d = ''kid''"
  then have "(4 * length d + 2) div 3 = 3" using length_encode [of d] by simp
  then have "length d = 2" by presburger
  then obtain x y where d: "d = [x, y]" by (auto simp: length_Suc_conv numeral_2_eq_2)
  have "concat (map (\<lambda>c. bits6 (base64UrlValue c)) (base64UrlEncode d)) ! 17 = False"
    unfolding bits_encode by (simp add: d bits8_def pad_len_def numeral_2_eq_2)
  moreover have "concat (map (\<lambda>c. bits6 (base64UrlValue c)) ''kid'') ! 17 = True"
    by code_simp
  ultimately show False unfolding e by simp
qed

lemma encode_no_quote [simp]:
  "CHR 0x22 \<notin> set (base64UrlEncode d)" "CHR '':'' \<notin> set (base64UrlEncode d)"
  "CHR '']'' \<notin> set (base64UrlEncode d)"
  by (auto dest: encode_in_alphabet)

end
