(* ===== verification/Clearkey_Cdm.thy ===== *)
theory Clearkey_Cdm
  imports Json_Scan Base64_Url
begin

text \<open>
  The ClearKey OpenCDM backend, \<open>backends/opencdm/clearkey/open_cdm.cpp\<close>: the systems and
  sessions it allocates, every entry point of the C interface, and the calls it makes back
  into its client.

  The heap is part of the state: a session handle is an address, \<open>None\<close> is the null
  pointer, and an entry point that dereferences an address with no live object has no
  result (undefined behaviour is \<open>None\<close>).  The address \<open>operator new\<close> returns is an
  argument, \<open>None\<close> when the allocation fails.  The client's callbacks are not code of this
  repository, so a call back is an event appended to a log, in the order the backend makes
  the calls.
\<close>

section \<open>Data\<close>

datatype OpenCDMError =
    ERROR_NONE
  | ERROR_KEYSYSTEM_NOT_SUPPORTED
  | ERROR_INVALID_ARG
  | ERROR_FAIL
  | ERROR_OUT_OF_MEMORY
  | ERROR_INVALID_SESSION

datatype KeyStatus = Usable | StatusPending | InternalError

type_synonym addr = nat

text \<open>\<open>OpenCDMSessionCallbacks\<close>: which of the three function pointers are not null.\<close>

record OpenCDMSessionCallbacks =
  process_challenge_callback :: bool
  key_update_callback :: bool
  keys_updated_callback :: bool

datatype cdm_event =
    ProcessChallenge addr nat string bytes u16
  | KeyUpdate addr nat bytes u8
  | KeysUpdated addr nat

record OpenCDMSession =
  sessionId :: string
  callbacks :: "OpenCDMSessionCallbacks option"
  userData :: nat
  requestedKeyIds :: "bytes list"
  keys :: "bytes \<rightharpoonup> bytes"
  closed :: bool

record cdm =
  systems :: "addr \<rightharpoonup> string"
  sessions :: "addr \<rightharpoonup> OpenCDMSession"
  sessionCounter :: u32
  events :: "cdm_event list"

definition kClearKeySystem :: string where
  "kClearKeySystem = ''org.w3.clearkey''"

definition kClearKeyVersion :: string where
  "kClearKeyVersion = ''ClearKey-1.0''"

definition isClearKeySystem :: "string option \<Rightarrow> bool" where
  "isClearKeySystem keySystem \<longleftrightarrow> keySystem \<noteq> None \<and> the keySystem = kClearKeySystem"

text \<open>
  A counted buffer argument: the bytes \<open>[p, p + n)\<close>.  Reading past the object, or through
  null with a positive count, is undefined.
\<close>

definition read_buffer :: "bytes option \<Rightarrow> nat \<Rightarrow> bytes option" where
  "read_buffer p n =
     (case p of
        None \<Rightarrow> if n = 0 then Some [] else None
      | Some b \<Rightarrow> if n \<le> length b then Some (take n b) else None)"

section \<open>The system entry points\<close>

definition opencdm_create_system :: "cdm \<Rightarrow> string option \<Rightarrow> addr option \<Rightarrow> cdm \<times> addr option" where
  "opencdm_create_system s keySystem alloc =
     (if \<not> isClearKeySystem keySystem then (s, None)
      else case alloc of
        None \<Rightarrow> (s, None)
      | Some a \<Rightarrow> (s\<lparr>systems := (systems s)(a \<mapsto> the keySystem)\<rparr>, Some a))"

definition opencdm_destruct_system :: "cdm \<Rightarrow> addr option \<Rightarrow> (cdm \<times> OpenCDMError) option" where
  "opencdm_destruct_system s system =
     (case system of
        None \<Rightarrow> Some (s, ERROR_NONE)
      | Some a \<Rightarrow>
          if systems s a = None then None
          else Some (s\<lparr>systems := (systems s)(a := None)\<rparr>, ERROR_NONE))"

definition opencdm_is_type_supported :: "string option \<Rightarrow> string option \<Rightarrow> OpenCDMError" where
  "opencdm_is_type_supported keySystem mimeType =
     (if isClearKeySystem keySystem then ERROR_NONE else ERROR_KEYSYSTEM_NOT_SUPPORTED)"

text \<open>\<open>std::strncpy(dst, src, n)\<close>: at most \<open>n\<close> characters, the rest of the \<open>n\<close> filled
  with zeros.\<close>

definition strncpy :: "string \<Rightarrow> string \<Rightarrow> nat \<Rightarrow> string" where
  "strncpy dst src n = take n (src @ replicate n (CHR 0x00)) @ drop n dst"

definition opencdm_system_get_version ::
  "addr option \<Rightarrow> string option \<Rightarrow> (string option \<times> OpenCDMError) option" where
  "opencdm_system_get_version system versionStr =
     (case (system, versionStr) of
        (None, _) \<Rightarrow> Some (versionStr, ERROR_INVALID_ARG)
      | (_, None) \<Rightarrow> Some (versionStr, ERROR_INVALID_ARG)
      | (Some _, Some buf) \<Rightarrow>
          if length buf < 64 then None
          else Some (Some ((strncpy buf kClearKeyVersion 63)[63 := CHR 0x00]), ERROR_NONE))"

text \<open>An out parameter is the cell it points to: \<open>None\<close> for a null pointer, otherwise its
  content, which the entry point returns updated.\<close>

definition opencdm_system_get_drm_time ::
  "addr option \<Rightarrow> 64 word option \<Rightarrow> 64 word option \<times> OpenCDMError" where
  "opencdm_system_get_drm_time system time =
     (case time of None \<Rightarrow> (None, ERROR_NONE) | Some _ \<Rightarrow> (Some 0, ERROR_NONE))"

definition opencdm_system_supports_server_certificate :: "addr option \<Rightarrow> bool" where
  "opencdm_system_supports_server_certificate system = False"

definition opencdm_system_supported_robustness ::
  "addr option \<Rightarrow> (string list) option option \<Rightarrow> u16 option
     \<Rightarrow> (string list) option option \<times> u16 option \<times> OpenCDMError" where
  "opencdm_system_supported_robustness system robustness count =
     ((if robustness \<noteq> None then Some None else None),
      (if count \<noteq> None then Some 0 else None), ERROR_NONE)"

definition opencdm_get_metric_system_data ::
  "addr option \<Rightarrow> u32 option \<Rightarrow> bytes option \<Rightarrow> u32 option \<times> OpenCDMError" where
  "opencdm_get_metric_system_data system bufferLength buffer =
     ((if bufferLength \<noteq> None then Some 0 else None), ERROR_NONE)"

section \<open>Constructing a session\<close>

text \<open>\<open>for (kidB64 : jsonStringValues(initJson, "kids"))\<close>: keep what decodes to a
  non-empty key id.\<close>

fun collect_kids :: "string list \<Rightarrow> bytes list" where
  "collect_kids [] = []"
| "collect_kids (kidB64 # rest) =
     (case base64UrlDecode kidB64 of
        (ok, kid) \<Rightarrow> if ok \<and> kid \<noteq> [] then kid # collect_kids rest else collect_kids rest)"

text \<open>\<open>for (i = 0; i < requestedKeyIds.size(); ++i) { if (i > 0) request += ","; ... }\<close>\<close>

fun append_kids :: "nat \<Rightarrow> string \<Rightarrow> bytes list \<Rightarrow> string" where
  "append_kids i request [] = request"
| "append_kids i request (kid # kids) =
     append_kids (Suc i)
       ((if i > 0 then request @ '','' else request) @ [dquote] @ base64UrlEncode kid @ [dquote]) kids"

definition license_request :: "bytes list \<Rightarrow> string" where
  "license_request kids =
     append_kids 0 (''{'' @ [dquote] @ ''kids'' @ [dquote] @ '':['') kids
       @ ''],'' @ [dquote] @ ''type'' @ [dquote] @ '':'' @ [dquote] @ ''temporary'' @ [dquote] @ ''}''"

text \<open>\<open>static_cast<uint16_t>(request.size())\<close> and \<open>static_cast<uint8_t>(kid.size())\<close> drop
  the high bits.\<close>

definition challenge_event :: "addr \<Rightarrow> nat \<Rightarrow> bytes list \<Rightarrow> cdm_event" where
  "challenge_event a ud kids =
     ProcessChallenge a ud '''' (bytes_of_string (license_request kids))
       (word_of_nat (length (license_request kids)))"

text \<open>The out parameter \<open>session\<close> is \<open>None\<close> for null, otherwise the cell's content.\<close>

definition opencdm_construct_session ::
  "cdm \<Rightarrow> addr option \<Rightarrow> string option \<Rightarrow> bytes option \<Rightarrow> u16 \<Rightarrow> OpenCDMSessionCallbacks option
     \<Rightarrow> nat \<Rightarrow> addr option option \<Rightarrow> addr option
     \<Rightarrow> (cdm \<times> addr option option \<times> OpenCDMError) option" where
  "opencdm_construct_session s system initDataType initData initDataLength cbs ud session alloc =
     (if system = None \<or> session = None then Some (s, session, ERROR_INVALID_ARG)
      else if initDataType = None \<or> the initDataType \<noteq> ''keyids'' then Some (s, session, ERROR_FAIL)
      else case read_buffer initData (unat initDataLength) of
        None \<Rightarrow> None
      | Some initBytes \<Rightarrow>
          (let kids = collect_kids (jsonStringValues (string_of_bytes initBytes) ''kids'')
           in if kids = [] then Some (s, session, ERROR_FAIL)
              else case alloc of
                None \<Rightarrow> Some (s, session, ERROR_OUT_OF_MEMORY)
              | Some a \<Rightarrow>
                  (let n = sessionCounter s + 1;
                       newSession = \<lparr>sessionId = ''clearkey-session-'' @ to_dec (unat n),
                                     callbacks = cbs, userData = ud, requestedKeyIds = kids,
                                     keys = Map.empty, closed = False\<rparr>;
                       s1 = s\<lparr>sessionCounter := n, sessions := (sessions s)(a \<mapsto> newSession)\<rparr>;
                       s2 = (if cbs \<noteq> None \<and> process_challenge_callback (the cbs)
                             then s1\<lparr>events := events s1 @ [challenge_event a ud kids]\<rparr> else s1)
                   in Some (s2, Some (Some a), ERROR_NONE))))"

section \<open>The session entry points\<close>

definition opencdm_destruct_session :: "cdm \<Rightarrow> addr option \<Rightarrow> (cdm \<times> OpenCDMError) option" where
  "opencdm_destruct_session s session =
     (case session of
        None \<Rightarrow> Some (s, ERROR_NONE)
      | Some a \<Rightarrow>
          if sessions s a = None then None
          else Some (s\<lparr>sessions := (sessions s)(a := None)\<rparr>, ERROR_NONE))"

definition opencdm_session_load :: "cdm \<Rightarrow> addr option \<Rightarrow> (cdm \<times> OpenCDMError) option" where
  "opencdm_session_load s session = Some (s, ERROR_NONE)"

definition put_key :: "OpenCDMSession \<Rightarrow> bytes \<Rightarrow> bytes \<Rightarrow> OpenCDMSession" where
  "put_key x kid key = x\<lparr>keys := (keys x)(kid \<mapsto> key)\<rparr>"

definition has_key :: "OpenCDMSession \<Rightarrow> bytes \<Rightarrow> bool" where
  "has_key x kid \<longleftrightarrow> keys x kid \<noteq> None"

text \<open>
  The loop of \<open>opencdm_session_update\<close>: the session as the loop leaves it, with the key ids
  stored in this call, or \<open>None\<close> when a pair was refused, where the loop returns at once and
  keeps what earlier iterations stored.
\<close>

fun store_keys ::
  "OpenCDMSession \<Rightarrow> bytes list \<Rightarrow> (string \<times> string) list \<Rightarrow> OpenCDMSession \<times> bytes list option" where
  "store_keys x updatedKids [] = (x, Some updatedKids)"
| "store_keys x updatedKids ((kidText, keyText) # rest) =
     (case (base64UrlDecode kidText, base64UrlDecode keyText) of
        ((kidOk, kid), (keyOk, key)) \<Rightarrow>
          if \<not> kidOk \<or> \<not> keyOk \<or> kid = [] \<or> key = [] then (x, None)
          else store_keys (put_key x kid key) (updatedKids @ [kid]) rest)"

definition update_events :: "addr \<Rightarrow> OpenCDMSession \<Rightarrow> bytes list \<Rightarrow> cdm_event list" where
  "update_events a x updatedKids =
     (case callbacks x of
        None \<Rightarrow> []
      | Some cb \<Rightarrow>
          (if key_update_callback cb
           then map (\<lambda>kid. KeyUpdate a (userData x) kid (word_of_nat (length kid))) updatedKids else [])
          @ (if keys_updated_callback cb then [KeysUpdated a (userData x)] else []))"

definition opencdm_session_update ::
  "cdm \<Rightarrow> addr option \<Rightarrow> bytes option \<Rightarrow> u16 \<Rightarrow> (cdm \<times> OpenCDMError) option" where
  "opencdm_session_update s session keyMessage keyLength =
     (case session of
        None \<Rightarrow> Some (s, ERROR_INVALID_ARG)
      | Some a \<Rightarrow>
          if keyMessage = None \<or> keyLength = 0 then Some (s, ERROR_INVALID_ARG)
          else case sessions s a of
            None \<Rightarrow> None
          | Some x \<Rightarrow>
              if closed x then Some (s, ERROR_INVALID_SESSION)
              else case read_buffer keyMessage (unat keyLength) of
                None \<Rightarrow> None
              | Some message \<Rightarrow>
                  (let response = string_of_bytes message;
                       kids = jsonStringValues response ''kid'';
                       ks = jsonStringValues response ''k''
                   in if kids = [] \<or> length kids \<noteq> length ks then Some (s, ERROR_FAIL)
                      else case store_keys x [] (zip kids ks) of
                        (x1, None) \<Rightarrow>
                          Some (s\<lparr>sessions := (sessions s)(a \<mapsto> x1)\<rparr>, ERROR_FAIL)
                      | (x1, Some updatedKids) \<Rightarrow>
                          Some (s\<lparr>sessions := (sessions s)(a \<mapsto> x1),
                                  events := events s @ update_events a x1 updatedKids\<rparr>,
                                ERROR_NONE)))"

definition opencdm_session_remove :: "cdm \<Rightarrow> addr option \<Rightarrow> (cdm \<times> OpenCDMError) option" where
  "opencdm_session_remove s session =
     (case session of
        None \<Rightarrow> Some (s, ERROR_INVALID_ARG)
      | Some a \<Rightarrow>
          case sessions s a of
            None \<Rightarrow> None
          | Some x \<Rightarrow> Some (s\<lparr>sessions := (sessions s)(a \<mapsto> x\<lparr>keys := Map.empty\<rparr>)\<rparr>, ERROR_NONE))"

definition opencdm_session_close :: "cdm \<Rightarrow> addr option \<Rightarrow> (cdm \<times> OpenCDMError) option" where
  "opencdm_session_close s session =
     (case session of
        None \<Rightarrow> Some (s, ERROR_INVALID_ARG)
      | Some a \<Rightarrow>
          case sessions s a of
            None \<Rightarrow> None
          | Some x \<Rightarrow> Some (s\<lparr>sessions := (sessions s)(a \<mapsto> x\<lparr>closed := True\<rparr>)\<rparr>, ERROR_NONE))"

definition opencdm_session_status ::
  "cdm \<Rightarrow> addr option \<Rightarrow> bytes option \<Rightarrow> u8 \<Rightarrow> KeyStatus option" where
  "opencdm_session_status s session keyId len =
     (case session of
        None \<Rightarrow> Some InternalError
      | Some a \<Rightarrow>
          if keyId = None \<or> len = 0 then Some InternalError
          else case (read_buffer keyId (unat len), sessions s a) of
            (Some kid, Some x) \<Rightarrow> Some (if has_key x kid then Usable else StatusPending)
          | _ \<Rightarrow> None)"

text \<open>A null handle gives a null string.\<close>

definition opencdm_session_id :: "cdm \<Rightarrow> addr option \<Rightarrow> string option option" where
  "opencdm_session_id s session =
     (case session of
        None \<Rightarrow> Some None
      | Some a \<Rightarrow> map_option (\<lambda>x. Some (sessionId x)) (sessions s a))"

definition opencdm_session_has_key_id ::
  "cdm \<Rightarrow> addr option \<Rightarrow> u8 \<Rightarrow> bytes option \<Rightarrow> u32 option" where
  "opencdm_session_has_key_id s session len keyId =
     (case session of
        None \<Rightarrow> Some 0
      | Some a \<Rightarrow>
          if keyId = None \<or> len = 0 then Some 0
          else case (read_buffer keyId (unat len), sessions s a) of
            (Some kid, Some x) \<Rightarrow> Some (if has_key x kid then 1 else 0)
          | _ \<Rightarrow> None)"

definition opencdm_session_set_drm_header ::
  "cdm \<Rightarrow> addr option \<Rightarrow> bytes option \<Rightarrow> u32 \<Rightarrow> (cdm \<times> OpenCDMError) option" where
  "opencdm_session_set_drm_header s session drmHeader drmHeaderSize = Some (s, ERROR_NONE)"

definition opencdm_session_system_error :: "cdm \<Rightarrow> addr option \<Rightarrow> OpenCDMError option" where
  "opencdm_session_system_error s session = Some ERROR_NONE"

lemmas session_ops =
  opencdm_destruct_session_def opencdm_session_load_def opencdm_session_update_def
  opencdm_session_remove_def opencdm_session_close_def opencdm_session_set_drm_header_def


section \<open>The interfaces the session is built on\<close>

text \<open>A store of keys: what is present after a key was put.\<close>

locale key_store =
  fixes put :: "'s \<Rightarrow> 'k \<Rightarrow> 'v \<Rightarrow> 's"
    and has :: "'s \<Rightarrow> 'k \<Rightarrow> bool"
  assumes has_put: "has (put s k v) k' \<longleftrightarrow> k' = k \<or> has s k'"
begin

definition put_all :: "'s \<Rightarrow> ('k \<times> 'v) list \<Rightarrow> 's" where
  "put_all = foldl (\<lambda>s (k, v). put s k v)"

lemma put_all_Nil [simp]: "put_all s [] = s"
  by (simp add: put_all_def)

lemma put_all_Cons [simp]: "put_all s ((k, v) # ps) = put_all (put s k v) ps"
  by (simp add: put_all_def)

lemma has_put_all: "has (put_all s ps) k \<longleftrightarrow> k \<in> fst ` set ps \<or> has s k"
proof (induction ps arbitrary: s)
  case (Cons p ps)
  then show ?case by (cases p) (simp add: has_put, blast)
qed simp

end

text \<open>A text encoding of byte strings with its partial inverse.\<close>

locale key_codec =
  fixes enc :: "'b \<Rightarrow> string"
    and dec :: "string \<Rightarrow> bool \<times> 'b"
  assumes dec_enc: "dec (enc b) = (True, b)"
begin

lemma enc_inj: "enc a = enc b \<longleftrightarrow> a = b"
  using dec_enc by (metis snd_conv)

lemma map_dec_enc: "map (snd \<circ> dec) (map enc bs) = bs"
  by (simp add: dec_enc comp_def)

end

interpretation store: key_store put_key has_key
  by unfold_locales (auto simp: put_key_def has_key_def)

interpretation b64: key_codec base64UrlEncode base64UrlDecode
  by unfold_locales (rule decode_encode)

lemma put_key_fields [simp]:
  "callbacks (put_key x k v) = callbacks x" "userData (put_key x k v) = userData x"
  "closed (put_key x k v) = closed x" "sessionId (put_key x k v) = sessionId x"
  "requestedKeyIds (put_key x k v) = requestedKeyIds x"
  by (simp_all add: put_key_def)

lemma put_all_fields [simp]:
  "callbacks (store.put_all x ps) = callbacks x" "userData (store.put_all x ps) = userData x"
  "closed (store.put_all x ps) = closed x" "sessionId (store.put_all x ps) = sessionId x"
  "requestedKeyIds (store.put_all x ps) = requestedKeyIds x"
  by (induction ps arbitrary: x) auto

section \<open>The update loop\<close>

text \<open>The pair of byte strings an entry of the response denotes, if it denotes one.\<close>

definition decode_pair :: "string \<times> string \<Rightarrow> (bytes \<times> bytes) option" where
  "decode_pair p =
     (case (base64UrlDecode (fst p), base64UrlDecode (snd p)) of
        ((True, kid), (True, key)) \<Rightarrow> if kid = [] \<or> key = [] then None else Some (kid, key)
      | _ \<Rightarrow> None)"

definition good_prefix :: "(string \<times> string) list \<Rightarrow> (bytes \<times> bytes) list" where
  "good_prefix ps = map (the \<circ> decode_pair) (takeWhile (\<lambda>p. decode_pair p \<noteq> None) ps)"

lemma good_prefix_simps [simp]:
  "good_prefix [] = []"
  "good_prefix (p # ps) = (case decode_pair p of None \<Rightarrow> [] | Some q \<Rightarrow> q # good_prefix ps)"
  by (auto simp: good_prefix_def split: option.splits)

lemma decode_pair_encode [simp]:
  "kid \<noteq> [] \<Longrightarrow> key \<noteq> [] \<Longrightarrow> decode_pair (base64UrlEncode kid, base64UrlEncode key) = Some (kid, key)"
  by (simp add: decode_pair_def)

lemma good_prefix_encode:
  "\<forall>(kid, key)\<in>set ps. kid \<noteq> [] \<and> key \<noteq> [] \<Longrightarrow>
     good_prefix (map (\<lambda>(kid, key). (base64UrlEncode kid, base64UrlEncode key)) ps) = ps"
  by (induction ps) auto

lemma good_prefix_nonempty: "(kid, key) \<in> set (good_prefix ps) \<Longrightarrow> kid \<noteq> [] \<and> key \<noteq> []"
  by (induction ps) (auto simp: decode_pair_def split: option.splits prod.splits bool.splits if_splits)

lemma good_prefix_full:
  "length (good_prefix ps) = length ps \<longleftrightarrow> (\<forall>p\<in>set ps. decode_pair p \<noteq> None)"
  by (induction ps) (auto split: option.splits)

lemma store_keys_prefix:
  "store_keys x u ps =
     (store.put_all x (good_prefix ps),
      if length (good_prefix ps) = length ps then Some (u @ map fst (good_prefix ps)) else None)"
proof (induction x u ps rule: store_keys.induct)
  case (2 x u kidText keyText rest)
  then show ?case
    by (auto simp: decode_pair_def split: prod.splits bool.splits)
qed simp


section \<open>Functional behaviour of the entry points\<close>

lemma read_buffer_whole [simp]: "read_buffer (Some b) (length b) = Some b"
  by (simp add: read_buffer_def)

lemma unat_of_nat16 [simp]: "n < 65536 \<Longrightarrow> unat (word_of_nat n :: u16) = n"
  by (simp add: unat_of_nat)

lemma unat_of_nat8 [simp]: "n < 256 \<Longrightarrow> unat (word_of_nat n :: u8) = n"
  by (simp add: unat_of_nat)

lemma word_of_nat_eq_0_u16: "n < 65536 \<Longrightarrow> (word_of_nat n :: u16) = 0 \<longleftrightarrow> n = 0"
  by (simp only: unat_of_nat16 unat_eq_zero [symmetric])

lemma word_of_nat_eq_0_u8: "n < 256 \<Longrightarrow> (word_of_nat n :: u8) = 0 \<longleftrightarrow> n = 0"
  by (simp only: unat_of_nat8 unat_eq_zero [symmetric])

lemma update_events_put_all [simp]: "update_events a (store.put_all x ps) u = update_events a x u"
  by (cases "callbacks x") (simp_all add: update_events_def)

lemma update_result:
  assumes "sessions s a = Some x" "\<not> closed x" "len \<noteq> 0" "msg \<noteq> None"
    and "read_buffer msg (unat len) = Some m"
  defines "kids \<equiv> jsonStringValues (string_of_bytes m) ''kid''"
    and "ks \<equiv> jsonStringValues (string_of_bytes m) ''k''"
  defines "good \<equiv> good_prefix (zip kids ks)"
  shows "opencdm_session_update s (Some a) msg len =
     Some (if kids = [] \<or> length kids \<noteq> length ks then (s, ERROR_FAIL)
           else if length good < length kids
           then (s\<lparr>sessions := (sessions s)(a \<mapsto> store.put_all x good)\<rparr>, ERROR_FAIL)
           else (s\<lparr>sessions := (sessions s)(a \<mapsto> store.put_all x good),
                   events := events s @ update_events a x (map fst good)\<rparr>, ERROR_NONE))"
proof -
  have "length good \<le> length (zip kids ks)"
    unfolding good_def good_prefix_def length_map by (rule length_takeWhile_le)
  then show ?thesis
    using assms(1-5)
    by (auto simp: opencdm_session_update_def Let_def store_keys_prefix
        kids_def [symmetric] ks_def [symmetric] good_def [symmetric])
qed

text \<open>C5: What an update does to a live, open session, branch by branch.  A response whose
  key ids and keys do not pair up changes nothing.  Otherwise the pairs before the first
  undecodable one are stored; if there is none, the call succeeds and calls back once per
  key id, in the response's order, then once for the batch; if there is one, the call fails
  silently, with the earlier pairs left stored.\<close>

theorem session_update_effect:
  assumes "sessions s a = Some x" "\<not> closed x" "len \<noteq> 0" "msg \<noteq> None"
    and "read_buffer msg (unat len) = Some m"
    and "kids = jsonStringValues (string_of_bytes m) ''kid''"
    and "ks = jsonStringValues (string_of_bytes m) ''k''"
    and "good = good_prefix (zip kids ks)"
  shows "opencdm_session_update s (Some a) msg len =
     Some (if kids = [] \<or> length kids \<noteq> length ks then (s, ERROR_FAIL)
           else if length good < length kids
           then (s\<lparr>sessions := (sessions s)(a \<mapsto> store.put_all x good)\<rparr>, ERROR_FAIL)
           else (s\<lparr>sessions := (sessions s)(a \<mapsto> store.put_all x good),
                   events := events s @ update_events a x (map fst good)\<rparr>, ERROR_NONE))"
  using update_result [OF assms(1-5)] assms(6-8) by simp

definition sample_session :: OpenCDMSession where
  "sample_session = \<lparr>sessionId = ''clearkey-session-1'', callbacks = Some \<lparr>process_challenge_callback = True,
      key_update_callback = True, keys_updated_callback = True\<rparr>, userData = 9,
      requestedKeyIds = [[1]], keys = Map.empty, closed = False\<rparr>"

definition sample_cdm :: cdm where
  "sample_cdm = \<lparr>systems = [1 \<mapsto> kClearKeySystem], sessions = [5 \<mapsto> sample_session],
      sessionCounter = 1, events = []\<rparr>"

theorem session_update_effect_witness:
  "opencdm_session_update sample_cdm (Some 5) (Some (bytes_of_string (jwk_json [(''AQ'', ''Ag'')]))) 63 =
     Some (sample_cdm\<lparr>sessions := [5 \<mapsto> sample_session\<lparr>keys := [[1] \<mapsto> [2]]\<rparr>],
                      events := [KeyUpdate 5 9 [1] 1, KeysUpdated 5 9]\<rparr>, ERROR_NONE)"
proof -
  let ?m = "bytes_of_string (jwk_json [(''AQ'', ''Ag'')])"
  have len: "length (jwk_json [(''AQ'', ''Ag'')]) = 63" by (simp add: jwk_json_def jwk_entry_def quoted_def)
  then have r: "read_buffer (Some ?m) (unat (63 :: u16)) = Some ?m" by (simp add: read_buffer_def)
  have j: "jsonStringValues (string_of_bytes ?m) ''kid'' = [''AQ'']" "jsonStringValues (string_of_bytes ?m) ''k'' = [''Ag'']"
    using scan_jwk [of "[(''AQ'', ''Ag'')]"] by simp_all
  have d: "decode_pair (''AQ'', ''Ag'') = Some ([1], [2])" by code_simp
  show ?thesis
    using session_update_effect [of sample_cdm 5 sample_session 63 "Some ?m" ?m _ _ "[([1], [2])]", OF _ _ _ _ r] j d
    by (simp add: sample_cdm_def sample_session_def update_events_def put_key_def)
qed


section \<open>The license exchange\<close>

definition enc_pair :: "bytes \<times> bytes \<Rightarrow> string \<times> string" where
  "enc_pair p = (base64UrlEncode (fst p), base64UrlEncode (snd p))"

text \<open>The JWK set a license server answers with, and the \<open>keyids\<close> init data of a
  presentation, for given keys.\<close>

definition license_response :: "(bytes \<times> bytes) list \<Rightarrow> bytes" where
  "license_response ps = bytes_of_string (jwk_json (map enc_pair ps))"

definition keyids_init :: "bytes list \<Rightarrow> bytes" where
  "keyids_init kids = bytes_of_string (kids_json (map base64UrlEncode kids))"

lemma plain_encode [simp]: "plain (base64UrlEncode d)"
  by (simp add: plain_def)

lemma scan_response:
  "jsonStringValues (string_of_bytes (license_response ps)) ''kid'' = map (base64UrlEncode \<circ> fst) ps"
  "jsonStringValues (string_of_bytes (license_response ps)) ''k'' = map (base64UrlEncode \<circ> snd) ps"
proof -
  have "\<forall>(k, v)\<in>set (map enc_pair ps). dquote \<notin> set k \<and> dquote \<notin> set v \<and> k \<noteq> ''k'' \<and> v \<noteq> ''kid''"
    by (auto simp: enc_pair_def encode_not_one encode_not_kid)
  from scan_jwk [OF this]
  show "jsonStringValues (string_of_bytes (license_response ps)) ''kid'' = map (base64UrlEncode \<circ> fst) ps"
    and "jsonStringValues (string_of_bytes (license_response ps)) ''k'' = map (base64UrlEncode \<circ> snd) ps"
    by (simp_all add: license_response_def enc_pair_def comp_def)
qed

lemma scan_keyids: "jsonStringValues (string_of_bytes (keyids_init kids)) ''kids'' = map base64UrlEncode kids"
  unfolding keyids_init_def string_of_bytes_of_string by (rule scan_kids) simp

lemma collect_kids_encode: "\<forall>kid\<in>set kids. kid \<noteq> [] \<Longrightarrow> collect_kids (map base64UrlEncode kids) = kids"
  by (induction kids) auto

lemma collect_kids_nonempty: "kid \<in> set (collect_kids ts) \<Longrightarrow> kid \<noteq> []"
  by (induction ts) (auto split: if_splits prod.splits)

lemma zip_response: "zip (map (base64UrlEncode \<circ> fst) ps) (map (base64UrlEncode \<circ> snd) ps) = map enc_pair ps"
  by (induction ps) (simp_all add: enc_pair_def)

lemma good_prefix_response:
  "\<forall>(kid, key)\<in>set ps. kid \<noteq> [] \<and> key \<noteq> [] \<Longrightarrow>
     good_prefix (map enc_pair ps @ qs) = ps @ good_prefix qs"
  by (induction ps) (auto simp: enc_pair_def)

lemma license_response_not_Nil [simp]: "license_response ps \<noteq> []"
  by (simp add: license_response_def bytes_of_string_def jwk_json_def)

definition construct_ok :: "cdm \<Rightarrow> addr \<Rightarrow> OpenCDMSessionCallbacks option \<Rightarrow> nat \<Rightarrow> bytes list \<Rightarrow> cdm" where
  "construct_ok s a cbs ud kids =
     s\<lparr>sessionCounter := sessionCounter s + 1,
       sessions := (sessions s)(a \<mapsto>
         \<lparr>sessionId = ''clearkey-session-'' @ to_dec (unat (sessionCounter s + 1)),
          callbacks = cbs, userData = ud, requestedKeyIds = kids, keys = Map.empty, closed = False\<rparr>),
       events := events s @ (if cbs \<noteq> None \<and> process_challenge_callback (the cbs)
                              then [challenge_event a ud kids] else [])\<rparr>"

lemma construct_result:
  assumes "read_buffer initData (unat len) = Some m"
    and "collect_kids (jsonStringValues (string_of_bytes m) ''kids'') = kids" "kids \<noteq> []"
  shows "opencdm_construct_session s (Some sys) (Some ''keyids'') initData len cbs ud (Some cell) (Some a) =
     Some (construct_ok s a cbs ud kids, Some (Some a), ERROR_NONE)"
  using assms by (simp add: opencdm_construct_session_def Let_def construct_ok_def)

text \<open>Init data in the \<open>keyids\<close> format is accepted as it stands, and so is a response.\<close>

lemma construct_keyids:
  assumes "kids \<noteq> []" "\<forall>kid\<in>set kids. kid \<noteq> []" "length (keyids_init kids) < 65536"
  shows "opencdm_construct_session s (Some sys) (Some ''keyids'') (Some (keyids_init kids))
      (word_of_nat (length (keyids_init kids))) cbs ud (Some cell) (Some a)
    = Some (construct_ok s a cbs ud kids, Some (Some a), ERROR_NONE)"
proof (rule construct_result)
  show "collect_kids (jsonStringValues (string_of_bytes (keyids_init kids)) ''kids'') = kids"
    unfolding scan_keyids using assms(2) by (rule collect_kids_encode)
qed (use assms(1,3) in simp_all)

lemma update_response:
  assumes "sessions s a = Some x" "\<not> closed x"
    and "ps \<noteq> []" "\<forall>(kid, key)\<in>set ps. kid \<noteq> [] \<and> key \<noteq> []" "length (license_response ps) < 65536"
  shows "opencdm_session_update s (Some a) (Some (license_response ps)) (word_of_nat (length (license_response ps)))
    = Some (s\<lparr>sessions := (sessions s)(a \<mapsto> store.put_all x ps),
              events := events s @ update_events a x (map fst ps)\<rparr>, ERROR_NONE)"
  using update_result [OF assms(1,2), of "word_of_nat (length (license_response ps))" "Some (license_response ps)"
      "license_response ps"] assms(3-5) good_prefix_response [of ps "[]"]
  by (simp add: scan_response zip_response word_of_nat_eq_0_u16)

lemma status_result:
  assumes "sessions s a = Some x" "kid \<noteq> []" "length kid < 256"
  shows "opencdm_session_status s (Some a) (Some kid) (word_of_nat (length kid)) =
           Some (if has_key x kid then Usable else StatusPending)"
  using assms by (simp add: opencdm_session_status_def word_of_nat_eq_0_u8)

lemma has_put_all_keys: "has_key (store.put_all x ps) kid \<longleftrightarrow> kid \<in> fst ` set ps \<or> has_key x kid"
  by (rule store.has_put_all)



text \<open>A failing update is not atomic.  When the response's entries before an undecodable key
  id are good, the call reports failure and makes no callback, yet the keys of those entries
  are usable from then on, although the client was never told of them.\<close>

lemma session_update_not_atomic:
  fixes ps qs :: "(bytes \<times> bytes) list"
  assumes "sessions s a = Some x" "\<not> closed x"
    and "\<forall>(kid, key)\<in>set ps. kid \<noteq> [] \<and> key \<noteq> []"
    and bad: "dquote \<notin> set bad" "bad \<noteq> ''k''" "fst (base64UrlDecode bad) = False"
    and "msg = bytes_of_string (jwk_json (map enc_pair ps @ (bad, ''AQ'') # map enc_pair qs))"
    and "length msg < 65536"
  shows "\<exists>s'. opencdm_session_update s (Some a) (Some msg) (word_of_nat (length msg)) = Some (s', ERROR_FAIL)
       \<and> events s' = events s
       \<and> (\<forall>q\<in>fst ` set ps. length q < 256 \<longrightarrow>
            opencdm_session_status s' (Some a) (Some q) (word_of_nat (length q)) = Some Usable)"
proof -
  let ?es = "map enc_pair ps @ (bad, ''AQ'') # map enc_pair qs"
  let ?s' = "s\<lparr>sessions := (sessions s)(a \<mapsto> store.put_all x ps)\<rparr>"
  have "\<forall>(k, v)\<in>set ?es. dquote \<notin> set k \<and> dquote \<notin> set v \<and> k \<noteq> ''k'' \<and> v \<noteq> ''kid''"
    using bad by (auto simp: enc_pair_def encode_not_one encode_not_kid)
  from scan_jwk [OF this]
  have scan: "jsonStringValues (string_of_bytes msg) ''kid'' = map fst ?es"
    "jsonStringValues (string_of_bytes msg) ''k'' = map snd ?es"
    unfolding assms(7) string_of_bytes_of_string by (rule conjunct1, rule conjunct2)
  have "decode_pair (bad, ''AQ'') = None"
    using bad(3) by (auto simp: decode_pair_def split: prod.splits bool.splits)
  then have good: "good_prefix ?es = ps"
    using good_prefix_response [OF assms(3)] by simp
  have msg: "msg \<noteq> []" by (simp add: assms(7) bytes_of_string_def jwk_json_def)
  have "opencdm_session_update s (Some a) (Some msg) (word_of_nat (length msg)) = Some (?s', ERROR_FAIL)"
    using update_result [OF assms(1,2), of "word_of_nat (length msg)" "Some msg" msg] assms(8) msg
    unfolding scan zip_map_fst_snd good by (simp add: word_of_nat_eq_0_u16)
  moreover have "opencdm_session_status ?s' (Some a) (Some q) (word_of_nat (length q)) = Some Usable"
    if "q \<in> fst ` set ps" "length q < 256" for q
    using that assms(3) status_result [of ?s' a "store.put_all x ps" q] by (auto simp: has_put_all_keys)
  ultimately show ?thesis by auto
qed

lemma session_update_not_atomic_witness:
  "\<exists>s'. opencdm_session_update sample_cdm (Some 5)
       (Some (bytes_of_string (jwk_json [(''AQ'', ''Ag''), (''!'', ''AQ'')]))) 96 = Some (s', ERROR_FAIL)
     \<and> opencdm_session_status s' (Some 5) (Some [1]) (word_of_nat (length [1 :: u8])) = Some Usable"
proof -
  have e: "map enc_pair [([1], [2])] = [(''AQ'', ''Ag'')]" by code_simp
  have len: "length (jwk_json [(''AQ'', ''Ag''), (''!'', ''AQ'')]) = 96"
    by (simp add: jwk_json_def jwk_entry_def quoted_def)
  have "\<not> fst (base64UrlDecode ''!'')" by code_simp
  from session_update_not_atomic [of sample_cdm 5 sample_session "[([1], [2])]" "''!''"
      "bytes_of_string (jwk_json [(''AQ'', ''Ag''), (''!'', ''AQ'')])" "[]"] this len e
  show ?thesis by (auto simp: sample_cdm_def sample_session_def)
qed

text \<open>The two queries agree: \<open>has_key_id\<close> answers 1 exactly where \<open>session_status\<close> answers
  \<open>Usable\<close>, on every handle, key id pointer and length, and they are undefined on the same
  arguments.\<close>

lemma status_agrees_with_has_key_id:
  "(opencdm_session_has_key_id s h len kid = Some 1 \<longleftrightarrow> opencdm_session_status s h kid len = Some Usable)
   \<and> (opencdm_session_has_key_id s h len kid = None \<longleftrightarrow> opencdm_session_status s h kid len = None)"
  by (auto simp: opencdm_session_has_key_id_def opencdm_session_status_def split: option.splits)

text \<open>Closing a session makes every later well-formed update fail with
  \<open>ERROR_INVALID_SESSION\<close> without any effect, but it revokes nothing: the keys stored before
  stay usable in the closed session.\<close>

lemma closed_session_rejects_update:
  assumes "sessions s a = Some x" "msg \<noteq> None" "len \<noteq> 0"
  shows "\<exists>s'. opencdm_session_close s (Some a) = Some (s', ERROR_NONE)
     \<and> opencdm_session_update s' (Some a) msg len = Some (s', ERROR_INVALID_SESSION)
     \<and> (\<forall>kid n. opencdm_session_status s' (Some a) kid n = opencdm_session_status s (Some a) kid n)"
  using assms
  by (simp add: opencdm_session_close_def opencdm_session_update_def opencdm_session_status_def
      has_key_def split: option.splits)

lemma closed_session_rejects_update_witness:
  "\<exists>s'. opencdm_session_close sample_cdm (Some 5) = Some (s', ERROR_NONE)
     \<and> opencdm_session_update s' (Some 5) (Some [1]) 1 = Some (s', ERROR_INVALID_SESSION)"
  using closed_session_rejects_update [of sample_cdm 5 sample_session "Some [1]" 1]
  by (auto simp: sample_cdm_def)

text \<open>Removing a session discards all its keys: every key id it held is pending again, while
  the other sessions, the requested ids and the open state are untouched, and a later update
  can make keys usable again.\<close>

lemma session_remove_clears:
  assumes "sessions s a = Some x"
  shows "\<exists>s' x'. opencdm_session_remove s (Some a) = Some (s', ERROR_NONE)
     \<and> sessions s' a = Some x' \<and> keys x' = Map.empty
     \<and> closed x' = closed x \<and> requestedKeyIds x' = requestedKeyIds x
     \<and> (\<forall>b. b \<noteq> a \<longrightarrow> sessions s' b = sessions s b) \<and> events s' = events s
     \<and> (\<forall>kid. kid \<noteq> [] \<and> length kid < 256 \<longrightarrow>
          opencdm_session_status s' (Some a) (Some kid) (word_of_nat (length kid)) = Some StatusPending)"
proof -
  let ?x' = "x\<lparr>keys := Map.empty\<rparr>"
  let ?s' = "s\<lparr>sessions := (sessions s)(a \<mapsto> ?x')\<rparr>"
  have "opencdm_session_status ?s' (Some a) (Some kid) (word_of_nat (length kid)) = Some StatusPending"
    if "kid \<noteq> []" "length kid < 256" for kid
    using status_result [of ?s' a ?x' kid] that by (simp add: has_key_def)
  then show ?thesis
    using assms by (intro exI [of _ ?s'] exI [of _ ?x']) (simp add: opencdm_session_remove_def)
qed

lemma session_remove_clears_witness:
  "\<exists>s'. opencdm_session_remove sample_cdm (Some 5) = Some (s', ERROR_NONE)
     \<and> sessions s' 5 \<noteq> None \<and> keys (the (sessions s' 5)) = Map.empty"
proof -
  have "sessions sample_cdm 5 = Some sample_session" by (simp add: sample_cdm_def)
  from session_remove_clears [OF this] show ?thesis by auto
qed

section \<open>The license request\<close>

lemma append_kids_join:
  "append_kids i r kids =
     r @ (if i > 0 \<and> kids \<noteq> [] then '','' else []) @ join_quoted (map base64UrlEncode kids)"
proof (induction kids arbitrary: i r)
  case (Cons kid kids)
  show ?case unfolding append_kids.simps(2) Cons.IH by (cases kids) (simp_all add: quoted_def)
qed simp

lemma license_request_text:
  "license_request kids = ''{'' @ quoted ''kids'' @ '':['' @ join_quoted (map base64UrlEncode kids)
     @ CHR '']'' # '','' @ quoted ''type'' @ '':'' @ quoted ''temporary'' @ ''}''"
  by (simp add: license_request_def append_kids_join quoted_def)

text \<open>The field scanner on a text that continues behind the array.\<close>

lemma scan_request:
  assumes "''kids'' \<notin> base64UrlEncode ` set kids"
  shows "jsonStringValues (license_request kids) ''kids'' = map base64UrlEncode kids"
proof -
  let ?t = "'','' @ quoted ''type'' @ '':'' @ quoted ''temporary'' @ ''}''" and ?vs = "map base64UrlEncode kids"
  have "scan_text (json_needle ''kids'') ?t = []"
    by (simp add: quoted_def json_needle_def scan_text_step scan_text.simps [of _ "[]"] after_sub_def)
  then have "scan_text (json_needle ''kids'') (join_quoted ?vs @ CHR '']'' # ?t) = []"
    using assms scan_past_members [of ?vs "''kids''" ?t] by auto
  then show ?thesis
    using scan_array_field [of ?vs "''{''" "''kids''" ?t] by (simp add: scan_is_text license_request_text)
qed

fun request_chars :: "bytes list \<Rightarrow> nat" where
  "request_chars [] = 0"
| "request_chars [kid] = (4 * length kid + 2) div 3 + 2"
| "request_chars (kid # kid' # kids) = (4 * length kid + 2) div 3 + 3 + request_chars (kid' # kids)"

lemma length_join_encode: "length (join_quoted (map base64UrlEncode kids)) = request_chars kids"
  by (induction kids rule: request_chars.induct) (simp_all add: quoted_def length_encode)

lemma length_license_request: "length (license_request kids) = request_chars kids + 30"
  by (simp add: license_request_text length_join_encode quoted_def)

text \<open>A license server that reads the request with the same scanner gets back exactly the
  requested key ids, as long as no id happens to be spelled \<open>kids\<close> in base64url.\<close>

lemma license_request_roundtrip:
  assumes "''kids'' \<notin> base64UrlEncode ` set kids" "\<forall>kid\<in>set kids. kid \<noteq> []"
  shows "collect_kids (jsonStringValues (license_request kids) ''kids'') = kids"
  using scan_request [OF assms(1)] collect_kids_encode [OF assms(2)] by (simp only:)

lemma license_request_roundtrip_witness:
  "collect_kids (jsonStringValues (license_request [[1], [2, 3]]) ''kids'') = [[1], [2, 3]]"
proof -
  have "length (base64UrlEncode [1]) \<noteq> 4" "length (base64UrlEncode [2, 3]) \<noteq> 4" by (simp_all add: length_encode)
  then have "''kids'' \<notin> base64UrlEncode ` set [[1], [2, 3]]" by auto
  from license_request_roundtrip [OF this] show ?thesis by simp
qed

text \<open>The length handed to the challenge callback is the request's length modulo 65536, and
  the init data the interface admits can make the request longer than that: for one key id
  of 49140 bytes the init data is accepted, the request has 65552 characters, and the
  callback is told 16.\<close>

lemma challenge_length_truncated:
  fixes kid :: bytes
  assumes "length kid = 49140"
  shows "length (keyids_init [kid]) < 65536 \<and> length (license_request [kid]) = 65552
    \<and> challenge_event a ud [kid] = ProcessChallenge a ud '''' (bytes_of_string (license_request [kid])) 16
    \<and> opencdm_construct_session s (Some sys) (Some ''keyids'') (Some (keyids_init [kid]))
        (word_of_nat (length (keyids_init [kid]))) cbs ud (Some cell) (Some a)
      = Some (construct_ok s a cbs ud [kid], Some (Some a), ERROR_NONE)"
proof (intro conjI)
  have "kid \<noteq> []" using assms by auto
  show short: "length (keyids_init [kid]) < 65536"
    using assms by (simp add: keyids_init_def kids_json_def quoted_def length_encode)
  show long: "length (license_request [kid]) = 65552"
    using assms by (simp add: length_license_request)
  show "challenge_event a ud [kid] = ProcessChallenge a ud '''' (bytes_of_string (license_request [kid])) 16"
    unfolding challenge_event_def long by simp
  show "opencdm_construct_session s (Some sys) (Some ''keyids'') (Some (keyids_init [kid]))
        (word_of_nat (length (keyids_init [kid]))) cbs ud (Some cell) (Some a)
      = Some (construct_ok s a cbs ud [kid], Some (Some a), ERROR_NONE)"
  proof (rule construct_result)
    show "collect_kids (jsonStringValues (string_of_bytes (keyids_init [kid])) ''kids'') = [kid]"
      unfolding scan_keyids using \<open>kid \<noteq> []\<close> by (intro collect_kids_encode) simp
  qed (use short in simp_all)
qed

lemma challenge_length_truncated_witness:
  "length (license_request [replicate 49140 (0 :: u8)]) = 65552"
  using challenge_length_truncated [of "replicate 49140 0"] by simp

section \<open>The system surface\<close>

text \<open>The capability surface is consistent: a system can be created, when memory allows,
  exactly for the key systems reported supported, which is ClearKey alone; its version is a
  terminated, non-empty string in the caller's 64-byte buffer, and it claims neither a server
  certificate nor any robustness level nor metrics.\<close>

lemma capability_surface:
  "(snd (opencdm_create_system s ksys (Some a)) = Some a \<longleftrightarrow> opencdm_is_type_supported ksys mime = ERROR_NONE)
   \<and> (opencdm_is_type_supported ksys mime = ERROR_NONE \<longleftrightarrow> ksys = Some ''org.w3.clearkey'')
   \<and> (snd (opencdm_create_system s ksys None) = None)
   \<and> (length buf = 64 \<longrightarrow> (\<exists>v. opencdm_system_get_version (Some h) (Some buf) = Some (Some v, ERROR_NONE)
         \<and> length v = 64 \<and> takeWhile (\<lambda>c. c \<noteq> CHR 0x00) v = ''ClearKey-1.0''))
   \<and> \<not> opencdm_system_supports_server_certificate (Some h)
   \<and> opencdm_system_supported_robustness (Some h) (Some r) (Some n) = (Some None, Some 0, ERROR_NONE)
   \<and> opencdm_get_metric_system_data (Some h) (Some k) b = (Some 0, ERROR_NONE)"
proof -
  have v: "opencdm_system_get_version (Some h) (Some buf)
      = Some (Some ((strncpy buf kClearKeyVersion 63)[63 := CHR 0x00]), ERROR_NONE)"
    if "length buf = 64" using that by (simp add: opencdm_system_get_version_def)
  have "length ((strncpy buf kClearKeyVersion 63)[63 := CHR 0x00]) = 64
      \<and> takeWhile (\<lambda>c. c \<noteq> CHR 0x00) ((strncpy buf kClearKeyVersion 63)[63 := CHR 0x00]) = ''ClearKey-1.0''"
    if "length buf = 64"
  proof -
    have "length (drop 63 buf) = Suc 0" using that by simp
    then obtain c where "drop 63 buf = [c]" unfolding length_Suc_conv by blast
    then show ?thesis
      by (simp add: strncpy_def kClearKeyVersion_def list_update_append1 numeral_eq_Suc list_update_append)
  qed
  with v show ?thesis
    by (auto simp: opencdm_create_system_def opencdm_is_type_supported_def isClearKeySystem_def
        kClearKeySystem_def opencdm_system_supports_server_certificate_def
        opencdm_system_supported_robustness_def opencdm_get_metric_system_data_def)
qed

lemma capability_surface_witness:
  "\<exists>v. opencdm_system_get_version (Some 1) (Some (replicate 64 CHR ''x'')) = Some (Some v, ERROR_NONE)
     \<and> takeWhile (\<lambda>c. c \<noteq> CHR 0x00) v = ''ClearKey-1.0''"
  using capability_surface [of sample_cdm None 1 None "replicate 64 CHR ''x''" 1 None 0 0 None]
  by (metis length_replicate)

section \<open>A spurious key id\<close>

text \<open>The scanner does not skip a value it has already taken, so a key id spelled like the
  field name, followed by another field, is read as a second occurrence of the field: from
  init data that lists the one key id \<open>kids\<close> (three bytes) a session is constructed that
  requests two ids, the second being the decoded text \<open>temporary\<close> of the \<open>type\<close> field.\<close>

lemma spurious_key_id:
  "collect_kids (jsonStringValues (license_request [[0x92, 0x27, 0x6C]]) ''kids'')
     = [[0x92, 0x27, 0x6C], snd (base64UrlDecode ''temporary'')]"
proof -
  have "base64UrlEncode [0x92, 0x27, 0x6C] = ''kids''" by code_simp
  moreover have "base64UrlDecode ''kids'' = (True, [0x92, 0x27, 0x6C])" by code_simp
  moreover have "fst (base64UrlDecode ''temporary'')" "snd (base64UrlDecode ''temporary'') \<noteq> []" by code_simp+
  moreover have "jsonStringValues (license_request [[0x92, 0x27, 0x6C]]) ''kids'' = [''kids'', ''temporary'']"
    unfolding license_request_text scan_is_text
    by (simp add: \<open>base64UrlEncode [0x92, 0x27, 0x6C] = ''kids''\<close>) code_simp
  ultimately show ?thesis by (cases "base64UrlDecode ''temporary''") simp
qed

section \<open>Reachable states\<close>

datatype cdm_call =
    CreateSystem "string option" "addr option"
  | DestructSystem "addr option"
  | ConstructSession "addr option" "string option" "bytes option" u16 "OpenCDMSessionCallbacks option" nat
      "addr option option" "addr option"
  | DestructSession "addr option"
  | SessionLoad "addr option"
  | SessionUpdate "addr option" "bytes option" u16
  | SessionRemove "addr option"
  | SessionClose "addr option"
  | SetDrmHeader "addr option" "bytes option" u32

text \<open>A call on the state, with the error it returns (\<open>create_system\<close> returns a handle
  instead, \<open>None\<close> here).\<close>

fun exec :: "cdm \<Rightarrow> cdm_call \<Rightarrow> (cdm \<times> OpenCDMError option) option" where
  "exec s (CreateSystem ks alloc) = Some (fst (opencdm_create_system s ks alloc), None)"
| "exec s (DestructSystem h) = map_option (apsnd Some) (opencdm_destruct_system s h)"
| "exec s (ConstructSession sys ty d n cbs ud cell alloc) =
     map_option (\<lambda>(s', _, e). (s', Some e)) (opencdm_construct_session s sys ty d n cbs ud cell alloc)"
| "exec s (DestructSession h) = map_option (apsnd Some) (opencdm_destruct_session s h)"
| "exec s (SessionLoad h) = map_option (apsnd Some) (opencdm_session_load s h)"
| "exec s (SessionUpdate h m n) = map_option (apsnd Some) (opencdm_session_update s h m n)"
| "exec s (SessionRemove h) = map_option (apsnd Some) (opencdm_session_remove s h)"
| "exec s (SessionClose h) = map_option (apsnd Some) (opencdm_session_close s h)"
| "exec s (SetDrmHeader h d n) = map_option (apsnd Some) (opencdm_session_set_drm_header s h d n)"

text \<open>\<open>operator new\<close> returns memory no live object occupies.\<close>

fun fresh :: "cdm \<Rightarrow> cdm_call \<Rightarrow> bool" where
  "fresh s (CreateSystem _ (Some a)) = (systems s a = None)"
| "fresh s (ConstructSession _ _ _ _ _ _ _ (Some a)) = (sessions s a = None)"
| "fresh s _ = True"

definition constructs :: "cdm_call \<Rightarrow> OpenCDMError option \<Rightarrow> nat" where
  "constructs c e = (case c of ConstructSession _ _ _ _ _ _ _ _ \<Rightarrow> if e = Some ERROR_NONE then 1 else 0 | _ \<Rightarrow> 0)"

text \<open>The states after any calls with a defined outcome, with the number of sessions
  constructed on the way.\<close>

inductive cdm_reach :: "nat \<Rightarrow> cdm \<Rightarrow> bool" where
  start: "cdm_reach 0 \<lparr>systems = Map.empty, sessions = Map.empty, sessionCounter = 0, events = []\<rparr>"
| step: "cdm_reach n s \<Longrightarrow> fresh s c \<Longrightarrow> exec s c = Some (s', e) \<Longrightarrow> cdm_reach (n + constructs c e) s'"

inductive_cases cdm_reachE: "cdm_reach n s"

fun_cases execE: "exec s c = Some r"

text \<open>How a defined call changes the sessions: not at all, or one of the five transitions.\<close>

definition store_change :: "OpenCDMSession \<Rightarrow> OpenCDMSession \<Rightarrow> bool" where
  "store_change x x' \<longleftrightarrow>
     (\<exists>good. (\<forall>(kid, key)\<in>set good. kid \<noteq> [] \<and> key \<noteq> []) \<and> \<not> closed x \<and> x' = store.put_all x good)
     \<or> x' = x\<lparr>keys := Map.empty\<rparr> \<or> x' = x\<lparr>closed := True\<rparr>"

lemma update_change:
  assumes "opencdm_session_update s h m n = Some (s', e)"
  shows "(sessions s' = sessions s \<or> (\<exists>a x x'. h = Some a \<and> sessions s a = Some x
            \<and> sessions s' = (sessions s)(a \<mapsto> x') \<and> store_change x x'))
       \<and> sessionCounter s' = sessionCounter s"
proof (cases "\<exists>a x b. h = Some a \<and> sessions s a = Some x \<and> \<not> closed x \<and> m \<noteq> None \<and> n \<noteq> 0 \<and> read_buffer m (unat n) = Some b")
  case True
  then obtain a x b where h: "h = Some a" "sessions s a = Some x" "\<not> closed x" "m \<noteq> None" "n \<noteq> 0"
    "read_buffer m (unat n) = Some b" by auto
  define good where "good = good_prefix (zip (jsonStringValues (string_of_bytes b) ''kid'') (jsonStringValues (string_of_bytes b) ''k''))"
  have "store_change x (store.put_all x good)"
    using h(3) good_prefix_nonempty unfolding store_change_def good_def by blast
  then show ?thesis
    using assms update_result [OF h(2,3,5,4,6)] h(1,2) unfolding good_def
    by (auto split: if_splits)
next
  case False
  then show ?thesis
    using assms by (auto simp: opencdm_session_update_def split: option.splits if_splits)
qed

lemma remove_change:
  assumes "opencdm_session_remove s h = Some (s', e)"
  shows "s' = s \<or> (\<exists>a x. sessions s a = Some x \<and> s' = s\<lparr>sessions := (sessions s)(a \<mapsto> x\<lparr>keys := Map.empty\<rparr>)\<rparr>)"
  using assms by (auto simp: session_ops split: option.splits)

lemma close_change:
  assumes "opencdm_session_close s h = Some (s', e)"
  shows "s' = s \<or> (\<exists>a x. sessions s a = Some x \<and> s' = s\<lparr>sessions := (sessions s)(a \<mapsto> x\<lparr>closed := True\<rparr>)\<rparr>)"
  using assms by (auto simp: session_ops split: option.splits)

lemma exec_change:
  assumes "exec s c = Some (s', e)"
  shows "(sessions s' = sessions s \<and> constructs c e = 0 \<and> sessionCounter s' = sessionCounter s)
    \<or> (\<exists>a x x'. sessions s a = Some x \<and> sessions s' = (sessions s)(a \<mapsto> x') \<and> store_change x x'
         \<and> constructs c e = 0 \<and> sessionCounter s' = sessionCounter s)
    \<or> (\<exists>a. sessions s a \<noteq> None \<and> sessions s' = (sessions s)(a := None)
         \<and> constructs c e = 0 \<and> sessionCounter s' = sessionCounter s)
    \<or> (\<exists>a cbs ud kids. (fresh s c \<longrightarrow> sessions s a = None) \<and> constructs c e = 1
         \<and> kids \<noteq> [] \<and> [] \<notin> set kids
         \<and> sessions s' = sessions (construct_ok s a cbs ud kids) \<and> sessionCounter s' = sessionCounter s + 1)"
proof (cases c)
  case (ConstructSession sys ty d n cbs ud cell alloc)
  with assms obtain cell' e' where
    r: "opencdm_construct_session s sys ty d n cbs ud cell alloc = Some (s', cell', e')" "e = Some e'"
    by auto
  show ?thesis
  proof (cases "e' = ERROR_NONE")
    case False
    then show ?thesis
      using r ConstructSession
      by (auto simp: opencdm_construct_session_def Let_def constructs_def split: option.splits if_splits)
  next
    case True
    with r(1) obtain a b where ab: "alloc = Some a" "read_buffer d (unat n) = Some b"
      "collect_kids (jsonStringValues (string_of_bytes b) ''kids'') \<noteq> []"
      "ty = Some ''keyids''" "sys \<noteq> None" "cell \<noteq> None"
      by (auto simp: opencdm_construct_session_def Let_def split: option.splits if_splits)
    let ?kids = "collect_kids (jsonStringValues (string_of_bytes b) ''kids'')"
    have "s' = construct_ok s a cbs ud ?kids"
      using r(1) ab construct_result [OF ab(2) refl ab(3), of s _ cbs ud _ a] by auto
    moreover have "[] \<notin> set ?kids" using collect_kids_nonempty by blast
    moreover have "constructs c e = 1" using True r(2) ConstructSession by (simp add: constructs_def)
    moreover have "fresh s c \<longrightarrow> sessions s a = None" using ConstructSession ab(1) by simp
    moreover have "sessionCounter (construct_ok s a cbs ud ?kids) = sessionCounter s + 1"
      by (simp add: construct_ok_def)
    ultimately show ?thesis using ab(3) by blast
  qed
next
  case (SessionUpdate h m n)
  with assms obtain e' where "opencdm_session_update s h m n = Some (s', e')" by auto
  from update_change [OF this] SessionUpdate show ?thesis by (auto simp: constructs_def)
next
  case (CreateSystem ks alloc)
  then show ?thesis
    using assms by (auto simp: opencdm_create_system_def constructs_def split: option.splits if_splits)
next
  case (DestructSystem h)
  then show ?thesis
    using assms by (auto simp: opencdm_destruct_system_def constructs_def split: option.splits if_splits)
next
  case (SessionRemove h)
  with assms obtain e' where "opencdm_session_remove s h = Some (s', e')" by auto
  from remove_change [OF this]
  consider "s' = s" | a x where "sessions s a = Some x" "s' = s\<lparr>sessions := (sessions s)(a \<mapsto> x\<lparr>keys := Map.empty\<rparr>)\<rparr>"
    by blast
  then show ?thesis
  proof cases
    case 2
    have "store_change x (x\<lparr>keys := Map.empty\<rparr>)" by (simp add: store_change_def)
    moreover have "sessions s' = (sessions s)(a \<mapsto> x\<lparr>keys := Map.empty\<rparr>)" "sessionCounter s' = sessionCounter s"
      "constructs c e = 0" using 2 SessionRemove by (simp_all add: constructs_def)
    ultimately show ?thesis using 2(1) by blast
  qed (use SessionRemove in \<open>simp add: constructs_def\<close>)
next
  case (SessionClose h)
  with assms obtain e' where "opencdm_session_close s h = Some (s', e')" by auto
  from close_change [OF this]
  consider "s' = s" | a x where "sessions s a = Some x" "s' = s\<lparr>sessions := (sessions s)(a \<mapsto> x\<lparr>closed := True\<rparr>)\<rparr>"
    by blast
  then show ?thesis
  proof cases
    case 2
    have "store_change x (x\<lparr>closed := True\<rparr>)" by (simp add: store_change_def)
    moreover have "sessions s' = (sessions s)(a \<mapsto> x\<lparr>closed := True\<rparr>)" "sessionCounter s' = sessionCounter s"
      "constructs c e = 0" using 2 SessionClose by (simp_all add: constructs_def)
    ultimately show ?thesis using 2(1) by blast
  qed (use SessionClose in \<open>simp add: constructs_def\<close>)
next
  case (DestructSession h)
  then show ?thesis
    using assms by (auto simp: session_ops constructs_def split: option.splits if_splits)
qed (use assms in \<open>auto simp: session_ops constructs_def\<close>)

definition wf_session :: "OpenCDMSession \<Rightarrow> bool" where
  "wf_session x \<longleftrightarrow> requestedKeyIds x \<noteq> [] \<and> [] \<notin> set (requestedKeyIds x)
     \<and> (\<forall>kid key. keys x kid = Some key \<longrightarrow> kid \<noteq> [] \<and> key \<noteq> [])"

lemma wf_put_all:
  "wf_session x \<Longrightarrow> \<forall>(kid, key)\<in>set good. kid \<noteq> [] \<and> key \<noteq> [] \<Longrightarrow> wf_session (store.put_all x good)"
proof (induction good arbitrary: x)
  case (Cons p good)
  obtain kid key where p: "p = (kid, key)" by (cases p)
  have "wf_session (put_key x kid key)"
    using Cons.prems p by (auto simp: wf_session_def put_key_def)
  with Cons p show ?case by simp
qed simp

lemma wf_store_change: "store_change x x' \<Longrightarrow> wf_session x \<Longrightarrow> wf_session x'"
  unfolding store_change_def
proof (elim disjE exE conjE)
  fix good assume "wf_session x" "\<forall>(kid, key)\<in>set good. kid \<noteq> [] \<and> key \<noteq> []" "x' = store.put_all x good"
  then show "wf_session x'" by (simp only: wf_put_all)
qed (simp_all add: wf_session_def)

lemma store_change_id: "store_change x x' \<Longrightarrow> sessionId x' = sessionId x"
  by (auto simp: store_change_def)

lemma exec_cases [consumes 1, case_names keep change drop open']:
  assumes "exec s c = Some (s', e)"
  obtains "sessions s' = sessions s" "constructs c e = 0" "sessionCounter s' = sessionCounter s"
  | a x x' where "sessions s a = Some x" "sessions s' = (sessions s)(a \<mapsto> x')" "store_change x x'"
      "constructs c e = 0" "sessionCounter s' = sessionCounter s"
  | a where "sessions s a \<noteq> None" "sessions s' = (sessions s)(a := None)"
      "constructs c e = 0" "sessionCounter s' = sessionCounter s"
  | a cbs ud kids where "fresh s c \<longrightarrow> sessions s a = None" "constructs c e = 1" "kids \<noteq> []" "[] \<notin> set kids"
      "sessions s' = sessions (construct_ok s a cbs ud kids)" "sessionCounter s' = sessionCounter s + 1"
proof -
  from exec_change [OF assms] show thesis
  proof (elim disjE, goal_cases)
    case 1
    then show ?case using that(1) by simp
  next
    case 2
    then show ?case using that(2) by (elim exE conjE)
  next
    case 3
    then show ?case using that(3) by (elim exE conjE)
  next
    case 4
    then show ?case using that(4) by (elim exE conjE)
  qed
qed

text \<open>C17: In every reachable state each live session has a non-empty list of requested key ids,
  none of them empty, and stores no empty key id and no empty key.\<close>

theorem reachable_sessions_well_formed:
  assumes "cdm_reach n s" "sessions s a = Some x"
  shows "wf_session x"
proof -
  have "\<forall>a x. sessions s a = Some x \<longrightarrow> wf_session x"
    using assms(1)
  proof (induction rule: cdm_reach.induct)
    case (step n s c s' e)
    from step(3) show ?case
    proof (cases rule: exec_cases)
      case (change b y y')
      with step show ?thesis using wf_store_change by auto
    next
      case (open' b cbs ud kids)
      with step show ?thesis by (auto simp: construct_ok_def wf_session_def)
    qed (use step in auto)
  qed simp
  with assms(2) show ?thesis by blast
qed

lemma cdm_reach_create: "cdm_reach n s \<Longrightarrow> fresh s c \<Longrightarrow> exec s c = Some (s', e) \<Longrightarrow>
    m = n + constructs c e \<Longrightarrow> cdm_reach m s'"
  by (auto intro: cdm_reach.step)

definition empty_cdm :: cdm where
  "empty_cdm = \<lparr>systems = Map.empty, sessions = Map.empty, sessionCounter = 0, events = []\<rparr>"

lemma reach_sample: "cdm_reach 1 (construct_ok empty_cdm 5 None 0 [[1]])"
proof (rule cdm_reach_create)
  show "cdm_reach 0 empty_cdm" unfolding empty_cdm_def by (rule cdm_reach.start)
  let ?c = "ConstructSession (Some 1) (Some ''keyids'') (Some (keyids_init [[1]])) (word_of_nat (length (keyids_init [[1]])))
     None 0 (Some None) (Some 5)"
  show "fresh empty_cdm ?c" by (simp add: empty_cdm_def)
  have l: "length (keyids_init [[1]]) < 65536"
    by (simp add: keyids_init_def kids_json_def quoted_def length_encode)
  have "opencdm_construct_session empty_cdm (Some 1) (Some ''keyids'') (Some (keyids_init [[1]]))
      (word_of_nat (length (keyids_init [[1]]))) None 0 (Some None) (Some 5)
    = Some (construct_ok empty_cdm 5 None 0 [[1]], Some (Some 5), ERROR_NONE)"
  proof (rule construct_result)
    show "collect_kids (jsonStringValues (string_of_bytes (keyids_init [[1]])) ''kids'') = [[1]]"
      unfolding scan_keyids by (rule collect_kids_encode) simp
  qed (use l in simp_all)
  then show "exec empty_cdm ?c = Some (construct_ok empty_cdm 5 None 0 [[1]], Some ERROR_NONE)" by simp
qed (simp add: constructs_def)

theorem reachable_sessions_well_formed_witness:
  "wf_session (the (sessions (construct_ok empty_cdm 5 None 0 [[1]]) 5))"
  by (rule reachable_sessions_well_formed [OF reach_sample, of 5]) (simp add: construct_ok_def)

definition session_name :: "nat \<Rightarrow> string" where
  "session_name i = ''clearkey-session-'' @ to_dec i"

definition named_upto :: "nat \<Rightarrow> cdm \<Rightarrow> bool" where
  "named_upto n s \<longleftrightarrow> (\<forall>a x. sessions s a = Some x \<longrightarrow> (\<exists>i\<le>n. sessionId x = session_name i))"

definition names_distinct :: "cdm \<Rightarrow> bool" where
  "names_distinct s \<longleftrightarrow>
     (\<forall>a b x y. sessions s a = Some x \<longrightarrow> sessions s b = Some y \<longrightarrow> a \<noteq> b \<longrightarrow> sessionId x \<noteq> sessionId y)"

lemma session_name_inj: "session_name i = session_name j \<longleftrightarrow> i = j"
  by (simp add: session_name_def to_dec_inj)

lemma named_insert:
  assumes "named_upto n s" "names_distinct s" "sessions s' = (sessions s)(d \<mapsto> z)"
    and "sessionId z = session_name (Suc n)"
  shows "named_upto (Suc n) s' \<and> names_distinct s'"
proof
  show "named_upto (Suc n) s'"
    unfolding named_upto_def
  proof (intro allI impI)
    fix a x assume "sessions s' a = Some x"
    then show "\<exists>i\<le>Suc n. sessionId x = session_name i"
    proof (cases "a = d")
      case False
      with assms \<open>sessions s' a = Some x\<close> obtain i where "i \<le> n" "sessionId x = session_name i"
        by (auto simp: named_upto_def)
      then show ?thesis using le_SucI by blast
    qed (use assms \<open>sessions s' a = Some x\<close> in auto)
  qed
  have new: "sessionId x \<noteq> session_name (Suc n)" if live: "sessions s a = Some x" for a x
  proof -
    obtain i where "i \<le> n" "sessionId x = session_name i"
      using assms(1) live unfolding named_upto_def by blast
    then show ?thesis by (simp add: session_name_inj)
  qed
  then show "names_distinct s'"
    using assms(2-) new unfolding names_distinct_def by (simp split: if_splits) metis
qed

text \<open>No two live sessions share a session id, as long as fewer than \<open>2^32\<close> sessions were
  ever constructed (the counter is 32 bits wide and wraps).\<close>

lemma session_ids_distinct:
  assumes "cdm_reach n s" "n < 2 ^ 32"
    and "sessions s a = Some x" "sessions s b = Some y" "a \<noteq> b"
  shows "sessionId x \<noteq> sessionId y"
proof -
  have "n < 2 ^ 32 \<longrightarrow> unat (sessionCounter s) = n \<and> named_upto n s \<and> names_distinct s"
    using assms(1)
  proof (induction rule: cdm_reach.induct)
    case (step n s c s' e)
    from step(3) show ?case
    proof (cases rule: exec_cases)
      case (change d z z')
      then have "\<exists>x. sessions s a = Some x \<and> sessionId x = sessionId y" if "sessions s' a = Some y" for a y
        using that store_change_id [of z z'] by (cases "a = d") auto
      then have "named_upto n s \<Longrightarrow> named_upto n s'" "names_distinct s \<Longrightarrow> names_distinct s'"
        unfolding named_upto_def names_distinct_def by metis+
      with step.IH change show ?thesis by simp
    next
      case (open' d cbs ud kids)
      show ?thesis
      proof
        assume lt: "n + constructs c e < 2 ^ 32"
        with open' have n: "Suc n < 2 ^ 32" by simp
        with step.IH have IH: "unat (sessionCounter s) = n" "named_upto n s" "names_distinct s" by auto
        have cnt: "unat (sessionCounter s + 1) = Suc n"
          using n IH(1) by (simp add: unat_word_ariths)
        obtain z where z: "sessions s' = (sessions s)(d \<mapsto> z)" "sessionId z = session_name (Suc n)"
          using open'(5) cnt by (simp add: construct_ok_def session_name_def)
        show "unat (sessionCounter s') = n + constructs c e \<and> named_upto (n + constructs c e) s' \<and> names_distinct s'"
          using named_insert [OF IH(2,3) z] open'(2,6) cnt by simp
      qed
    qed (use step.IH in \<open>auto simp: named_upto_def names_distinct_def\<close>)
  qed (simp add: named_upto_def names_distinct_def)
  with assms(2-) show ?thesis unfolding names_distinct_def by blast
qed

lemma session_ids_distinct_witness:
  "\<exists>(s :: cdm) x y. sessions s 5 = Some x \<and> sessions s 6 = Some y \<and> sessionId x \<noteq> sessionId y"
proof -
  let ?s1 = "construct_ok empty_cdm 5 None 0 [[1]]"
  let ?s2 = "construct_ok ?s1 6 None 0 [[1]]"
  let ?c = "ConstructSession (Some 1) (Some ''keyids'') (Some (keyids_init [[1]])) (word_of_nat (length (keyids_init [[1]])))
     None 0 (Some None) (Some 6)"
  have l: "length (keyids_init [[1]]) < 65536"
    by (simp add: keyids_init_def kids_json_def quoted_def length_encode)
  have "opencdm_construct_session ?s1 (Some 1) (Some ''keyids'') (Some (keyids_init [[1]]))
      (word_of_nat (length (keyids_init [[1]]))) None 0 (Some None) (Some 6) = Some (?s2, Some (Some 6), ERROR_NONE)"
  proof (rule construct_result)
    show "collect_kids (jsonStringValues (string_of_bytes (keyids_init [[1]])) ''kids'') = [[1]]"
      unfolding scan_keyids by (rule collect_kids_encode) simp
  qed (use l in simp_all)
  then have "exec ?s1 ?c = Some (?s2, Some ERROR_NONE)" by simp
  then have "cdm_reach 2 ?s2"
    by (intro cdm_reach_create [OF reach_sample, of ?c]) (simp_all add: construct_ok_def empty_cdm_def constructs_def)
  moreover obtain x y where "sessions ?s2 5 = Some x" "sessions ?s2 6 = Some y" by (simp add: construct_ok_def)
  ultimately have "sessionId x \<noteq> sessionId y" by (intro session_ids_distinct [of 2 ?s2 5 x 6 y]) simp_all
  with \<open>sessions ?s2 5 = Some x\<close> \<open>sessions ?s2 6 = Some y\<close> show ?thesis
    by (intro exI [of _ ?s2] exI [of _ x] exI [of _ y] conjI)
qed

section \<open>Refinement of the EME session\<close>

text \<open>
  What the W3C interface promises of a session, without its representation: the set of its
  usable key ids and whether it is open.  A license only adds ids, and only to an open
  session; removal empties the set; nothing reopens a session.
\<close>

type_synonym eme = "addr \<rightharpoonup> bytes set \<times> bool"

inductive eme_step :: "eme \<Rightarrow> eme \<Rightarrow> bool" where
  stutter: "eme_step E E"
| opened: "E a = None \<Longrightarrow> eme_step E (E(a \<mapsto> ({}, True)))"
| licensed: "E a = Some (U, True) \<Longrightarrow> finite K \<Longrightarrow> [] \<notin> K \<Longrightarrow> eme_step E (E(a \<mapsto> (U \<union> K, True)))"
| removed: "E a = Some (U, b) \<Longrightarrow> eme_step E (E(a \<mapsto> ({}, b)))"
| shut: "E a = Some (U, b) \<Longrightarrow> eme_step E (E(a \<mapsto> (U, False)))"
| destroyed: "E a = Some p \<Longrightarrow> eme_step E (E(a := None))"

inductive_cases eme_stepE: "eme_step E E'"

definition abs_session :: "OpenCDMSession \<Rightarrow> bytes set \<times> bool" where
  "abs_session x = (dom (keys x), \<not> closed x)"

definition abs_cdm :: "cdm \<Rightarrow> eme" where
  "abs_cdm s = (\<lambda>a. map_option abs_session (sessions s a))"

lemma dom_put_all: "dom (keys (store.put_all x ps)) = dom (keys x) \<union> fst ` set ps"
proof -
  have "keys (store.put_all x ps) k \<noteq> None \<longleftrightarrow> k \<in> fst ` set ps \<or> keys x k \<noteq> None" for k
    using has_put_all_keys [of x ps k] by (simp add: has_key_def)
  then show ?thesis by (auto simp: dom_def)
qed

lemma abs_upd: "sessions s' = (sessions s)(a \<mapsto> x') \<Longrightarrow> abs_cdm s' = (abs_cdm s)(a \<mapsto> abs_session x')"
  by (auto simp: abs_cdm_def)



text \<open>C18: An entry point that reports an error has no effect on the state at all, the one
  exception being the failing update of a live session, which may have stored keys but made
  no call back.\<close>

theorem errors_have_no_effect:
  assumes "exec s c = Some (s', Some e)" "e \<noteq> ERROR_NONE"
  shows "s' = s \<or> (\<exists>h m n a x x'. c = SessionUpdate h m n \<and> e = ERROR_FAIL \<and> events s' = events s
           \<and> s' = s\<lparr>sessions := (sessions s)(a \<mapsto> x')\<rparr> \<and> sessions s a = Some x \<and> \<not> closed x \<and> dom (keys x) \<subseteq> dom (keys x'))"
proof (cases c)
  case (SessionUpdate h m n)
  with assms have u: "opencdm_session_update s h m n = Some (s', e)" by auto
  show ?thesis
  proof (cases "\<exists>a x b. h = Some a \<and> sessions s a = Some x \<and> \<not> closed x \<and> m \<noteq> None \<and> n \<noteq> 0 \<and> read_buffer m (unat n) = Some b")
    case True
    then obtain a x b where h: "h = Some a" "sessions s a = Some x" "\<not> closed x" "m \<noteq> None" "n \<noteq> 0"
      "read_buffer m (unat n) = Some b" by auto
    have "s' = s \<or> (e = ERROR_FAIL \<and> (\<exists>good. s' = s\<lparr>sessions := (sessions s)(a \<mapsto> store.put_all x good)\<rparr>))"
      using u assms(2) update_result [OF h(2,3,5,4,6)] h(1) by (auto split: if_splits)
    moreover have "dom (keys x) \<subseteq> dom (keys (store.put_all x good))" for good
      by (simp add: dom_put_all)
    ultimately have "s' = s \<or> (e = ERROR_FAIL \<and> (\<exists>x'. s' = s\<lparr>sessions := (sessions s)(a \<mapsto> x')\<rparr>
        \<and> dom (keys x) \<subseteq> dom (keys x')))" by blast
    moreover have "events (s\<lparr>sessions := (sessions s)(a \<mapsto> x')\<rparr>) = events s" for x' by simp
    ultimately show ?thesis using h(2,3) SessionUpdate by blast
  next
    case False
    then show ?thesis
      using u by (auto simp: opencdm_session_update_def split: option.splits if_splits)
  qed
next
  case (ConstructSession sys ty d n cbs ud cell alloc)
  with assms obtain cell' where "opencdm_construct_session s sys ty d n cbs ud cell alloc = Some (s', cell', e)" by auto
  with assms(2) show ?thesis by (auto simp: opencdm_construct_session_def Let_def split: option.splits if_splits)
next
  case (DestructSystem h)
  then show ?thesis
    using assms by (auto simp: opencdm_destruct_system_def split: option.splits if_splits)
qed (use assms in \<open>auto simp: session_ops split: option.splits if_splits\<close>)

theorem errors_have_no_effect_witness:
  "exec sample_cdm (SessionUpdate (Some 5) None 3) = Some (sample_cdm, Some ERROR_INVALID_ARG)"
proof -
  have e: "exec sample_cdm (SessionUpdate (Some 5) None 3) = Some (fst (the (exec sample_cdm (SessionUpdate (Some 5) None 3))), Some ERROR_INVALID_ARG)"
    by (simp add: opencdm_session_update_def)
  from errors_have_no_effect [OF e] show ?thesis using e by auto
qed

end
