(* ===== verification/Sim_Control.thy ===== *)
theory Sim_Control
  imports Conf_Prelude
begin

text \<open>
  The client of the simulated server manager, \<open>src/common/SimControl.cpp\<close> with
  \<open>include/conformance/SimControl.h\<close>: one blocking HTTP/1.0 exchange over a socket, the body
  of its reply, and the two requests built on it.  The socket library is a parameter, the
  record \<open>network\<close>; a call that never returns (the peer never closes) is \<open>None\<close>.
\<close>

section \<open>The exchange\<close>

text \<open>
  \<open>resolve host port\<close> is the address list of \<open>getaddrinfo\<close>, \<open>None\<close> when it fails;
  \<open>socket_of a\<close> the descriptor \<open>socket\<close> returns for an address (-1 on error) and
  \<open>connects a\<close> whether \<open>connect\<close> returns 0; \<open>send_result i n\<close> the value of the \<open>i\<close>-th
  \<open>send\<close>, asked for \<open>n\<close> bytes; \<open>recv_chunk i\<close> the bytes of the \<open>i\<close>-th \<open>recv\<close>, empty where
  it returns 0 or an error.
\<close>

record network =
  resolve :: "string \<Rightarrow> string \<Rightarrow> nat list option"
  socket_of :: "nat \<Rightarrow> int"
  connects :: "nat \<Rightarrow> bool"
  send_result :: "nat \<Rightarrow> nat \<Rightarrow> int"
  recv_chunk :: "nat \<Rightarrow> string"

datatype io = Opened int | Closed int | FreeAddrInfo

text \<open>The loop over the addresses: the connected descriptor, or -1, and what was opened and
  closed on the way.\<close>

fun connect_loop :: "network \<Rightarrow> nat list \<Rightarrow> int \<times> io list" where
  "connect_loop net [] = (- 1, [])"
| "connect_loop net (rp # rest) =
     (let fd = socket_of net rp
      in if fd = - 1 then connect_loop net rest
         else if connects net rp then (fd, [Opened fd])
         else (case connect_loop net rest of (r, acts) \<Rightarrow> (r, Opened fd # Closed fd # acts)))"

text \<open>The send loop: \<open>sent\<close> bytes are out, the \<open>i\<close>-th call is next; the flag \<open>ok\<close> and the
  bytes handed to the peer.\<close>

function send_loop :: "network \<Rightarrow> string \<Rightarrow> nat \<Rightarrow> nat \<Rightarrow> string \<Rightarrow> bool \<times> string" where
  "send_loop net request sent i wire =
     (if sent < length request
      then (let n = send_result net i (length request - sent)
            in if n \<le> 0 then (False, wire)
               else send_loop net request (sent + nat n) (Suc i) (wire @ take (nat n) (drop sent request)))
      else (True, wire))"
  by pat_completeness auto
termination
  by (relation "measure (\<lambda>(net, request, sent, i, wire). length request - sent)") auto

declare send_loop.simps [simp del]

text \<open>The receive loop ends when a \<open>recv\<close> returns nothing more.\<close>

partial_function (option) recv_loop :: "network \<Rightarrow> nat \<Rightarrow> string \<Rightarrow> string option" where
  "recv_loop net i reply =
     (if recv_chunk net i = [] then Some reply
      else recv_loop net (Suc i) (reply @ recv_chunk net i))"

text \<open>The reply, the descriptors' life and the bytes sent.\<close>

definition httpExchange :: "network \<Rightarrow> string \<Rightarrow> string \<Rightarrow> string \<Rightarrow> (string \<times> io list \<times> string) option" where
  "httpExchange net host port request =
     (case resolve net host port of
        None \<Rightarrow> Some ([], [], [])
      | Some result \<Rightarrow>
          (case connect_loop net result of
             (fd, acts) \<Rightarrow>
               if fd = - 1 then Some ([], acts @ [FreeAddrInfo], [])
               else (case send_loop net request 0 0 [] of
                  (ok, wire) \<Rightarrow>
                    if ok
                    then map_option (\<lambda>reply. (reply, acts @ [FreeAddrInfo, Closed fd], wire)) (recv_loop net 0 [])
                    else Some ([], acts @ [FreeAddrInfo, Closed fd], wire))))"

definition crlf :: string where
  "crlf = [CHR 0x0D, CHR 0x0A]"

definition httpBody :: "string \<Rightarrow> string" where
  "httpBody reply =
     (case str_find reply (crlf @ crlf) 0 of
        None \<Rightarrow> []
      | Some pos \<Rightarrow> drop (pos + length (crlf @ crlf)) reply)"

section \<open>The control operations\<close>

record SimControl =
  m_host :: string
  m_port :: string
  m_app :: string

definition fromEnvironment :: "(string \<Rightarrow> string option) \<Rightarrow> SimControl \<Rightarrow> bool \<times> SimControl" where
  "fromEnvironment env out =
     (case (env ''RIALTO_CONFORMANCE_SIM_HOST'', env ''RIALTO_CONFORMANCE_SIM_PORT'', env ''RIALTO_CONFORMANCE_APP'') of
        (Some host, Some port, Some app) \<Rightarrow>
          if host = [] \<or> port = [] \<or> app = [] then (False, out)
          else (True, out\<lparr>m_host := host, m_port := port, m_app := app\<rparr>)
      | _ \<Rightarrow> (False, out))"

definition set_request :: "SimControl \<Rightarrow> string \<Rightarrow> string" where
  "set_request c state =
     ''POST /SetState/'' @ m_app c @ ''/'' @ state @ '' HTTP/1.0'' @ crlf @ ''Host: '' @ m_host c
       @ crlf @ ''Content-Length: 0'' @ crlf @ crlf"

definition setState :: "network \<Rightarrow> SimControl \<Rightarrow> string \<Rightarrow> bool option" where
  "setState net c state =
     map_option (\<lambda>(reply, _). str_find (httpBody reply) ''succeeded'' 0 \<noteq> None)
       (httpExchange net (m_host c) (m_port c) (set_request c state))"

definition setActive :: "network \<Rightarrow> SimControl \<Rightarrow> bool option" where
  "setActive net c = setState net c ''Active''"

definition setInactive :: "network \<Rightarrow> SimControl \<Rightarrow> bool option" where
  "setInactive net c = setState net c ''Inactive''"

definition is_alpha :: "char \<Rightarrow> bool" where
  "is_alpha c \<longleftrightarrow> CHR ''A'' \<le> c \<and> c \<le> CHR ''Z'' \<or> CHR ''a'' \<le> c \<and> c \<le> CHR ''z''"

text \<open>\<open>while (end < body.size() && isalpha(body[end])) ++end\<close>\<close>

function alpha_end :: "string \<Rightarrow> nat \<Rightarrow> nat" where
  "alpha_end body e = (if e < length body \<and> is_alpha (body ! e) then alpha_end body (Suc e) else e)"
  by pat_completeness auto
termination by (relation "measure (\<lambda>(body, e). length body - e)") auto

declare alpha_end.simps [simp del]

definition state_token :: "string \<Rightarrow> string" where
  "state_token body =
     (case str_find body ''returned: '' 0 of
        None \<Rightarrow> []
      | Some pos \<Rightarrow>
          (let begin' = pos + length ''returned: '' in cpp_substr body begin' (alpha_end body begin' - begin')))"

definition get_request :: "SimControl \<Rightarrow> string" where
  "get_request c = ''GET /GetState/'' @ m_app c @ '' HTTP/1.0'' @ crlf @ ''Host: '' @ m_host c @ crlf @ crlf"

definition getState :: "network \<Rightarrow> SimControl \<Rightarrow> string option" where
  "getState net c =
     map_option (\<lambda>(reply, _). state_token (httpBody reply))
       (httpExchange net (m_host c) (m_port c) (get_request c))"

section \<open>Correctness of the exchange\<close>

text \<open>What the code relies on of \<open>send\<close>: it takes no more than it was offered.\<close>

definition stream_socket :: "network \<Rightarrow> bool" where
  "stream_socket net \<longleftrightarrow> (\<forall>i n. send_result net i n \<le> int n)"

text \<open>A socket that takes at most \<open>k\<close> bytes per call, and a peer that answers in the given
  chunks; the first address refuses the connection.\<close>

definition chunked_net :: "nat \<Rightarrow> string list \<Rightarrow> network" where
  "chunked_net k chunks =
     \<lparr>resolve = (\<lambda>h p. Some [0, 1]), socket_of = (\<lambda>a. int a + 3), connects = (\<lambda>a. a = 1),
      send_result = (\<lambda>i n. int (min k n)),
      recv_chunk = (\<lambda>i. if i < length chunks then chunks ! i else [])\<rparr>"

lemma chunked_socket: "stream_socket (chunked_net k chunks)"
  by (simp add: stream_socket_def chunked_net_def)

lemma send_loop_wire:
  assumes "stream_socket net"
  shows "sent \<le> length request \<Longrightarrow> wire = take sent request \<Longrightarrow> send_loop net request sent i wire = (ok, w)
     \<Longrightarrow> prefix w request \<and> (ok \<longleftrightarrow> w = request)"
  using assms
proof (induction net request sent i wire arbitrary: ok w rule: send_loop.induct)
  case (1 net request sent i wire)
  show ?case
  proof (cases "sent < length request")
    case False
    then have "send_loop net request sent i wire = (True, wire)" by (subst send_loop.simps) simp
    with 1 False show ?thesis by simp
  next
    case True
    define n where "n = send_result net i (length request - sent)"
    have "n \<le> int (length request - sent)" using "1.prems"(4) by (simp add: n_def stream_socket_def)
    show ?thesis
    proof (cases "n \<le> 0")
      case True
      then have "send_loop net request sent i wire = (False, wire)"
        using \<open>sent < length request\<close> by (subst send_loop.simps) (simp add: n_def)
      with 1 have "(ok, w) = (False, take sent request)" by simp
      moreover have "length (take sent request) < length request" using \<open>sent < length request\<close> by simp
      ultimately show ?thesis using take_is_prefix by (metis Pair_inject less_irrefl)
    next
      case False
      with True have "send_loop net request sent i wire =
          send_loop net request (sent + nat n) (Suc i) (wire @ take (nat n) (drop sent request))"
        by (subst send_loop.simps) (simp add: n_def Let_def)
      with "1.prems"(3) have step: "send_loop net request (sent + nat n) (Suc i)
          (wire @ take (nat n) (drop sent request)) = (ok, w)" by simp
      have "sent + nat n \<le> length request"
        using \<open>n \<le> int (length request - sent)\<close> True by linarith
      moreover have "wire @ take (nat n) (drop sent request) = take (sent + nat n) request"
        using "1.prems"(2) by (simp add: take_add)
      ultimately show ?thesis
        using "1.IH" [OF True n_def False _ _ step "1.prems"(4)] by simp
    qed
  qed
qed

lemma recv_loop_closed:
  assumes "recv_chunk net (i + k) = []" "\<forall>j<k. recv_chunk net (i + j) \<noteq> []"
  shows "recv_loop net i reply = Some (reply @ concat (map (\<lambda>j. recv_chunk net (i + j)) [0..<k]))"
  using assms
proof (induction k arbitrary: i reply)
  case 0
  then show ?case by (simp add: recv_loop.simps)
next
  case (Suc k)
  have "recv_loop net (Suc i) (reply @ recv_chunk net i)
      = Some ((reply @ recv_chunk net i) @ concat (map (\<lambda>j. recv_chunk net (Suc i + j)) [0..<k]))"
    using Suc.prems by (intro Suc.IH) auto
  moreover have "map (\<lambda>j. recv_chunk net (i + j)) [0..<Suc k]
      = recv_chunk net i # map (\<lambda>j. recv_chunk net (Suc i + j)) [0..<k]"
    by (subst upt_conv_Cons) (auto simp: map_Suc_upt [symmetric] comp_def simp del: upt_Suc)
  ultimately show ?case
    using Suc.prems(2) by (subst recv_loop.simps) (auto simp: add.commute)
qed

lemma recv_loop_defined:
  assumes "recv_loop net i reply = Some r"
  shows "\<exists>k\<ge>i. recv_chunk net k = []"
proof (rule recv_loop.raw_induct [where P = "\<lambda>net i reply r. \<exists>k\<ge>i. recv_chunk net k = []", OF _ assms])
  fix rec net i reply r
  assume IH: "\<And>n j t y. rec n j t = Some y \<Longrightarrow> \<exists>k\<ge>j. recv_chunk n k = []"
    and step: "(if recv_chunk net i = [] then Some reply else rec net (Suc i) (reply @ recv_chunk net i)) = Some r"
  show "\<exists>k\<ge>i. recv_chunk net k = []"
  proof (cases "recv_chunk net i = []")
    case False
    with step IH [of net "Suc i"] obtain k where "Suc i \<le> k" "recv_chunk net k = []" by auto
    then show ?thesis using Suc_leD by blast
  qed auto
qed

lemma recv_loop_None: "recv_loop net 0 [] = None \<longleftrightarrow> (\<forall>k. recv_chunk net k \<noteq> [])"
proof
  assume n: "recv_loop net 0 [] = None"
  show "\<forall>k. recv_chunk net k \<noteq> []"
  proof (rule ccontr)
    assume "\<not> ?thesis"
    then obtain m where "recv_chunk net m = []" by blast
    define k where "k = (LEAST k. recv_chunk net k = [])"
    have "recv_chunk net k = []" unfolding k_def using \<open>recv_chunk net m = []\<close> by (rule LeastI)
    moreover have "\<forall>j<k. recv_chunk net j \<noteq> []" unfolding k_def using not_less_Least by blast
    ultimately show False using recv_loop_closed [of net 0 k] n by simp
  qed
next
  assume "\<forall>k. recv_chunk net k \<noteq> []"
  then show "recv_loop net 0 [] = None" using recv_loop_defined [of net 0 "[]"] by (cases "recv_loop net 0 []") auto
qed

lemma send_loop_progress:
  assumes "\<forall>i n. 0 < n \<longrightarrow> 0 < send_result net i n"
  shows "fst (send_loop net request sent i wire)"
  using assms
proof (induction net request sent i wire rule: send_loop.induct)
  case (1 net request sent i wire)
  show ?case
  proof (cases "sent < length request")
    case True
    then have "0 < send_result net i (length request - sent)" using 1(2) by simp
    with 1 True show ?thesis by (subst send_loop.simps) (simp add: Let_def not_le)
  qed (subst send_loop.simps, simp)
qed

lemma send_all:
  assumes "stream_socket net" "\<forall>i n. 0 < n \<longrightarrow> 0 < send_result net i n"
  shows "send_loop net request 0 0 [] = (True, request)"
proof -
  obtain ok w where s: "send_loop net request 0 0 [] = (ok, w)" by fastforce
  with send_loop_progress [OF assms(2), of request 0 0 "[]"] have ok by simp
  with s send_loop_wire [OF assms(1) _ _ s] show ?thesis by simp
qed

text \<open>C22: The exchange delivers the whole request and returns the whole reply: when an address
  accepts, \<open>send\<close> takes the request in pieces of any size, and the peer closes after \<open>k\<close>
  chunks, the peer has got exactly the request and the result is the concatenated chunks.\<close>

theorem exchange_complete:
  assumes "stream_socket net" "resolve net host port = Some addrs" "fst (connect_loop net addrs) \<noteq> - 1"
    and "\<forall>i n. 0 < n \<longrightarrow> 0 < send_result net i n"
    and "recv_chunk net k = []" "\<forall>j<k. recv_chunk net j \<noteq> []"
  shows "\<exists>acts. httpExchange net host port request =
     Some (concat (map (recv_chunk net) [0..<k]), acts, request)"
  using assms(2,3) send_all [OF assms(1,4), of request] recv_loop_closed [of net 0 k "[]"] assms(5,6)
  by (auto simp: httpExchange_def split: prod.splits)

theorem exchange_complete_witness:
  "\<exists>acts. httpExchange (chunked_net 3 [''ab'', ''c'']) ''h'' ''p'' ''GET /x'' = Some (''abc'', acts, ''GET /x'')"
proof -
  have c: "fst (connect_loop (chunked_net 3 [''ab'', ''c'']) [0, 1]) \<noteq> - 1" by (simp add: chunked_net_def Let_def)
  have "\<forall>j<2. recv_chunk (chunked_net 3 [''ab'', ''c'']) j \<noteq> []"
    by (auto simp: chunked_net_def less_Suc_eq numeral_2_eq_2)
  moreover have "concat (map (recv_chunk (chunked_net 3 [''ab'', ''c''])) [0..<2]) = ''abc''"
    by (simp add: chunked_net_def upt_conv_Cons)
  ultimately show ?thesis
    using exchange_complete [OF chunked_socket _ c, of "''h''" "''p''" 2 "''GET /x''"]
    by (simp add: chunked_net_def)
qed


text \<open>The descriptors opened and closed, in order.\<close>

fun opened :: "io list \<Rightarrow> int list" where
  "opened [] = []"
| "opened (Opened fd # acts) = fd # opened acts"
| "opened (_ # acts) = opened acts"

fun closed_fds :: "io list \<Rightarrow> int list" where
  "closed_fds [] = []"
| "closed_fds (Closed fd # acts) = fd # closed_fds acts"
| "closed_fds (_ # acts) = closed_fds acts"

lemma opened_append [simp]: "opened (a @ b) = opened a @ opened b"
  by (induction a rule: opened.induct) auto

lemma closed_append [simp]: "closed_fds (a @ b) = closed_fds a @ closed_fds b"
  by (induction a rule: closed_fds.induct) auto

lemma connect_loop_fds:
  "connect_loop net addrs = (fd, acts) \<Longrightarrow>
     opened acts = closed_fds acts @ (if fd = - 1 then [] else [fd]) \<and> FreeAddrInfo \<notin> set acts"
  by (induction addrs arbitrary: acts) (auto simp: Let_def split: if_splits prod.splits)

text \<open>C24: No descriptor and no address list leaks, on any path: every exchange that returns has
  closed each socket it opened, once and in the order of opening, and has freed the address
  list exactly once if it got one.\<close>

theorem exchange_releases_resources:
  assumes "httpExchange net host port request = Some (reply, acts, wire)"
  shows "closed_fds acts = opened acts
       \<and> count_list acts FreeAddrInfo = (if resolve net host port = None then 0 else 1)"
proof (cases "resolve net host port")
  case (Some addrs)
  obtain fd as where c: "connect_loop net addrs = (fd, as)" by fastforce
  have f: "opened as = closed_fds as @ (if fd = - 1 then [] else [fd])" "FreeAddrInfo \<notin> set as"
    using connect_loop_fds [OF c] by auto
  have "count_list as FreeAddrInfo = 0" using f(2) by (simp add: count_list_0_iff)
  then show ?thesis
    using assms Some c f by (auto simp: httpExchange_def split: if_splits prod.splits)
qed (use assms in \<open>simp add: httpExchange_def\<close>)

theorem exchange_releases_resources_witness:
  "\<exists>acts. httpExchange (chunked_net 2 []) ''h'' ''p'' [] = Some ([], acts, []) \<and> opened acts = [3, 4]
     \<and> closed_fds acts = [3, 4]"
proof -
  have e: "httpExchange (chunked_net 2 []) ''h'' ''p'' [] =
      Some ([], [Opened 3, Closed 3, Opened 4, FreeAddrInfo, Closed 4], [])"
    by (simp add: httpExchange_def chunked_net_def Let_def send_loop.simps recv_loop.simps)
  from exchange_releases_resources [OF e] show ?thesis using e by auto
qed

section \<open>The answers of the simulator\<close>

lemma httpBody_reply:
  "\<not> sublist (crlf @ crlf) (head @ butlast (crlf @ crlf)) \<Longrightarrow> httpBody (head @ (crlf @ crlf) @ body) = body"
  using find_sub_at [of "crlf @ crlf" head body] by (simp add: httpBody_def str_find_def crlf_def)

lemma alpha_end_run: "\<forall>c\<in>set st. is_alpha c \<Longrightarrow> (rest = [] \<or> \<not> is_alpha (hd rest)) \<Longrightarrow>
    alpha_end (p @ st @ rest) (length p) = length p + length st"
proof (induction st arbitrary: p)
  case Nil
  then show ?case by (subst alpha_end.simps) (auto simp: nth_append hd_conv_nth)
next
  case (Cons c st)
  then have "alpha_end ((p @ [c]) @ st @ rest) (length (p @ [c])) = length (p @ [c]) + length st"
    by (intro Cons.IH) auto
  with Cons.prems show ?case by (subst alpha_end.simps) (simp add: nth_append)
qed

lemma state_token_reply:
  assumes "\<not> sublist ''returned: '' (pre @ ''returned:'')" "\<forall>c\<in>set st. is_alpha c"
    and "rest = [] \<or> \<not> is_alpha (hd rest)"
  shows "state_token (pre @ ''returned: '' @ st @ rest) = st"
proof -
  have f: "str_find (pre @ ''returned: '' @ st @ rest) ''returned: '' 0 = Some (length pre)"
    using find_sub_at [of "''returned: ''" pre "st @ rest"] assms(1) by (simp add: str_find_def)
  have "alpha_end (pre @ ''returned: '' @ st @ rest) (length pre + length ''returned: '')
      = length pre + length ''returned: '' + length st"
    using alpha_end_run [OF assms(2,3), of "pre @ ''returned: ''"] by simp
  with f show ?thesis by (simp add: state_token_def cpp_substr_def)
qed

text \<open>\<open>getState\<close> reads back the state the simulator reports: from a complete reply with any
  header, whose body announces a state of letters after \<open>returned: \<close>, it returns that state,
  whatever follows.\<close>

lemma getState_reads_state:
  assumes "httpExchange net (m_host c) (m_port c) (get_request c) =
      Some (head @ (crlf @ crlf) @ pre @ ''returned: '' @ st @ rest, acts, wire)"
    and "\<not> sublist (crlf @ crlf) (head @ butlast (crlf @ crlf))"
    and "\<not> sublist ''returned: '' (pre @ ''returned:'')"
    and "\<forall>ch\<in>set st. is_alpha ch" "rest = [] \<or> \<not> is_alpha (hd rest)"
  shows "getState net c = Some st"
  using assms(1) httpBody_reply [OF assms(2)] state_token_reply [OF assms(3-5)]
  by (simp add: getState_def)

definition sim_app :: SimControl where
  "sim_app = \<lparr>m_host = ''sim'', m_port = ''9008'', m_app = ''App''\<rparr>"

lemma getState_reads_state_witness:
  "getState (chunked_net 40 [''HTTP/1.0 200 OK'' @ crlf @ crlf, ''GetState '', ''returned: Active''])
     sim_app = Some ''Active''"
proof -
  let ?net = "chunked_net 40 [''HTTP/1.0 200 OK'' @ crlf @ crlf, ''GetState '', ''returned: Active'']"
  have "httpExchange ?net (m_host sim_app) (m_port sim_app) (get_request sim_app) =
      Some (''HTTP/1.0 200 OK'' @ (crlf @ crlf) @ ''GetState '' @ ''returned: '' @ ''Active'' @ [],
        [Opened 3, Closed 3, Opened 4, FreeAddrInfo, Closed 4], get_request sim_app)"
  proof -
    have "send_loop ?net (get_request sim_app) 0 0 [] = (True, get_request sim_app)"
      by (rule send_all [OF chunked_socket]) (simp add: chunked_net_def)
    moreover have "recv_loop ?net 0 [] =
        Some (''HTTP/1.0 200 OK'' @ (crlf @ crlf) @ ''GetState '' @ ''returned: '' @ ''Active'' @ [])"
      by (simp add: recv_loop.simps chunked_net_def)
    moreover have "connect_loop ?net [0, 1] = (4, [Opened 3, Closed 3, Opened 4])" "resolve ?net h p = Some [0, 1]" for h p
      by (simp_all add: chunked_net_def Let_def)
    ultimately show ?thesis by (simp add: httpExchange_def)
  qed
  then show ?thesis
    by (rule getState_reads_state) code_simp+
qed

text \<open>The client fails closed: unless the whole request was sent over a connection, the answer
  is empty, so that \<open>setState\<close> reports failure and \<open>getState\<close> no state; and \<open>setState\<close>
  reports success only for a reply whose body, after the blank line, says so.\<close>

lemma sim_fails_closed:
  assumes "stream_socket net" "httpExchange net (m_host c) (m_port c) (set_request c st) = Some (reply, acts, wire)"
    and "httpExchange net (m_host c) (m_port c) (get_request c) = Some (reply', acts', wire')"
  shows "(wire \<noteq> set_request c st \<longrightarrow> reply = [] \<and> setState net c st = Some False)
       \<and> (wire' \<noteq> get_request c \<longrightarrow> reply' = [] \<and> getState net c = Some [])
       \<and> (setState net c st = Some True \<longrightarrow>
            (\<exists>head body. reply = head @ crlf @ crlf @ body \<and> sublist ''succeeded'' body))"
proof -
  have *: "r = []" if "httpExchange net h p q = Some (r, a, w)" "w \<noteq> q" for h p q r a w
  proof -
    obtain ok w' where s: "send_loop net q 0 0 [] = (ok, w')" by fastforce
    with send_loop_wire [OF assms(1) _ _ s] have "ok \<longleftrightarrow> w' = q" by simp
    with s that show ?thesis by (auto simp: httpExchange_def split: option.splits prod.splits if_splits)
  qed
  have nil: "httpBody [] = []" "state_token [] = []" "str_find [] ''succeeded'' 0 = None"
    by (simp_all add: httpBody_def state_token_def str_find_def crlf_def)
  have "\<exists>head body. reply = head @ crlf @ crlf @ body \<and> sublist ''succeeded'' body"
    if "setState net c st = Some True"
  proof -
    have s: "find_sub ''succeeded'' (httpBody reply) \<noteq> None"
      using that assms(2) by (auto simp: setState_def str_find_def)
    show ?thesis
    proof (cases "str_find reply (crlf @ crlf) 0")
      case None
      then have "httpBody reply = []" by (simp add: httpBody_def)
      with s show ?thesis by simp
    next
      case (Some pos)
      then have b: "httpBody reply = drop (pos + length (crlf @ crlf)) reply" by (simp only: httpBody_def option.case)
      have "find_sub (crlf @ crlf) reply = Some pos" using Some unfolding str_find_def by simp
      from find_sub_prefix [OF this] obtain z where "drop pos reply = (crlf @ crlf) @ z" unfolding prefix_def by blast
      then have "reply = take pos reply @ crlf @ crlf @ z" "drop (pos + length (crlf @ crlf)) reply = z"
        using append_take_drop_id [of pos reply] drop_drop [of "length (crlf @ crlf)" pos reply]
        by (simp_all add: add.commute)
      moreover have "sublist ''succeeded'' (httpBody reply)" using s unfolding find_sub_None by simp
      ultimately show ?thesis using b by auto
    qed
  qed
  then show ?thesis
    using * [OF assms(2)] * [OF assms(3)] assms(2,3) nil by (auto simp: setState_def getState_def)
qed

lemma sim_fails_closed_witness:
  "setState (chunked_net 0 [''x'']) sim_app ''Active'' = Some False"
proof -
  have e: "httpExchange (chunked_net 0 [''x'']) (m_host sim_app) (m_port sim_app) q =
      Some ([], [Opened 3, Closed 3, Opened 4, FreeAddrInfo, Closed 4], [])" if "q \<noteq> []" for q
    using that by (simp add: httpExchange_def chunked_net_def Let_def send_loop.simps)
  have "set_request sim_app ''Active'' \<noteq> []" "get_request sim_app \<noteq> []"
    by (simp_all add: set_request_def get_request_def)
  from sim_fails_closed [OF chunked_socket e [OF this(1)] e [OF this(2)]] \<open>set_request sim_app ''Active'' \<noteq> []\<close>
  show ?thesis by auto
qed

text \<open>The control handle is taken from the environment only when host, port and application are
  all set and non-empty; otherwise the caller's object is left as it was.\<close>

lemma fromEnvironment_all_or_nothing:
  "fromEnvironment env out =
     (if \<exists>h p a. h \<noteq> [] \<and> p \<noteq> [] \<and> a \<noteq> [] \<and> env ''RIALTO_CONFORMANCE_SIM_HOST'' = Some h
          \<and> env ''RIALTO_CONFORMANCE_SIM_PORT'' = Some p \<and> env ''RIALTO_CONFORMANCE_APP'' = Some a
      then (True, \<lparr>m_host = the (env ''RIALTO_CONFORMANCE_SIM_HOST''),
                   m_port = the (env ''RIALTO_CONFORMANCE_SIM_PORT''),
                   m_app = the (env ''RIALTO_CONFORMANCE_APP'')\<rparr>)
      else (False, out))"
  by (auto simp: fromEnvironment_def split: option.splits)

end
