(* ===== verification/Media_Stream.thy ===== *)
theory Media_Stream
  imports Conf_Prelude
begin

text \<open>
  The elementary streams the data-path cases feed: \<open>EncodedFrame\<close>, the two stream types of
  \<open>include/conformance/MediaFeed.h\<close>, their totals, and the two synthesisers of
  \<open>src/common/MediaFeed.cpp\<close>.  GStreamer is a parameter: what its pipeline yields is the
  list of samples the application sink returns before the end of stream.  Times are in
  nanoseconds; the sums of a stream of realistic length stay far inside 64 bits, so
  they are plain integers here.
\<close>

section \<open>Streams\<close>

record EncodedFrame =
  data :: bytes
  timeStamp :: int
  duration :: int

record AacElementaryStream =
  frames :: "EncodedFrame list"
  sampleRate :: u32
  channels :: u32

record H264AvcElementaryStream =
  avc_frames :: "EncodedFrame list"
  codecData :: bytes
  width :: u32
  height :: u32

definition totalBytes :: "AacElementaryStream \<Rightarrow> nat" where
  "totalBytes stream = foldl (\<lambda>n frame. n + length (data frame)) 0 (frames stream)"

definition add_duration :: "int \<Rightarrow> EncodedFrame \<Rightarrow> int" where
  "add_duration acc frame = (if duration frame > 0 then acc + duration frame else acc)"

definition aac_totalDurationNs :: "AacElementaryStream \<Rightarrow> int" where
  "aac_totalDurationNs stream = foldl add_duration 0 (frames stream)"

definition avc_totalDurationNs :: "H264AvcElementaryStream \<Rightarrow> int" where
  "avc_totalDurationNs stream = foldl add_duration 0 (avc_frames stream)"

definition isComplete :: "H264AvcElementaryStream \<Rightarrow> bool" where
  "isComplete stream \<longleftrightarrow> avc_frames stream \<noteq> [] \<and> codecData stream \<noteq> []"

section \<open>What GStreamer returns\<close>

text \<open>
  A pulled sample: the caps' \<open>codec_data\<close> field (\<open>None\<close> without caps, without the field or
  where its buffer cannot be mapped) and the buffer, \<open>None\<close> where absent or not mappable.
\<close>

record GstBuffer =
  mapped :: bytes
  buf_pts :: "int option"
  buf_duration :: "int option"

record GstSample =
  caps_codec_data :: "bytes option"
  buffer :: "GstBuffer option"

text \<open>
  An encode pipeline built from a description: \<open>None\<close> where \<open>gst_parse_launch\<close> fails;
  otherwise whether the sink is there and the state change to PLAYING is not refused, and
  the samples up to the end of stream or an error.
\<close>

record encode_run =
  sink_found :: bool
  state_change_ok :: bool
  samples :: "GstSample list"

type_synonym gst = "string \<Rightarrow> encode_run option"

definition GST_SECOND :: int where
  "GST_SECOND = 1000000000"

definition kSampleRate :: u32 where "kSampleRate = 48000"
definition kChannels :: u32 where "kChannels = 2"
definition kAacSamplesPerFrame :: int where "kAacSamplesPerFrame = 1024"
definition kVideoWidth :: u32 where "kVideoWidth = 320"
definition kVideoHeight :: u32 where "kVideoHeight = 240"
definition kVideoFrameRate :: int where "kVideoFrameRate = 25"

text \<open>C++ division of non-negative operands is \<open>div\<close>.\<close>

definition aac_frameDurationNs :: int where
  "aac_frameDurationNs = kAacSamplesPerFrame * GST_SECOND div uint kSampleRate"

definition avc_frameDurationNs :: int where
  "avc_frameDurationNs = GST_SECOND div kVideoFrameRate"

text \<open>\<open>%d\<close> and \<open>%u\<close>\<close>

definition show_int :: "int \<Rightarrow> string" where
  "show_int n = (if n < 0 then ''-'' @ to_dec (nat (- n)) else to_dec (nat n))"

definition aac_desc :: "int \<Rightarrow> string" where
  "aac_desc numFrames =
     ''audiotestsrc num-buffers='' @ show_int numFrames @ '' ! audio/x-raw,rate='' @ to_dec (unat kSampleRate)
     @ '',channels='' @ to_dec (unat kChannels) @ '' ! audioconvert ! ''
     @ ''avenc_aac ! aacparse ! audio/mpeg,mpegversion=4,stream-format=adts ! ''
     @ ''appsink name=sink sync=false''"

definition avc_desc :: "int \<Rightarrow> string" where
  "avc_desc numFrames =
     ''videotestsrc num-buffers='' @ show_int numFrames @ '' ! ''
     @ ''video/x-raw,width='' @ to_dec (unat kVideoWidth) @ '',height='' @ to_dec (unat kVideoHeight)
     @ '',framerate='' @ show_int kVideoFrameRate @ ''/1 ! ''
     @ ''x264enc ! h264parse ! video/x-h264,stream-format=avc,alignment=au ! ''
     @ ''appsink name=sink sync=false''"

section \<open>The synthesisers\<close>

definition frame_of :: "int \<Rightarrow> int \<Rightarrow> GstBuffer \<Rightarrow> EncodedFrame" where
  "frame_of frameDurationNs frameIndex b =
     \<lparr>data = mapped b,
      timeStamp = (case buf_pts b of Some t \<Rightarrow> t | None \<Rightarrow> frameIndex * frameDurationNs),
      duration = (case buf_duration b of Some d \<Rightarrow> d | None \<Rightarrow> frameDurationNs)\<rparr>"

text \<open>The pull loop: \<open>++frameIndex\<close> only for a sample whose buffer was captured.\<close>

fun aac_pull :: "int \<Rightarrow> GstSample list \<Rightarrow> EncodedFrame list \<Rightarrow> EncodedFrame list" where
  "aac_pull frameIndex [] fs = fs"
| "aac_pull frameIndex (sample # rest) fs =
     (case buffer sample of
        Some b \<Rightarrow> aac_pull (frameIndex + 1) rest (fs @ [frame_of aac_frameDurationNs frameIndex b])
      | None \<Rightarrow> aac_pull frameIndex rest fs)"

definition generateAacAdtsStream :: "gst \<Rightarrow> int \<Rightarrow> AacElementaryStream" where
  "generateAacAdtsStream launch numFrames =
     (let stream = \<lparr>frames = [], sampleRate = kSampleRate, channels = kChannels\<rparr>
      in case launch (aac_desc numFrames) of
           None \<Rightarrow> stream
         | Some run \<Rightarrow>
             if sink_found run \<and> state_change_ok run
             then stream\<lparr>frames := aac_pull 0 (samples run) []\<rparr> else stream)"

definition extractCodecData :: "GstSample \<Rightarrow> bytes" where
  "extractCodecData sample = (case caps_codec_data sample of None \<Rightarrow> [] | Some d \<Rightarrow> d)"

fun avc_pull :: "int \<Rightarrow> GstSample list \<Rightarrow> H264AvcElementaryStream \<Rightarrow> H264AvcElementaryStream" where
  "avc_pull frameIndex [] stream = stream"
| "avc_pull frameIndex (sample # rest) stream =
     (let stream1 = (if codecData stream = [] then stream\<lparr>codecData := extractCodecData sample\<rparr> else stream)
      in case buffer sample of
           Some b \<Rightarrow>
             avc_pull (frameIndex + 1) rest
               (stream1\<lparr>avc_frames := avc_frames stream1 @ [frame_of avc_frameDurationNs frameIndex b]\<rparr>)
         | None \<Rightarrow> avc_pull frameIndex rest stream1)"

definition generateH264AvcStream :: "gst \<Rightarrow> int \<Rightarrow> H264AvcElementaryStream" where
  "generateH264AvcStream launch numFrames =
     (let stream = \<lparr>avc_frames = [], codecData = [], width = kVideoWidth, height = kVideoHeight\<rparr>
      in case launch (avc_desc numFrames) of
           None \<Rightarrow> stream
         | Some run \<Rightarrow>
             if sink_found run \<and> state_change_ok run then avc_pull 0 (samples run) stream else stream)"

section \<open>Correctness of the synthesisers\<close>

definition buffers :: "GstSample list \<Rightarrow> GstBuffer list" where
  "buffers ss = map the (filter (\<lambda>b. b \<noteq> None) (map buffer ss))"

lemma buffers_simps [simp]:
  "buffers [] = []"
  "buffers (s # ss) = (case buffer s of None \<Rightarrow> buffers ss | Some b \<Rightarrow> b # buffers ss)"
  by (auto simp: buffers_def split: option.splits)

fun stamped :: "int \<Rightarrow> int \<Rightarrow> GstBuffer list \<Rightarrow> EncodedFrame list" where
  "stamped d i [] = []"
| "stamped d i (b # bs) = frame_of d i b # stamped d (i + 1) bs"

lemma stamped_nth: "k < length bs \<Longrightarrow> stamped d i bs ! k = frame_of d (i + int k) (bs ! k)"
proof (induction bs arbitrary: i k)
  case (Cons b bs)
  then show ?case by (cases k) (auto simp: algebra_simps)
qed simp

lemma length_stamped [simp]: "length (stamped d i bs) = length bs"
  by (induction bs arbitrary: i) auto

lemma aac_pull_stamped: "aac_pull i ss fs = fs @ stamped aac_frameDurationNs i (buffers ss)"
  by (induction ss arbitrary: i fs) (auto split: option.splits)

lemma avc_pull_result:
  "avc_frames (avc_pull i ss stream) = avc_frames stream @ stamped avc_frameDurationNs i (buffers ss)
   \<and> codecData (avc_pull i ss stream) =
       (if codecData stream \<noteq> [] then codecData stream
        else case dropWhile (\<lambda>s. extractCodecData s = []) ss of [] \<Rightarrow> [] | s # _ \<Rightarrow> extractCodecData s)
   \<and> width (avc_pull i ss stream) = width stream \<and> height (avc_pull i ss stream) = height stream"
proof (induction ss arbitrary: i stream)
  case (Cons s ss)
  show ?case
    by (cases "buffer s"; cases "codecData stream = []"; cases "extractCodecData s = []")
      (simp_all add: Cons.IH Let_def)
qed simp

lemma aac_stream_synthesised:
  assumes "launch (aac_desc n) = Some run" "sink_found run" "state_change_ok run"
  shows "frames (generateAacAdtsStream launch n) = stamped 21333333 0 (buffers (samples run))"
proof -
  have "aac_frameDurationNs = 21333333"
    by (simp add: aac_frameDurationNs_def kAacSamplesPerFrame_def GST_SECOND_def kSampleRate_def)
  with assms show ?thesis by (simp add: generateAacAdtsStream_def Let_def aac_pull_stamped)
qed

text \<open>The audio synthesiser keeps every captured buffer, in order, with the buffer's own time
  stamp and duration where valid; where they are not, frame \<open>k\<close> starts at \<open>k\<close> times
  21.333333 ms (1024 samples at 48 kHz, truncated) and lasts as long.\<close>

lemma aac_stream_frames:
  assumes "launch (aac_desc n) = Some run" "sink_found run" "state_change_ok run"
    and "bs = buffers (samples run)"
  shows "let fs = frames (generateAacAdtsStream launch n) in
     length fs = length bs
   \<and> (\<forall>k < length bs. fs ! k =
        \<lparr>data = mapped (bs ! k),
         timeStamp = (case buf_pts (bs ! k) of Some t \<Rightarrow> t | None \<Rightarrow> int k * 21333333),
         duration = (case buf_duration (bs ! k) of Some d \<Rightarrow> d | None \<Rightarrow> 21333333)\<rparr>)"
proof -
  have "frames (generateAacAdtsStream launch n) = stamped 21333333 0 bs"
    using assms by (simp add: aac_stream_synthesised)
  then show ?thesis by (simp add: stamped_nth frame_of_def)
qed

definition sample_run :: encode_run where
  "sample_run = \<lparr>sink_found = True, state_change_ok = True,
     samples = [\<lparr>caps_codec_data = None, buffer = Some \<lparr>mapped = [1], buf_pts = Some 5, buf_duration = None\<rparr>\<rparr>,
                \<lparr>caps_codec_data = Some [9], buffer = None\<rparr>,
                \<lparr>caps_codec_data = Some [8], buffer = Some \<lparr>mapped = [2, 3], buf_pts = None, buf_duration = Some 7\<rparr>\<rparr>]\<rparr>"

lemma aac_stream_frames_witness:
  "timeStamp (frames (generateAacAdtsStream (\<lambda>_. Some sample_run) 3) ! 1) = 21333333"
proof -
  have "let fs = frames (generateAacAdtsStream (\<lambda>_. Some sample_run) 3) in
      length fs = length (buffers (samples sample_run))
    \<and> (\<forall>k < length (buffers (samples sample_run)). fs ! k =
        \<lparr>data = mapped (buffers (samples sample_run) ! k),
         timeStamp = (case buf_pts (buffers (samples sample_run) ! k) of Some t \<Rightarrow> t | None \<Rightarrow> int k * 21333333),
         duration = (case buf_duration (buffers (samples sample_run) ! k) of Some d \<Rightarrow> d | None \<Rightarrow> 21333333)\<rparr>)"
    by (rule aac_stream_frames [where run = sample_run]) (simp_all add: sample_run_def)
  then show ?thesis by (simp add: Let_def sample_run_def)
qed

text \<open>The video synthesiser captures the codec data of the first sample that carries any, and
  none later, beside one frame per captured buffer, at 40 ms each where unstamped; the stream
  counts as complete exactly when both a frame and codec data were found.\<close>

lemma avc_stream_complete:
  assumes "launch (avc_desc n) = Some run" "sink_found run" "state_change_ok run"
    and "codec = (case find (\<lambda>s. extractCodecData s \<noteq> []) (samples run) of None \<Rightarrow> [] | Some s \<Rightarrow> extractCodecData s)"
  shows "codecData (generateH264AvcStream launch n) = codec
    \<and> avc_frames (generateH264AvcStream launch n) = stamped 40000000 0 (buffers (samples run))
    \<and> (isComplete (generateH264AvcStream launch n) \<longleftrightarrow> buffers (samples run) \<noteq> [] \<and> codec \<noteq> [])"
proof -
  have d: "avc_frameDurationNs = 40000000"
    by (simp add: avc_frameDurationNs_def GST_SECOND_def kVideoFrameRate_def)
  have dw: "(case dropWhile (\<lambda>s. extractCodecData s = []) ss of [] \<Rightarrow> [] | s # _ \<Rightarrow> extractCodecData s)
      = (case find (\<lambda>s. extractCodecData s \<noteq> []) ss of None \<Rightarrow> [] | Some s \<Rightarrow> extractCodecData s)" for ss
    by (induction ss) auto
  have "stamped d i bs = [] \<longleftrightarrow> bs = []" for d i bs by (cases bs) auto
  then show ?thesis
    using assms by (simp add: generateH264AvcStream_def isComplete_def Let_def avc_pull_result dw d)
qed

lemma avc_stream_complete_witness:
  "codecData (generateH264AvcStream (\<lambda>_. Some sample_run) 3) = [9]"
  using avc_stream_complete [of "\<lambda>_. Some sample_run" 3 sample_run] by (simp add: sample_run_def extractCodecData_def)

lemma add_duration_sum: "foldl add_duration t fs = t + (\<Sum>f\<leftarrow>fs. max 0 (duration f))"
  by (induction fs arbitrary: t) (auto simp: add_duration_def max_def)

lemma totalBytes_sum: "totalBytes stream = (\<Sum>f\<leftarrow>frames stream. length (data f))"
proof -
  have "foldl (\<lambda>n f. n + length (data f)) t fs = t + (\<Sum>f\<leftarrow>fs. length (data f))" for t and fs :: "EncodedFrame list"
    by (induction fs arbitrary: t) auto
  then show ?thesis by (simp add: totalBytes_def)
qed

text \<open>The totals a case sizes its expectations by: the bytes are the sum of the frame sizes, the
  duration counts the positive durations only and is never negative.\<close>

lemma stream_totals:
  "totalBytes s = (\<Sum>f\<leftarrow>frames s. length (data f))
   \<and> aac_totalDurationNs s = (\<Sum>f\<leftarrow>frames s. max 0 (duration f)) \<and> 0 \<le> aac_totalDurationNs s
   \<and> avc_totalDurationNs v = (\<Sum>f\<leftarrow>avc_frames v. max 0 (duration f)) \<and> 0 \<le> avc_totalDurationNs v"
proof -
  have "0 \<le> (\<Sum>f\<leftarrow>fs. max 0 (duration f))" for fs :: "EncodedFrame list" by (induction fs) auto
  then show ?thesis
    by (simp add: totalBytes_sum aac_totalDurationNs_def avc_totalDurationNs_def add_duration_sum)
qed

end
