(* ===== verification/Polling.thy ===== *)
theory Polling
  imports Conf_Prelude
begin

text \<open>
  Waiting for an asynchronous effect: the polled read-back \<open>pollUntilApplied\<close> of
  \<open>include/conformance/AsyncApply.h\<close>, and the timed wait on a condition variable the feed
  client uses.  The clock and the predicate are arguments; time is in milliseconds.
\<close>

section \<open>Polled read-back\<close>

definition kApplyDeadline :: int where "kApplyDeadline = 5000"
definition kApplyPoll :: int where "kApplyPoll = 50"

text \<open>
  \<open>now k\<close> is the \<open>k\<close>-th reading of the clock: reading 0 fixes the deadline, reading
  \<open>i + 1\<close> is the loop test before the \<open>i\<close>-th call of \<open>read\<close>.  The result carries the
  number of calls made.  A clock that does not reach the deadline keeps the loop running,
  which is \<open>None\<close>.
\<close>

partial_function (option) poll_loop :: "(nat \<Rightarrow> int) \<Rightarrow> (nat \<Rightarrow> bool) \<Rightarrow> int \<Rightarrow> nat \<Rightarrow> (bool \<times> nat) option" where
  "poll_loop now read deadline i =
     (if now (Suc i) < deadline
      then if read i then Some (True, Suc i) else poll_loop now read deadline (Suc i)
      else Some (read i, Suc i))"

definition pollUntilApplied :: "(nat \<Rightarrow> int) \<Rightarrow> (nat \<Rightarrow> bool) \<Rightarrow> (bool \<times> nat) option" where
  "pollUntilApplied now read = (let deadline = now 0 + kApplyDeadline in poll_loop now read deadline 0)"

text \<open>The clock after \<open>sleep_for\<close>: at least the poll gap later.\<close>

definition sleeping_clock :: "(nat \<Rightarrow> int) \<Rightarrow> bool" where
  "sleeping_clock now \<longleftrightarrow> now 0 \<le> now 1 \<and> (\<forall>i. now (Suc i) + kApplyPoll \<le> now (Suc (Suc i)))"

lemma sleeping_clock_progress: "sleeping_clock now \<Longrightarrow> now 0 + 50 * int i \<le> now (Suc i)"
proof (induction i)
  case (Suc i)
  then have "now 0 + 50 * int i \<le> now (Suc i)" "now (Suc i) + 50 \<le> now (Suc (Suc i))"
    by (auto simp: sleeping_clock_def kApplyPoll_def)
  then show ?case by simp
qed (simp add: sleeping_clock_def)

lemma poll_loop_spec:
  assumes "\<forall>j<i. \<not> read j" "i \<le> m" "deadline \<le> now (Suc m)"
  shows "\<exists>n. i < n \<and> n \<le> Suc m \<and> poll_loop now read deadline i = Some (read (n - 1), n)
     \<and> (\<forall>j<n - 1. \<not> read j) \<and> (read (n - 1) \<or> deadline \<le> now n)"
  using assms(1,2)
proof (induction "m - i" arbitrary: i)
  case 0
  then have "i = m" by simp
  with 0 assms(3) show ?case by (intro exI [of _ "Suc i"]) (simp add: poll_loop.simps)
next
  case (Suc d)
  show ?case
  proof (cases "now (Suc i) < deadline \<and> \<not> read i")
    case True
    then have "\<forall>j<Suc i. \<not> read j" using Suc.prems(1) less_Suc_eq by auto
    moreover have "d = m - Suc i" "Suc i \<le> m" using Suc.hyps(2) by simp_all
    ultimately obtain n where
      "Suc i < n" "n \<le> Suc m" "poll_loop now read deadline (Suc i) = Some (read (n - 1), n)"
      "\<forall>j<n - 1. \<not> read j" "read (n - 1) \<or> deadline \<le> now n"
      using Suc.hyps(1) [of "Suc i"] by blast
    moreover have "poll_loop now read deadline i = poll_loop now read deadline (Suc i)"
      using True by (simp add: poll_loop.simps [of now read deadline i])
    ultimately show ?thesis by (intro exI [of _ n]) simp
  next
    case False
    with Suc.prems show ?thesis by (intro exI [of _ "Suc i"]) (auto simp: poll_loop.simps)
  qed
qed

lemma poll_returns:
  assumes "sleeping_clock now"
  shows "\<exists>n. 0 < n \<and> n \<le> 101 \<and> pollUntilApplied now read = Some (read (n - 1), n)
     \<and> (\<forall>j<n - 1. \<not> read j) \<and> (read (n - 1) \<or> now 0 + 5000 \<le> now n)"
proof -
  have "now 0 + kApplyDeadline \<le> now (Suc 100)"
    using sleeping_clock_progress [OF assms, of 100] by (simp add: kApplyDeadline_def)
  from poll_loop_spec [of 0 read 100 "now 0 + kApplyDeadline" now, OF _ _ this] show ?thesis
    by (auto simp: pollUntilApplied_def kApplyDeadline_def)
qed

text \<open>C21: The polled read-back always returns, after at most 101 reads, whatever the value does: its
  verdict is the last read, every earlier read was false, and a negative verdict is never
  premature: its last read came at or after the deadline.  So a value that is visible at any
  read is reported, and a value visible only later than five seconds is a failure.\<close>

theorem pollUntilApplied_verdict:
  assumes "sleeping_clock now"
  shows "\<exists>n. 0 < n \<and> n \<le> 101 \<and> pollUntilApplied now read = Some (read (n - 1), n)
     \<and> (\<forall>j<n - 1. \<not> read j) \<and> (\<not> read (n - 1) \<longrightarrow> now 0 + 5000 \<le> now n)"
  using poll_returns [OF assms, of read] by blast

theorem pollUntilApplied_verdict_witness:
  "\<exists>n. 0 < n \<and> n \<le> 101 \<and> pollUntilApplied (\<lambda>k. 60 * int k) (\<lambda>i. 3 \<le> i) = Some (3 \<le> n - 1, n)"
  using pollUntilApplied_verdict [of "\<lambda>k. 60 * int k" "\<lambda>i. 3 \<le> i"]
  by (auto simp: sleeping_clock_def kApplyPoll_def)

section \<open>Timed waits\<close>

text \<open>
  \<open>cv.wait_for(lock, timeout, pred)\<close>: the predicate is evaluated on the state at entry, at
  every wake-up and, when the time is over, once more.  The argument lists the states seen
  at those points.
\<close>

fun wait_for :: "('s \<Rightarrow> bool) \<Rightarrow> 's list \<Rightarrow> bool" where
  "wait_for pred [] = False"
| "wait_for pred [s] = pred s"
| "wait_for pred (s # t # ss) = (if pred s then True else wait_for pred (t # ss))"

text \<open>A condition that no step of the program undoes.\<close>

locale latch =
  fixes step :: "'s \<Rightarrow> 's \<Rightarrow> bool"
    and pred :: "'s \<Rightarrow> bool"
  assumes latched: "pred s \<Longrightarrow> step s s' \<Longrightarrow> pred s'"
begin

lemma latched_trace: "pred (hd ss) \<Longrightarrow> ss \<noteq> [] \<Longrightarrow> successively step ss \<Longrightarrow> pred (last ss)"
proof (induction ss)
  case (Cons s ss)
  show ?case
  proof (cases ss)
    case (Cons t ts)
    with Cons.prems have "pred t" "successively step ss" by (auto intro: latched)
    with Cons Cons.IH show ?thesis by simp
  qed (use Cons.prems in simp)
qed simp

text \<open>Waiting sees the effect however the wake-ups fall: the verdict is the condition at the end.\<close>

lemma wait_for_last: "ss \<noteq> [] \<Longrightarrow> successively step ss \<Longrightarrow> wait_for pred ss = pred (last ss)"
proof (induction ss rule: induct_list012)
  case (3 s t ss)
  then show ?case using latched_trace [of "s # t # ss"] by (cases "pred s") auto
qed auto

end

section \<open>Acting until a deadline\<close>

text \<open>
  \<open>while (now < deadline) { if (act()) ...break; sleep }\<close>: reading \<open>i\<close> of the clock is the test
  before the \<open>i\<close>-th attempt.  The result says whether an attempt succeeded, and the number of
  clock readings used.
\<close>

partial_function (option) deadline_loop :: "(nat \<Rightarrow> int) \<Rightarrow> (nat \<Rightarrow> bool) \<Rightarrow> int \<Rightarrow> nat \<Rightarrow> (bool \<times> nat) option" where
  "deadline_loop now act deadline i =
     (if now i < deadline
      then if act i then Some (True, Suc i) else deadline_loop now act deadline (Suc i)
      else Some (False, Suc i))"

text \<open>A clock on which every turn of a loop takes at least \<open>gap > 0\<close>.\<close>

definition advancing :: "int \<Rightarrow> (nat \<Rightarrow> int) \<Rightarrow> bool" where
  "advancing gap now \<longleftrightarrow> 0 < gap \<and> (\<forall>i. now i + gap \<le> now (Suc i))"

lemma advancing_progress: "advancing gap now \<Longrightarrow> now 0 + gap * int i \<le> now i"
proof (induction i)
  case (Suc i)
  then have "now i + gap \<le> now (Suc i)" by (simp add: advancing_def)
  with Suc show ?case by (simp add: algebra_simps)
qed simp

lemma advancing_reaches: "advancing gap now \<Longrightarrow> \<exists>m. deadline \<le> now m"
proof -
  assume a: "advancing gap now"
  have "deadline - now 0 \<le> gap * int (nat (deadline - now 0))"
  proof (cases "deadline - now 0 \<le> 0")
    case False
    have "1 * (deadline - now 0) \<le> gap * (deadline - now 0)"
      using a False by (intro mult_right_mono) (auto simp: advancing_def)
    with False show ?thesis by simp
  qed simp
  with advancing_progress [OF a, of "nat (deadline - now 0)"] show ?thesis
    by (intro exI [of _ "nat (deadline - now 0)"]) linarith
qed

lemma deadline_loop_spec:
  assumes "i \<le> m" "deadline \<le> now m"
  shows "\<exists>ok n. deadline_loop now act deadline i = Some (ok, Suc n) \<and> i \<le> n \<and> n \<le> m
     \<and> (\<forall>j. i \<le> j \<and> j < n \<longrightarrow> now j < deadline \<and> \<not> act j)
     \<and> (if ok then now n < deadline \<and> act n else deadline \<le> now n)"
  using assms
proof (induction "m - i" arbitrary: i)
  case 0
  then have "i = m" by simp
  with 0 show ?case by (intro exI [of _ False] exI [of _ i]) (auto simp: deadline_loop.simps)
next
  case (Suc d)
  consider (late) "deadline \<le> now i" | (hit) "now i < deadline" "act i" | (again) "now i < deadline" "\<not> act i" by linarith
  then show ?case
  proof cases
    case late
    with Suc.prems show ?thesis by (intro exI [of _ False] exI [of _ i]) (auto simp: deadline_loop.simps)
  next
    case hit
    with Suc.prems show ?thesis by (intro exI [of _ True] exI [of _ i]) (auto simp: deadline_loop.simps)
  next
    case again
    have "d = m - Suc i" "Suc i \<le> m" using Suc.hyps(2) by simp_all
    with Suc.hyps(1) [of "Suc i"] Suc.prems(2) obtain ok n where n:
      "deadline_loop now act deadline (Suc i) = Some (ok, Suc n)" "Suc i \<le> n" "n \<le> m"
      "\<forall>j. Suc i \<le> j \<and> j < n \<longrightarrow> now j < deadline \<and> \<not> act j"
      "if ok then now n < deadline \<and> act n else deadline \<le> now n" by blast
    have "deadline_loop now act deadline i = deadline_loop now act deadline (Suc i)"
      using again by (simp add: deadline_loop.simps [of now act deadline i])
    moreover have "now j < deadline \<and> \<not> act j" if "i \<le> j" "j < n" for j
      using n(4) again that by (cases "j = i") auto
    ultimately show ?thesis using n by (intro exI [of _ ok] exI [of _ n]) simp
  qed
qed

text \<open>On an advancing clock the loop returns, and it succeeds exactly when an attempt before the
  deadline does.\<close>

lemma deadline_loop_decides:
  assumes "advancing gap now"
  shows "\<exists>ok n. deadline_loop now act deadline i = Some (ok, Suc n) \<and> i \<le> n
     \<and> (ok \<longleftrightarrow> (\<exists>j\<ge>i. now j < deadline \<and> act j \<and> (\<forall>j'. i \<le> j' \<and> j' < j \<longrightarrow> now j' < deadline)))
     \<and> (if ok then now n < deadline \<and> act n else deadline \<le> now n)"
proof -
  obtain m where m: "deadline \<le> now m" using advancing_reaches [OF assms] by blast
  have mono: "now a \<le> now b" if "a \<le> b" for a b
    using that
  proof (induction b)
    case (Suc b)
    have "now b + gap \<le> now (Suc b)" "0 < gap" using assms by (simp_all add: advancing_def)
    with Suc show ?case by (cases "a = Suc b") auto
  qed simp
  have "deadline \<le> now (max i m)" using m mono [of m "max i m"] by simp
  from deadline_loop_spec [where i = i and m = "max i m" and now = now and deadline = deadline and act = act, OF _ this] obtain ok n where n:
    "deadline_loop now act deadline i = Some (ok, Suc n)" "i \<le> n"
    "\<forall>j. i \<le> j \<and> j < n \<longrightarrow> now j < deadline \<and> \<not> act j"
    "if ok then now n < deadline \<and> act n else deadline \<le> now n" by auto
  have "ok \<longleftrightarrow> (\<exists>j\<ge>i. now j < deadline \<and> act j \<and> (\<forall>j'. i \<le> j' \<and> j' < j \<longrightarrow> now j' < deadline))"
  proof
    assume ok
    with n show "\<exists>j\<ge>i. now j < deadline \<and> act j \<and> (\<forall>j'. i \<le> j' \<and> j' < j \<longrightarrow> now j' < deadline)"
      by (intro exI [of _ n]) simp
  next
    assume "\<exists>j\<ge>i. now j < deadline \<and> act j \<and> (\<forall>j'. i \<le> j' \<and> j' < j \<longrightarrow> now j' < deadline)"
    then obtain j where j: "i \<le> j" "now j < deadline" "act j" by blast
    show ok
    proof (rule ccontr)
      assume "\<not> ok"
      with n(4) have late: "deadline \<le> now n" by simp
      with n(3) j have "\<not> j < n" by blast
      with mono [of n j] late j(2) show False by simp
    qed
  qed
  with n show ?thesis by blast
qed

end
