(* ===== verification/Mse_Feed.thy ===== *)
theory Mse_Feed
  imports Media_Stream Polling
begin

text \<open>
  The feeds of the MSE-sink cases, \<open>src/common/MseSinkFeed.cpp\<close> (audio) and
  \<open>src/common/MseVideoSinkFeed.cpp\<close> with their headers: construction and destruction of the
  \<open>appsrc ! rialtomse*sink\<close> pipeline, the endless replay the source is fed with, the
  stream-collection report, and the drive to PLAYING.  GStreamer and the sink are
  parameters; what the feed asks of them is recorded.
\<close>

section \<open>The replay\<close>

text \<open>A pushed buffer: the frame's bytes, and the 64-bit time stamp and duration stamped on it.\<close>

record GstPush =
  push_data :: bytes
  push_pts :: "64 word"
  push_duration :: "64 word"

record MseSinkFeed =
  as_stream :: AacElementaryStream
  as_nextFrame :: nat
  as_loopCount :: nat
  as_streamDurationNs :: int
  as_eosSignalled :: bool
  as_pipeline :: bool
  as_appsrc :: bool
  as_sink :: bool
  as_sinkPad :: bool
  as_bus :: bool

record MseVideoSinkFeed =
  vs_stream :: H264AvcElementaryStream
  vs_nextFrame :: nat
  vs_loopCount :: nat
  vs_streamDurationNs :: int
  vs_eosSignalled :: bool
  vs_pipeline :: bool
  vs_appsrc :: bool
  vs_sink :: bool
  vs_sinkPad :: bool

definition buffer_of :: "EncodedFrame \<Rightarrow> int \<Rightarrow> GstPush" where
  "buffer_of frame pts = \<lparr>push_data = data frame, push_pts = word_of_int pts, push_duration = word_of_int (duration frame)\<rparr>"

definition audio_pushNextFrame :: "MseSinkFeed \<Rightarrow> MseSinkFeed \<times> GstPush option" where
  "audio_pushNextFrame f =
     (if as_eosSignalled f \<or> frames (as_stream f) = [] then (f, None)
      else
        (let f1 = (if as_nextFrame f \<ge> length (frames (as_stream f))
                   then f\<lparr>as_nextFrame := 0, as_loopCount := as_loopCount f + 1\<rparr> else f);
             frame = frames (as_stream f1) ! as_nextFrame f1;
             f2 = f1\<lparr>as_nextFrame := as_nextFrame f1 + 1\<rparr>;
             pts = timeStamp frame + int (as_loopCount f2) * as_streamDurationNs f2
         in (f2, Some (buffer_of frame pts))))"

definition video_pushNextFrame :: "MseVideoSinkFeed \<Rightarrow> MseVideoSinkFeed \<times> GstPush option" where
  "video_pushNextFrame f =
     (if vs_eosSignalled f \<or> avc_frames (vs_stream f) = [] then (f, None)
      else
        (let f1 = (if vs_nextFrame f \<ge> length (avc_frames (vs_stream f))
                   then f\<lparr>vs_nextFrame := 0, vs_loopCount := vs_loopCount f + 1\<rparr> else f);
             frame = avc_frames (vs_stream f1) ! vs_nextFrame f1;
             f2 = f1\<lparr>vs_nextFrame := vs_nextFrame f1 + 1\<rparr>;
             pts = timeStamp frame + int (vs_loopCount f2) * vs_streamDurationNs f2
         in (f2, Some (buffer_of frame pts))))"

text \<open>\<open>signalEos\<close>: whether \<open>gst_app_src_end_of_stream\<close> is called.\<close>

definition audio_signalEos :: "MseSinkFeed \<Rightarrow> MseSinkFeed \<times> bool" where
  "audio_signalEos f =
     (if \<not> as_eosSignalled f \<and> as_appsrc f then (f\<lparr>as_eosSignalled := True\<rparr>, True) else (f, False))"

definition video_signalEos :: "MseVideoSinkFeed \<Rightarrow> MseVideoSinkFeed \<times> bool" where
  "video_signalEos f =
     (if \<not> vs_eosSignalled f \<and> vs_appsrc f then (f\<lparr>vs_eosSignalled := True\<rparr>, True) else (f, False))"

section \<open>Construction and destruction\<close>

datatype resource = Pipeline | Appsrc | Sink | SinkPad | Bus

text \<open>Which GStreamer objects the constructor gets, and whether the link succeeds.\<close>

record gst_env =
  has_pipeline :: bool
  has_appsrc :: bool
  has_sink :: bool
  link_ok :: bool

definition MseSinkFeed_new :: "gst_env \<Rightarrow> AacElementaryStream \<Rightarrow> MseSinkFeed" where
  "MseSinkFeed_new g s =
     (let f = \<lparr>as_stream = s, as_nextFrame = 0, as_loopCount = 0, as_streamDurationNs = aac_totalDurationNs s,
               as_eosSignalled = False, as_pipeline = has_pipeline g, as_appsrc = has_appsrc g,
               as_sink = has_sink g, as_sinkPad = False, as_bus = False\<rparr>
      in if \<not> as_pipeline f \<or> \<not> as_appsrc f \<or> \<not> as_sink f then f
         else f\<lparr>as_sinkPad := True, as_bus := True\<rparr>)"

definition MseVideoSinkFeed_new :: "gst_env \<Rightarrow> H264AvcElementaryStream \<Rightarrow> MseVideoSinkFeed" where
  "MseVideoSinkFeed_new g s =
     (let f = \<lparr>vs_stream = s, vs_nextFrame = 0, vs_loopCount = 0, vs_streamDurationNs = avc_totalDurationNs s,
               vs_eosSignalled = False, vs_pipeline = has_pipeline g, vs_appsrc = has_appsrc g,
               vs_sink = has_sink g, vs_sinkPad = False\<rparr>
      in if \<not> vs_pipeline f \<or> \<not> vs_appsrc f \<or> \<not> vs_sink f then f
         else f\<lparr>vs_sinkPad := True\<rparr>)"

definition audio_isValid :: "MseSinkFeed \<Rightarrow> bool" where
  "audio_isValid f \<longleftrightarrow> as_pipeline f \<and> as_appsrc f \<and> as_sink f"

definition video_isValid :: "MseVideoSinkFeed \<Rightarrow> bool" where
  "video_isValid f \<longleftrightarrow> vs_pipeline f \<and> vs_appsrc f \<and> vs_sink f"

text \<open>What the destructor releases: unreferencing the pipeline drops the elements it owns, which
  are those the constructor added to it.\<close>

definition audio_destroy :: "MseSinkFeed \<Rightarrow> resource list" where
  "audio_destroy f =
     (if as_sinkPad f then [SinkPad] else []) @ (if as_bus f then [Bus] else [])
     @ (if as_pipeline f then Pipeline # (if audio_isValid f then [Appsrc, Sink] else []) else [])"

definition video_destroy :: "MseVideoSinkFeed \<Rightarrow> resource list" where
  "video_destroy f =
     (if vs_sinkPad f then [SinkPad] else [])
     @ (if vs_pipeline f then Pipeline # (if video_isValid f then [Appsrc, Sink] else []) else [])"

text \<open>What the constructor sets on the source it could link up, beside the time format, the
  stream type and the callbacks, which are the same for every feed: the caps the source
  advertises, with the fields in the order of the code, and its own bound on buffered bytes.\<close>

datatype caps_value = CapsInt int | CapsString string | CapsFraction int int | CapsBuffer bytes

record appsrc_config =
  media_type :: string
  caps_fields :: "(string \<times> caps_value) list"
  is_live :: bool
  max_bytes :: nat
  block :: bool

definition audio_appsrc :: "MseSinkFeed \<Rightarrow> appsrc_config option" where
  "audio_appsrc f =
     (if \<not> as_pipeline f \<or> \<not> as_appsrc f \<or> \<not> as_sink f then None
      else Some \<lparr>media_type = ''audio/mpeg'',
        caps_fields = [(''mpegversion'', CapsInt 4), (''stream-format'', CapsString ''adts''),
          (''rate'', CapsInt (sint (sampleRate (as_stream f)))), (''channels'', CapsInt (sint (channels (as_stream f))))],
        is_live = False, max_bytes = 16 * 1024, block = False\<rparr>)"

definition video_appsrc :: "MseVideoSinkFeed \<Rightarrow> appsrc_config option" where
  "video_appsrc f =
     (if \<not> vs_pipeline f \<or> \<not> vs_appsrc f \<or> \<not> vs_sink f then None
      else Some \<lparr>media_type = ''video/x-h264'',
        caps_fields = [(''stream-format'', CapsString ''avc''), (''alignment'', CapsString ''au''),
          (''width'', CapsInt (sint (width (vs_stream f)))), (''height'', CapsInt (sint (height (vs_stream f)))),
          (''framerate'', CapsFraction 25 1), (''codec_data'', CapsBuffer (codecData (vs_stream f)))],
        is_live = False, max_bytes = 64 * 1024, block = False\<rparr>)"

section \<open>The stream collection and the drive to PLAYING\<close>

datatype GstStreamType = STREAM_AUDIO | STREAM_VIDEO | STREAM_TEXT

text \<open>\<open>addStreams(count, type, prefix)\<close>: streams \<open>prefix-0\<close>, \<open>prefix-1\<close>, ...\<close>

definition addStreams :: "int \<Rightarrow> GstStreamType \<Rightarrow> string \<Rightarrow> (string \<times> GstStreamType) list" where
  "addStreams count ty pre = map (\<lambda>i. (pre @ ''-'' @ to_dec i, ty)) [0..<nat count]"

definition stream_collection :: "int \<Rightarrow> int \<Rightarrow> int \<Rightarrow> (string \<times> GstStreamType) list" where
  "stream_collection audioStreams videoStreams textStreams =
     addStreams audioStreams STREAM_AUDIO ''audio'' @ addStreams videoStreams STREAM_VIDEO ''video''
     @ addStreams textStreams STREAM_TEXT ''text''"

text \<open>\<open>pad_accepts\<close> is \<open>gst_pad_send_event\<close> on the sink pad with the collection event.\<close>

definition sendEventToSink :: "MseSinkFeed \<Rightarrow> ('e \<Rightarrow> bool) \<Rightarrow> 'e \<Rightarrow> bool" where
  "sendEventToSink f pad_accepts event = (if \<not> as_sinkPad f then False else pad_accepts event)"

definition reportStreamCollection ::
  "MseSinkFeed \<Rightarrow> ((string \<times> GstStreamType) list \<Rightarrow> bool) \<Rightarrow> int \<Rightarrow> int \<Rightarrow> int \<Rightarrow> bool" where
  "reportStreamCollection f pad_accepts audioStreams videoStreams textStreams =
     sendEventToSink f pad_accepts (stream_collection audioStreams videoStreams textStreams)"

definition reportVideoStream :: "MseVideoSinkFeed \<Rightarrow> ((string \<times> GstStreamType) list \<Rightarrow> bool) \<Rightarrow> bool" where
  "reportVideoStream f pad_accepts =
     (if \<not> vs_sinkPad f then False else pad_accepts [(''video-0'', STREAM_VIDEO)])"

text \<open>
  The pipeline's answers: whether the change to PLAYING is refused outright, whether the
  collection is accepted at attempt \<open>i\<close>, and whether a wait of so many milliseconds ends in
  PLAYING.
\<close>

record pipeline_env =
  set_state_failure :: bool
  accepts_at :: "nat \<Rightarrow> (string \<times> GstStreamType) list \<Rightarrow> bool"
  playing_within :: "int \<Rightarrow> bool"

text \<open>Readings of the clock: 0 fixes the deadline, \<open>i + 1\<close> is the test before attempt \<open>i\<close>, and
  the reading after the last one used by the loop is \<open>now\<close>.\<close>

definition drive_to_playing :: "(nat \<Rightarrow> int) \<Rightarrow> pipeline_env \<Rightarrow> (nat \<Rightarrow> bool) \<Rightarrow> int \<Rightarrow> bool option" where
  "drive_to_playing clock p report timeout =
     (let deadline = clock 0 + timeout
      in if set_state_failure p then Some False
         else case deadline_loop (\<lambda>i. clock (Suc i)) report deadline 0 of
           None \<Rightarrow> None
         | Some (reported, n) \<Rightarrow>
             if \<not> reported then Some False
             else (let now = clock (Suc n)
                   in if now \<ge> deadline then Some False else Some (playing_within p (deadline - now))))"

definition audio_startPlaying :: "(nat \<Rightarrow> int) \<Rightarrow> pipeline_env \<Rightarrow> MseSinkFeed \<Rightarrow> int \<Rightarrow> bool option" where
  "audio_startPlaying clock p f timeout =
     (if \<not> audio_isValid f then Some False
      else drive_to_playing clock p (\<lambda>i. reportStreamCollection f (accepts_at p i) 1 0 0) timeout)"

definition video_startPlaying :: "(nat \<Rightarrow> int) \<Rightarrow> pipeline_env \<Rightarrow> MseVideoSinkFeed \<Rightarrow> int \<Rightarrow> bool option" where
  "video_startPlaying clock p f timeout =
     (if \<not> video_isValid f then Some False
      else drive_to_playing clock p (\<lambda>i. reportVideoStream f (accepts_at p i)) timeout)"

text \<open>\<open>waitForBusMessage\<close>: the first message of the wanted types the bus pops within the time,
  null without a bus.\<close>

definition waitForBusMessage :: "MseSinkFeed \<Rightarrow> (int \<Rightarrow> 'm option) \<Rightarrow> int \<Rightarrow> 'm option" where
  "waitForBusMessage f timed_pop timeoutMs = (if \<not> as_bus f then None else timed_pop (timeoutMs * 1000000))"

section \<open>The contract of a replayed source\<close>

text \<open>Both feeds keep a cursor \<open>(nextFrame, loopCount)\<close> over their frames; a push wraps it.\<close>

definition wrap_cursor :: "nat \<Rightarrow> nat \<times> nat \<Rightarrow> nat \<times> nat" where
  "wrap_cursor n c = (if fst c \<ge> n then (0, snd c + 1) else c)"

lemma wrap_next:
  assumes "0 < N"
  shows "wrap_cursor N (n mod N + 1, n div N) = (Suc n mod N, Suc n div N)"
proof (cases "Suc (n mod N) = N")
  case False
  then have "\<not> N \<le> Suc (n mod N)" using mod_less_divisor [OF assms, of n] by linarith
  with False show ?thesis by (simp add: wrap_cursor_def mod_Suc div_Suc)
qed (simp add: wrap_cursor_def mod_Suc div_Suc)

locale replay_source =
  fixes push :: "'s \<Rightarrow> 's \<times> GstPush option"
    and fr :: "'s \<Rightarrow> EncodedFrame list"
    and cursor :: "'s \<Rightarrow> nat \<times> nat"
    and period :: "'s \<Rightarrow> int"
    and ended :: "'s \<Rightarrow> bool"
  assumes push_silent: "ended s \<or> fr s = [] \<Longrightarrow> push s = (s, None)"
    and push_next: "\<not> ended s \<Longrightarrow> fr s \<noteq> [] \<Longrightarrow> wrap_cursor (length (fr s)) (cursor s) = (k, l) \<Longrightarrow>
      \<exists>s'. push s = (s', Some (buffer_of (fr s ! k) (timeStamp (fr s ! k) + int l * period s)))
         \<and> fr s' = fr s \<and> cursor s' = (k + 1, l) \<and> period s' = period s \<and> \<not> ended s'"
begin

text \<open>The buffers of \<open>n\<close> pushes.\<close>

primrec pushes :: "nat \<Rightarrow> 's \<Rightarrow> GstPush option list" where
  "pushes 0 s = []"
| "pushes (Suc n) s = snd (push s) # pushes n (fst (push s))"

lemma length_pushes [simp]: "length (pushes n s) = n"
  by (induction n arbitrary: s) auto

lemma pushes_silent: "ended s \<or> fr s = [] \<Longrightarrow> pushes n s = replicate n None"
  by (induction n) (simp_all add: push_silent)

lemma pushes_from:
  "\<not> ended s \<Longrightarrow> fr s \<noteq> [] \<Longrightarrow> wrap_cursor (length (fr s)) (cursor s) = (k mod length (fr s), k div length (fr s)) \<Longrightarrow>
     j < n \<Longrightarrow> pushes n s ! j = Some (buffer_of (fr s ! ((k + j) mod length (fr s)))
        (timeStamp (fr s ! ((k + j) mod length (fr s))) + int ((k + j) div length (fr s)) * period s))"
proof (induction n arbitrary: s k j)
  case (Suc n)
  let ?N = "length (fr s)"
  obtain s' where s': "push s = (s', Some (buffer_of (fr s ! (k mod ?N)) (timeStamp (fr s ! (k mod ?N)) + int (k div ?N) * period s)))"
    "fr s' = fr s" "cursor s' = (k mod ?N + 1, k div ?N)" "period s' = period s" "\<not> ended s'"
    using push_next [OF Suc.prems(1-3)] by blast
  have N: "0 < ?N" using Suc.prems(2) by simp
  have wrap: "wrap_cursor ?N (cursor s') = (Suc k mod ?N, Suc k div ?N)"
    using wrap_next [OF N] by (simp add: s'(3))
  show ?case
  proof (cases j)
    case 0
    with s' show ?thesis by simp
  next
    case (Suc j')
    with Suc.IH [of s' "Suc k" j'] s' wrap Suc.prems show ?thesis by simp
  qed
qed simp

lemma pushes_replay:
  assumes "\<not> ended s" "fr s \<noteq> []" "cursor s = (0, 0)" "j < n"
  shows "pushes n s ! j = Some (buffer_of (fr s ! (j mod length (fr s)))
        (timeStamp (fr s ! (j mod length (fr s))) + int (j div length (fr s)) * period s))"
  using pushes_from [of s 0 j n] assms by (simp add: wrap_cursor_def)

end

interpretation audio: replay_source audio_pushNextFrame "\<lambda>f. frames (as_stream f)"
  "\<lambda>f. (as_nextFrame f, as_loopCount f)" as_streamDurationNs as_eosSignalled
  by unfold_locales (auto simp: audio_pushNextFrame_def wrap_cursor_def Let_def)

interpretation video: replay_source video_pushNextFrame "\<lambda>f. avc_frames (vs_stream f)"
  "\<lambda>f. (vs_nextFrame f, vs_loopCount f)" vs_streamDurationNs vs_eosSignalled
  by unfold_locales (auto simp: video_pushNextFrame_def wrap_cursor_def Let_def)

section \<open>Properties of the feeds\<close>

definition all_there :: gst_env where
  "all_there = \<lparr>has_pipeline = True, has_appsrc = True, has_sink = True, link_ok = True\<rparr>"

text \<open>The endless replay in closed form: push \<open>j\<close> of a new feed, audio or video, carries frame
  \<open>j mod n\<close> of the \<open>n\<close> frames, stamped with the frame's time plus \<open>j div n\<close> times the
  stream's total duration, and the frame's own duration; no push is ever skipped.\<close>

lemma replay_closed_form:
  assumes "frames s \<noteq> []" "avc_frames v \<noteq> []" "j < n"
  shows "audio.pushes n (MseSinkFeed_new g s) ! j =
       Some (buffer_of (frames s ! (j mod length (frames s)))
         (timeStamp (frames s ! (j mod length (frames s))) + int (j div length (frames s)) * aac_totalDurationNs s))
   \<and> video.pushes n (MseVideoSinkFeed_new g v) ! j =
       Some (buffer_of (avc_frames v ! (j mod length (avc_frames v)))
         (timeStamp (avc_frames v ! (j mod length (avc_frames v))) + int (j div length (avc_frames v)) * avc_totalDurationNs v))"
proof -
  have "as_stream (MseSinkFeed_new g s) = s" "\<not> as_eosSignalled (MseSinkFeed_new g s)"
    "as_nextFrame (MseSinkFeed_new g s) = 0" "as_loopCount (MseSinkFeed_new g s) = 0"
    "as_streamDurationNs (MseSinkFeed_new g s) = aac_totalDurationNs s"
    and "vs_stream (MseVideoSinkFeed_new g v) = v" "\<not> vs_eosSignalled (MseVideoSinkFeed_new g v)"
    "vs_nextFrame (MseVideoSinkFeed_new g v) = 0" "vs_loopCount (MseVideoSinkFeed_new g v) = 0"
    "vs_streamDurationNs (MseVideoSinkFeed_new g v) = avc_totalDurationNs v"
    by (simp_all add: MseSinkFeed_new_def MseVideoSinkFeed_new_def Let_def)
  then show ?thesis
    using audio.pushes_replay [of "MseSinkFeed_new g s" j n] video.pushes_replay [of "MseVideoSinkFeed_new g v" j n] assms
    by simp
qed

definition two_units :: AacElementaryStream where
  "two_units = \<lparr>frames = [\<lparr>data = [1], timeStamp = 0, duration = 20\<rparr>, \<lparr>data = [2], timeStamp = 20, duration = 20\<rparr>],
     sampleRate = 48000, channels = 2\<rparr>"

definition one_picture :: H264AvcElementaryStream where
  "one_picture = \<lparr>avc_frames = [\<lparr>data = [7], timeStamp = 5, duration = 40\<rparr>], codecData = [1], width = 320, height = 240\<rparr>"

lemma replay_closed_form_witness:
  "audio.pushes 4 (MseSinkFeed_new all_there two_units) ! 3 = Some \<lparr>push_data = [2], push_pts = 60, push_duration = 20\<rparr>
   \<and> video.pushes 4 (MseVideoSinkFeed_new all_there one_picture) ! 3 = Some \<lparr>push_data = [7], push_pts = 125, push_duration = 40\<rparr>"
proof -
  have l: "length (frames two_units) = 2" "length (avc_frames one_picture) = 1"
    and d: "aac_totalDurationNs two_units = 40" "avc_totalDurationNs one_picture = 40"
    and f: "frames two_units ! 1 = \<lparr>data = [2], timeStamp = 20, duration = 20\<rparr>"
      "avc_frames one_picture ! 0 = \<lparr>data = [7], timeStamp = 5, duration = 40\<rparr>"
    by (simp_all add: two_units_def one_picture_def aac_totalDurationNs_def avc_totalDurationNs_def add_duration_def)
  have m: "(3 :: nat) mod 2 = 1" "(3 :: nat) div 2 = 1" by simp_all
  have "frames two_units \<noteq> []" "avc_frames one_picture \<noteq> []" by (simp_all add: two_units_def one_picture_def)
  from replay_closed_form [OF this, of 3 4 all_there] show ?thesis
    unfolding l d m by (simp only: f buffer_of_def) (simp add: f)
qed

text \<open>The time stamp of push \<open>j\<close>, before it is cut to 64 bits.\<close>

definition replay_pts :: "EncodedFrame list \<Rightarrow> int \<Rightarrow> nat \<Rightarrow> int" where
  "replay_pts fs d j = timeStamp (fs ! (j mod length fs)) + int (j div length fs) * d"

lemma replay_pts_next:
  assumes "fs \<noteq> []"
  shows "(\<forall>j. replay_pts fs d j < replay_pts fs d (Suc j)) \<longleftrightarrow>
     (\<forall>k. Suc k < length fs \<longrightarrow> timeStamp (fs ! k) < timeStamp (fs ! Suc k))
     \<and> timeStamp (last fs) < timeStamp (hd fs) + d"
    (is "?mono \<longleftrightarrow> ?inner \<and> ?wrap")
proof
  have N: "0 < length fs" using assms by simp
  assume mono: ?mono
  have "timeStamp (fs ! k) < timeStamp (fs ! Suc k)" if "Suc k < length fs" for k
    using spec [OF mono, of k] that by (simp add: replay_pts_def)
  moreover have "?wrap"
    using spec [OF mono, of "length fs - 1"] N
    by (simp add: replay_pts_def last_conv_nth hd_conv_nth assms)
  ultimately show "?inner \<and> ?wrap" by blast
next
  have N: "0 < length fs" using assms by simp
  assume r: "?inner \<and> ?wrap"
  show ?mono
  proof
    fix j
    show "replay_pts fs d j < replay_pts fs d (Suc j)"
    proof (cases "Suc (j mod length fs) = length fs")
      case True
      then have "j mod length fs = length fs - 1" "Suc j mod length fs = 0" "Suc j div length fs = Suc (j div length fs)"
        using N by (simp_all add: mod_Suc div_Suc)
      with r show ?thesis
        by (simp add: replay_pts_def last_conv_nth hd_conv_nth assms algebra_simps)
    next
      case False
      then have "Suc (j mod length fs) < length fs" using mod_less_divisor [OF N, of j] by linarith
      moreover have "Suc j mod length fs = Suc (j mod length fs)" "Suc j div length fs = j div length fs"
        using False by (simp_all add: mod_Suc div_Suc)
      ultimately show ?thesis using r by (simp add: replay_pts_def)
    qed
  qed
qed

text \<open>The time stamps of the replay increase for ever exactly when the frames' own stamps
  increase and the stream's total duration exceeds the distance from the first stamp to the
  last; a stream with a gap wider than that, or with reordered frames, steps back in time at
  the loop.\<close>

lemma replay_monotone_iff:
  assumes "frames s \<noteq> []"
  shows "(\<forall>j. replay_pts (frames s) (aac_totalDurationNs s) j < replay_pts (frames s) (aac_totalDurationNs s) (Suc j)) \<longleftrightarrow>
     (\<forall>k. Suc k < length (frames s) \<longrightarrow> timeStamp (frames s ! k) < timeStamp (frames s ! Suc k))
     \<and> timeStamp (last (frames s)) < timeStamp (hd (frames s)) + aac_totalDurationNs s"
  using assms by (rule replay_pts_next)

lemma replay_monotone_iff_witness:
  "\<not> (\<forall>j. replay_pts [\<lparr>data = [1], timeStamp = 0, duration = 10\<rparr>, \<lparr>data = [2], timeStamp = 100, duration = 10\<rparr>] 20 j
        < replay_pts [\<lparr>data = [1], timeStamp = 0, duration = 10\<rparr>, \<lparr>data = [2], timeStamp = 100, duration = 10\<rparr>] 20 (Suc j))"
  using replay_monotone_iff [of "\<lparr>frames = [\<lparr>data = [1], timeStamp = 0, duration = 10\<rparr>, \<lparr>data = [2], timeStamp = 100, duration = 10\<rparr>],
      sampleRate = 48000, channels = 2\<rparr>"]
  by (simp add: aac_totalDurationNs_def add_duration_def)

text \<open>After the end of stream is signalled nothing more is pushed, and the signal reaches the
  source once however often it is given.\<close>

lemma eos_is_final:
  assumes "as_appsrc f" "\<not> as_eosSignalled f" "vs_appsrc w" "\<not> vs_eosSignalled w"
  shows "snd (audio_signalEos f) \<and> \<not> snd (audio_signalEos (fst (audio_signalEos f)))
     \<and> audio.pushes n (fst (audio_signalEos f)) = replicate n None
     \<and> snd (video_signalEos w) \<and> \<not> snd (video_signalEos (fst (video_signalEos w)))
     \<and> video.pushes n (fst (video_signalEos w)) = replicate n None"
  using assms audio.pushes_silent [of "fst (audio_signalEos f)" n] video.pushes_silent [of "fst (video_signalEos w)" n]
  by (simp add: audio_signalEos_def video_signalEos_def)

lemma eos_is_final_witness:
  "audio.pushes 2 (fst (audio_signalEos (MseSinkFeed_new all_there two_units))) = [None, None]"
  using eos_is_final [of "MseSinkFeed_new all_there two_units" "MseVideoSinkFeed_new all_there one_picture" 2]
  by (simp add: MseSinkFeed_new_def MseVideoSinkFeed_new_def all_there_def numeral_2_eq_2)

definition created :: "gst_env \<Rightarrow> resource list" where
  "created g = (if has_pipeline g then [Pipeline] else []) @ (if has_appsrc g then [Appsrc] else [])
     @ (if has_sink g then [Sink] else [])"

text \<open>Validity and ownership.  A feed is valid exactly when all three elements were created,
  whether or not they were linked; a valid feed's destructor releases everything it
  holds, each once; but after a partial construction the source or sink that was created is
  never released, since only the pipeline's unreference would drop it and it was never added
  to the pipeline.\<close>

lemma feed_ownership:
  "(audio_isValid (MseSinkFeed_new g s) \<longleftrightarrow> has_pipeline g \<and> has_appsrc g \<and> has_sink g)
   \<and> (video_isValid (MseVideoSinkFeed_new g v) \<longleftrightarrow> has_pipeline g \<and> has_appsrc g \<and> has_sink g)
   \<and> distinct (audio_destroy (MseSinkFeed_new g s)) \<and> distinct (video_destroy (MseVideoSinkFeed_new g v))
   \<and> (if audio_isValid (MseSinkFeed_new g s)
      then set (audio_destroy (MseSinkFeed_new g s)) = {Pipeline, Appsrc, Sink, SinkPad, Bus}
         \<and> set (video_destroy (MseVideoSinkFeed_new g v)) = {Pipeline, Appsrc, Sink, SinkPad}
      else set (created g) - set (audio_destroy (MseSinkFeed_new g s)) = set (created g) - {Pipeline}
         \<and> set (created g) - set (video_destroy (MseVideoSinkFeed_new g v)) = set (created g) - {Pipeline})"
  by (auto simp: audio_isValid_def video_isValid_def MseSinkFeed_new_def MseVideoSinkFeed_new_def Let_def
      audio_destroy_def video_destroy_def created_def)

lemma startPlaying_decides:
  assumes "advancing gap (\<lambda>i. clock (Suc i))" "\<forall>i. clock i \<le> clock (Suc i)"
  shows "\<exists>b. audio_startPlaying clock p f timeout = Some b
     \<and> (b \<longrightarrow> audio_isValid f \<and> \<not> set_state_failure p
           \<and> (\<exists>i. clock (Suc i) < clock 0 + timeout \<and> accepts_at p i [(''audio-0'', STREAM_AUDIO)]
                \<and> 0 < clock 0 + timeout - clock (i + 2)
                \<and> playing_within p (clock 0 + timeout - clock (i + 2))))
     \<and> ((\<forall>i c. \<not> accepts_at p i c) \<longrightarrow> \<not> b)"
proof -
  let ?d = "clock 0 + timeout"
  let ?act = "\<lambda>i. reportStreamCollection f (accepts_at p i) 1 0 0"
  obtain ok n where loop: "deadline_loop (\<lambda>i. clock (Suc i)) ?act ?d 0 = Some (ok, Suc n)"
    "if ok then clock (Suc n) < ?d \<and> ?act n else ?d \<le> clock (Suc n)"
    using deadline_loop_decides [OF assms(1), of ?act ?d 0] by blast
  have coll: "stream_collection 1 0 0 = [(''audio-0'', STREAM_AUDIO)]"
    by code_simp
  have act: "?act i \<longleftrightarrow> as_sinkPad f \<and> accepts_at p i [(''audio-0'', STREAM_AUDIO)]" for i
    by (simp add: reportStreamCollection_def sendEventToSink_def coll)
  show ?thesis
  proof (cases "audio_isValid f \<and> \<not> set_state_failure p \<and> ok")
    case False
    then show ?thesis
      using loop by (auto simp: audio_startPlaying_def drive_to_playing_def Let_def)
  next
    case True
    then have "audio_startPlaying clock p f timeout =
        Some (if clock (n + 2) \<ge> ?d then False else playing_within p (?d - clock (n + 2)))"
      using loop by (simp add: audio_startPlaying_def drive_to_playing_def Let_def)
    with True loop(2) act show ?thesis by auto
  qed
qed

text \<open>The drive to PLAYING always returns, and it returns true only for a valid feed whose state
  change was not refused, whose collection of one audio stream the sink accepted before the
  deadline, and which was still before the deadline when it waited for PLAYING; if the sink
  never accepts the collection it returns false.\<close>

lemma startPlaying_verdict:
  assumes "advancing gap (\<lambda>i. clock (Suc i))" "\<forall>i. clock i \<le> clock (Suc i)"
  shows "\<exists>b. audio_startPlaying clock p f timeout = Some b
     \<and> (b \<longrightarrow> audio_isValid f \<and> \<not> set_state_failure p
           \<and> (\<exists>i. clock (Suc i) < clock 0 + timeout \<and> accepts_at p i [(''audio-0'', STREAM_AUDIO)]
                \<and> 0 < clock 0 + timeout - clock (i + 2)
                \<and> playing_within p (clock 0 + timeout - clock (i + 2))))
     \<and> ((\<forall>i c. \<not> accepts_at p i c) \<longrightarrow> \<not> b)"
  using assms by (rule startPlaying_decides)

definition quick_pipeline :: pipeline_env where
  "quick_pipeline = \<lparr>set_state_failure = False, accepts_at = (\<lambda>i c. i = 2), playing_within = (\<lambda>t. 100 \<le> t)\<rparr>"

lemma startPlaying_verdict_witness:
  "\<exists>b. audio_startPlaying (\<lambda>k. 20 * int k) quick_pipeline (MseSinkFeed_new all_there two_units) 500 = Some b"
  using startPlaying_verdict [of 20 "\<lambda>k. 20 * int k" quick_pipeline "MseSinkFeed_new all_there two_units" 500]
  by (auto simp: advancing_def)

end
