(* ===== verification/Sink_Race.thy ===== *)
theory Sink_Race
  imports Mse_Feed
begin

text \<open>
  The sink feeds under concurrency.  \<open>needData\<close> runs on the source's streaming thread and
  \<open>signalEos\<close> on the test thread, with nothing to order them: each is cut at its call into
  GStreamer, and the pieces interleave.  The flag they share is a plain \<open>bool\<close>; a read of it is
  taken to see the last write.
\<close>

section \<open>Steps\<close>

datatype source_call = PushBuffer GstPush | EndOfStream

text \<open>\<open>in_flight\<close>: the buffer the streaming thread has built and not pushed yet; \<open>eos_pending\<close>: the test
  thread has set the flag and not made its call yet; \<open>source_log\<close>: the calls on the source.\<close>

record 's source_run =
  feed_now :: 's
  in_flight :: "GstPush option"
  eos_pending :: bool
  source_log :: "source_call list"

definition start_run :: "'s \<Rightarrow> 's source_run" where
  "start_run s = \<lparr>feed_now = s, in_flight = None, eos_pending = False, source_log = []\<rparr>"

inductive source_step ::
  "('s \<Rightarrow> 's \<times> GstPush option) \<Rightarrow> ('s \<Rightarrow> 's \<times> bool) \<Rightarrow> 's source_run \<Rightarrow> 's source_run \<Rightarrow> bool"
  for push signal where
  need_data: "in_flight r = None \<Longrightarrow> push (feed_now r) = (s, b) \<Longrightarrow>
     source_step push signal r (r\<lparr>feed_now := s, in_flight := b\<rparr>)"
| push_buffer: "in_flight r = Some b \<Longrightarrow>
     source_step push signal r (r\<lparr>in_flight := None, source_log := source_log r @ [PushBuffer b]\<rparr>)"
| signal_flag: "\<not> eos_pending r \<Longrightarrow> signal (feed_now r) = (s, called) \<Longrightarrow>
     source_step push signal r (r\<lparr>feed_now := s, eos_pending := called\<rparr>)"
| signal_call: "eos_pending r \<Longrightarrow>
     source_step push signal r (r\<lparr>eos_pending := False, source_log := source_log r @ [EndOfStream]\<rparr>)"

abbreviation source_reach where
  "source_reach push signal s r \<equiv> (source_step push signal)\<^sup>*\<^sup>* (start_run s) r"

section \<open>What the calls are\<close>

fun pushed :: "source_call list \<Rightarrow> GstPush list" where
  "pushed [] = []"
| "pushed (PushBuffer b # cs) = b # pushed cs"
| "pushed (EndOfStream # cs) = pushed cs"

lemma pushed_append [simp]: "pushed (cs @ ds) = pushed cs @ pushed ds"
  by (induction cs rule: pushed.induct) simp_all

definition after_eos :: "source_call list \<Rightarrow> source_call list" where
  "after_eos cs = tl (dropWhile (\<lambda>c. c \<noteq> EndOfStream) cs)"

definition in_flight_list :: "'s source_run \<Rightarrow> GstPush list" where
  "in_flight_list r = (case in_flight r of None \<Rightarrow> [] | Some b \<Rightarrow> [b])"

lemma after_eos_append:
  "after_eos (cs @ ds) = (if EndOfStream \<in> set cs then after_eos cs @ ds else after_eos ds)"
proof (induction cs)
  case (Cons c cs)
  then show ?case by (cases c) (auto simp: after_eos_def)
qed simp

lemma after_eos_short [simp]: "after_eos [] = []" "after_eos [c] = []"
  by (simp_all add: after_eos_def)

lemma after_eos_none: "EndOfStream \<notin> set cs \<Longrightarrow> after_eos cs = []"
  by (induction cs) (auto simp: after_eos_def)

text \<open>The calls of a run over the frames \<open>fs\<close>, whose stream lasts \<open>d\<close>: the buffers are the replay from
  its start, none missed, doubled or out of order; the stream is ended at most once; and at most
  one buffer, the one already in the streaming thread's hands, follows the end of the stream.\<close>

definition orderly :: "EncodedFrame list \<Rightarrow> int \<Rightarrow> source_call list \<Rightarrow> bool" where
  "orderly fs d cs \<longleftrightarrow>
     pushed cs = map (\<lambda>j. buffer_of (fs ! (j mod length fs)) (replay_pts fs d j)) [0..<length (pushed cs)]
     \<and> length (filter (\<lambda>c. c = EndOfStream) cs) \<le> 1 \<and> length (after_eos cs) \<le> 1"

section \<open>The invariant of the interleavings\<close>

locale eos_source = replay_source push fr cursor period ended
  for push :: "'s \<Rightarrow> 's \<times> GstPush option" and fr cursor period ended +
  fixes signal :: "'s \<Rightarrow> 's \<times> bool"
  assumes signal_off: "signal s = (s', False) \<Longrightarrow> s' = s"
    and signal_on: "signal s = (s', True) \<Longrightarrow> \<not> ended s \<and> ended s' \<and> fr s' = fr s \<and> cursor s' = cursor s \<and> period s' = period s"
begin

text \<open>Buffer \<open>j\<close> of the replay of \<open>s\<close>.\<close>

definition replay_buffer :: "'s \<Rightarrow> nat \<Rightarrow> GstPush" where
  "replay_buffer s j = buffer_of (fr s ! (j mod length (fr s))) (replay_pts (fr s) (period s) j)"

definition race_inv :: "'s \<Rightarrow> 's source_run \<Rightarrow> bool" where
  "race_inv s r \<longleftrightarrow>
     (let bs = pushed (source_log r) @ in_flight_list r; n = length bs; N = length (fr s) in
        bs = map (replay_buffer s) [0..<n]
        \<and> fr (feed_now r) = fr s \<and> period (feed_now r) = period s
        \<and> wrap_cursor N (cursor (feed_now r)) = (n mod N, n div N))
     \<and> length (filter (\<lambda>c. c = EndOfStream) (source_log r)) + (if eos_pending r then 1 else 0)
         = (if ended (feed_now r) then 1 else 0)
     \<and> length (after_eos (source_log r)) + length (in_flight_list r) \<le> 1"

lemma race_inv_start:
  "\<not> ended s \<Longrightarrow> fr s \<noteq> [] \<Longrightarrow> cursor s = (0, 0) \<Longrightarrow> race_inv s (start_run s)"
  by (simp add: race_inv_def start_run_def in_flight_list_def after_eos_def wrap_cursor_def Let_def)

lemma race_inv_step:
  assumes "source_step push signal r r'" "race_inv s r" "fr s \<noteq> []"
  shows "race_inv s r'"
  using assms(1)
proof cases
  case (need_data t b)
  have fl: "in_flight_list r = []" using need_data by (simp add: in_flight_list_def)
  let ?n = "length (pushed (source_log r))"
  have inv: "pushed (source_log r) = map (replay_buffer s) [0..<?n]" "fr (feed_now r) = fr s" "period (feed_now r) = period s"
    "wrap_cursor (length (fr s)) (cursor (feed_now r)) = (?n mod length (fr s), ?n div length (fr s))"
    using assms(2) unfolding race_inv_def Let_def fl by simp_all
  show ?thesis
  proof (cases "ended (feed_now r)")
    case True
    with push_silent [of "feed_now r"] need_data have "r' = r" by (cases r) simp
    with assms(2) show ?thesis by simp
  next
    case False
    from push_next [OF this, of "?n mod length (fr s)" "?n div length (fr s)"] inv assms(3) need_data(3)
    have t: "b = Some (replay_buffer s ?n)" "fr t = fr s" "cursor t = (?n mod length (fr s) + 1, ?n div length (fr s))"
      "period t = period s" "\<not> ended t"
      by (auto simp: replay_buffer_def replay_pts_def)
    have no_eos: "EndOfStream \<notin> set (source_log r)"
      using assms(2) False by (auto simp: race_inv_def filter_empty_conv split: if_splits)
    then have "after_eos (source_log r) = []" by (rule after_eos_none)
    moreover have "wrap_cursor (length (fr s)) (cursor t) = (Suc ?n mod length (fr s), Suc ?n div length (fr s))"
      using wrap_next [of "length (fr s)" ?n] assms(3) t(3) by simp
    ultimately show ?thesis
      using assms(2) False inv(1-3) t need_data(1,2)
      by (simp add: race_inv_def in_flight_list_def Let_def)
  qed
next
  case (push_buffer b)
  then show ?thesis
    using assms(2) by (auto simp: race_inv_def in_flight_list_def Let_def after_eos_append)
next
  case (signal_flag t called)
  show ?thesis
  proof (cases called)
    case True
    with signal_on [of "feed_now r" t] signal_flag have "\<not> ended (feed_now r)" "ended t" "fr t = fr (feed_now r)"
      "cursor t = cursor (feed_now r)" "period t = period (feed_now r)" by auto
    with assms(2) signal_flag True show ?thesis by (simp add: race_inv_def in_flight_list_def Let_def)
  next
    case False
    with signal_off [of "feed_now r" t] signal_flag have "r' = r" by (cases r) simp
    with assms(2) show ?thesis by simp
  qed
next
  case signal_call
  then have "EndOfStream \<notin> set (source_log r)"
    using assms(2) by (auto simp: race_inv_def filter_empty_conv split: if_splits)
  with signal_call assms(2) show ?thesis
    by (auto simp: race_inv_def in_flight_list_def Let_def after_eos_append split: option.splits)
qed

lemma race_inv_reachable:
  assumes "source_reach push signal s r" "\<not> ended s" "fr s \<noteq> []" "cursor s = (0, 0)"
  shows "race_inv s r"
  using assms(1) by (induction rule: rtranclp_induct) (use assms race_inv_start race_inv_step in blast)+

lemma race_inv_orderly:
  assumes "race_inv s r"
  shows "orderly (fr s) (period s) (source_log r)"
proof -
  have "replay_buffer s = (\<lambda>j. buffer_of (fr s ! (j mod length (fr s))) (replay_pts (fr s) (period s) j))"
    by (simp add: fun_eq_iff replay_buffer_def)
  with assms show ?thesis
    by (auto simp: race_inv_def orderly_def Let_def in_flight_list_def split: if_splits option.splits)
qed

text \<open>The streaming thread is caught between building the first buffer and pushing it.\<close>

lemma race_caught:
  assumes "push s = (t, Some b)" "signal t = (u, True)"
  shows "\<exists>r. source_reach push signal s r \<and> source_log r = [EndOfStream, PushBuffer b]"
proof -
  let ?r1 = "(start_run s)\<lparr>feed_now := t, in_flight := Some b\<rparr>"
  let ?r2 = "?r1\<lparr>feed_now := u, eos_pending := True\<rparr>"
  let ?r3 = "?r2\<lparr>eos_pending := False, source_log := source_log ?r2 @ [EndOfStream]\<rparr>"
  let ?r4 = "?r3\<lparr>in_flight := None, source_log := source_log ?r3 @ [PushBuffer b]\<rparr>"
  have "source_step push signal (start_run s) ?r1"
    using assms(1) by (intro source_step.need_data) (simp_all add: start_run_def)
  moreover have "source_step push signal ?r1 ?r2"
    using assms(2) by (intro source_step.signal_flag) (simp_all add: start_run_def)
  moreover have "source_step push signal ?r2 ?r3"
    by (intro source_step.signal_call) simp
  moreover have "source_step push signal ?r3 ?r4"
    by (intro source_step.push_buffer) simp
  ultimately have "source_reach push signal s ?r4"
    by (meson rtranclp.rtrancl_into_rtrancl rtranclp.rtrancl_refl)
  moreover have "source_log ?r4 = [EndOfStream, PushBuffer b]" by (simp add: start_run_def)
  ultimately show ?thesis by blast
qed

end

interpretation audio_race: eos_source audio_pushNextFrame "\<lambda>f. frames (as_stream f)"
  "\<lambda>f. (as_nextFrame f, as_loopCount f)" as_streamDurationNs as_eosSignalled audio_signalEos
  by unfold_locales (auto simp: audio_signalEos_def split: if_splits)

interpretation video_race: eos_source video_pushNextFrame "\<lambda>f. avc_frames (vs_stream f)"
  "\<lambda>f. (vs_nextFrame f, vs_loopCount f)" vs_streamDurationNs vs_eosSignalled video_signalEos
  by unfold_locales (auto simp: video_signalEos_def split: if_splits)

section \<open>What every interleaving keeps\<close>

lemma new_audio_feed:
  "as_stream (MseSinkFeed_new g s) = s" "\<not> as_eosSignalled (MseSinkFeed_new g s)"
  "as_nextFrame (MseSinkFeed_new g s) = 0" "as_loopCount (MseSinkFeed_new g s) = 0"
  "as_streamDurationNs (MseSinkFeed_new g s) = aac_totalDurationNs s"
  "as_appsrc (MseSinkFeed_new g s) = has_appsrc g"
  by (simp_all add: MseSinkFeed_new_def Let_def)

lemma new_video_feed:
  "vs_stream (MseVideoSinkFeed_new g v) = v" "\<not> vs_eosSignalled (MseVideoSinkFeed_new g v)"
  "vs_nextFrame (MseVideoSinkFeed_new g v) = 0" "vs_loopCount (MseVideoSinkFeed_new g v) = 0"
  "vs_streamDurationNs (MseVideoSinkFeed_new g v) = avc_totalDurationNs v"
  "vs_appsrc (MseVideoSinkFeed_new g v) = has_appsrc g"
  by (simp_all add: MseVideoSinkFeed_new_def Let_def)

lemma audio_orderly:
  assumes "frames s \<noteq> []" "source_reach audio_pushNextFrame audio_signalEos (MseSinkFeed_new g s) r"
  shows "orderly (frames s) (aac_totalDurationNs s) (source_log r)"
  using audio_race.race_inv_orderly [OF audio_race.race_inv_reachable [of "MseSinkFeed_new g s" r]] assms
  by (simp add: new_audio_feed)

lemma video_orderly:
  assumes "avc_frames v \<noteq> []" "source_reach video_pushNextFrame video_signalEos (MseVideoSinkFeed_new g v) w"
  shows "orderly (avc_frames v) (avc_totalDurationNs v) (source_log w)"
  using video_race.race_inv_orderly [OF video_race.race_inv_reachable [of "MseVideoSinkFeed_new g v" w]] assms
  by (simp add: new_video_feed)

lemma audio_caught:
  assumes "frames s \<noteq> []" "has_appsrc g"
  shows "\<exists>r. source_reach audio_pushNextFrame audio_signalEos (MseSinkFeed_new g s) r
     \<and> source_log r = [EndOfStream, PushBuffer (buffer_of (frames s ! 0) (timeStamp (frames s ! 0)))]"
proof (rule audio_race.race_caught)
  show "audio_pushNextFrame (MseSinkFeed_new g s) =
      ((MseSinkFeed_new g s)\<lparr>as_nextFrame := 1\<rparr>, Some (buffer_of (frames s ! 0) (timeStamp (frames s ! 0))))"
    using assms by (simp add: audio_pushNextFrame_def new_audio_feed Let_def)
  show "audio_signalEos ((MseSinkFeed_new g s)\<lparr>as_nextFrame := 1\<rparr>) =
      ((MseSinkFeed_new g s)\<lparr>as_nextFrame := 1, as_eosSignalled := True\<rparr>, True)"
    using assms by (simp add: audio_signalEos_def new_audio_feed)
qed

lemma video_caught:
  assumes "avc_frames v \<noteq> []" "has_appsrc g"
  shows "\<exists>w. source_reach video_pushNextFrame video_signalEos (MseVideoSinkFeed_new g v) w
     \<and> source_log w = [EndOfStream, PushBuffer (buffer_of (avc_frames v ! 0) (timeStamp (avc_frames v ! 0)))]"
proof (rule video_race.race_caught)
  show "video_pushNextFrame (MseVideoSinkFeed_new g v) =
      ((MseVideoSinkFeed_new g v)\<lparr>vs_nextFrame := 1\<rparr>, Some (buffer_of (avc_frames v ! 0) (timeStamp (avc_frames v ! 0))))"
    using assms by (simp add: video_pushNextFrame_def new_video_feed Let_def)
  show "video_signalEos ((MseVideoSinkFeed_new g v)\<lparr>vs_nextFrame := 1\<rparr>) =
      ((MseVideoSinkFeed_new g v)\<lparr>vs_nextFrame := 1, vs_eosSignalled := True\<rparr>, True)"
    using assms by (simp add: video_signalEos_def new_video_feed)
qed

text \<open>C25: However the streaming thread's \<open>needData\<close> and the test thread's \<open>signalEos\<close> interleave on a
  new feed, audio or video, the calls the source gets are orderly: the buffers are the endless
  replay in order with none missed or doubled, the stream is ended at most once, and at most one
  buffer follows its end.  That one buffer cannot be excluded: when the source exists, an
  interleaving reaches the end of the stream followed by the first frame.\<close>

theorem feed_race:
  assumes "frames s \<noteq> []" "avc_frames v \<noteq> []" "has_appsrc g"
  shows "(if source_reach audio_pushNextFrame audio_signalEos (MseSinkFeed_new g s) r
          then orderly (frames s) (aac_totalDurationNs s) (source_log r) else True)
   \<and> (if source_reach video_pushNextFrame video_signalEos (MseVideoSinkFeed_new g v) w
      then orderly (avc_frames v) (avc_totalDurationNs v) (source_log w) else True)
   \<and> (\<exists>r. source_reach audio_pushNextFrame audio_signalEos (MseSinkFeed_new g s) r
        \<and> source_log r = [EndOfStream, PushBuffer (buffer_of (frames s ! 0) (timeStamp (frames s ! 0)))])
   \<and> (\<exists>w. source_reach video_pushNextFrame video_signalEos (MseVideoSinkFeed_new g v) w
        \<and> source_log w = [EndOfStream, PushBuffer (buffer_of (avc_frames v ! 0) (timeStamp (avc_frames v ! 0)))])"
  using assms audio_orderly video_orderly audio_caught video_caught by simp

theorem feed_race_witness:
  "\<exists>r. source_reach audio_pushNextFrame audio_signalEos (MseSinkFeed_new all_there two_units) r
     \<and> source_log r = [EndOfStream, PushBuffer \<lparr>push_data = [1], push_pts = 0, push_duration = 20\<rparr>]"
  using feed_race [of two_units one_picture all_there]
  by (simp add: two_units_def one_picture_def all_there_def buffer_of_def)

section \<open>From the encoder to the source\<close>

text \<open>An encoder that keeps a constant frame length \<open>d\<close>: where it stamps a buffer, the stamp is the
  buffer's place in the stream, and where it gives a duration, that is \<open>d\<close>.\<close>

definition constant_rate :: "int \<Rightarrow> GstBuffer list \<Rightarrow> bool" where
  "constant_rate d bs \<longleftrightarrow> (\<forall>k < length bs. buf_pts (bs ! k) \<in> {None, Some (int k * d)}
     \<and> buf_duration (bs ! k) \<in> {None, Some d})"

lemma stamped_constant_rate:
  assumes "constant_rate d bs" "k < length bs"
  shows "stamped d 0 bs ! k = \<lparr>data = mapped (bs ! k), timeStamp = int k * d, duration = d\<rparr>"
  using assms by (auto simp: constant_rate_def stamped_nth frame_of_def split: option.split)

lemma stamped_Nil_iff: "stamped d i bs = [] \<longleftrightarrow> bs = []"
  by (cases bs) simp_all

lemma add_duration_constant:
  "0 < d \<Longrightarrow> list_all (\<lambda>f. duration f = d) fs \<Longrightarrow> foldl add_duration t fs = t + int (length fs) * d"
  by (induction fs arbitrary: t) (auto simp: add_duration_def algebra_simps)

lemma duration_constant_rate:
  assumes "constant_rate d bs" "0 < d"
  shows "foldl add_duration 0 (stamped d 0 bs) = int (length bs) * d"
  using assms by (subst add_duration_constant) (auto simp: list_all_length stamped_constant_rate)

text \<open>The replay of such a stream has no seam: push \<open>j\<close> is stamped \<open>j\<close> frame lengths.\<close>

lemma replay_constant_rate:
  assumes "constant_rate d bs" "bs \<noteq> []"
  shows "replay_pts (stamped d 0 bs) (int (length bs) * d) j = int j * d"
proof -
  have "j mod length bs < length bs" using assms(2) by simp
  then have "replay_pts (stamped d 0 bs) (int (length bs) * d) j
      = (int (length bs) * int (j div length bs) + int (j mod length bs)) * d"
    using assms by (simp add: replay_pts_def stamped_constant_rate algebra_simps)
  moreover have "int (length bs) * int (j div length bs) + int (j mod length bs) = int j"
    by (metis mult_div_mod_eq of_nat_add of_nat_mult)
  ultimately show ?thesis by simp
qed

text \<open>The calls on a source that is fed the buffers \<open>bs\<close> at the constant frame length \<open>d\<close>.\<close>

definition seamless :: "int \<Rightarrow> GstBuffer list \<Rightarrow> source_call list \<Rightarrow> bool" where
  "seamless d bs cs \<longleftrightarrow>
     pushed cs = map (\<lambda>j. \<lparr>push_data = mapped (bs ! (j mod length bs)), push_pts = word_of_int (int j * d),
       push_duration = word_of_int d\<rparr>) [0..<length (pushed cs)]"

lemma orderly_seamless:
  assumes "orderly (stamped d 0 bs) (int (length bs) * d) cs" "constant_rate d bs" "bs \<noteq> []"
  shows "seamless d bs cs"
proof -
  have "buffer_of (stamped d 0 bs ! (j mod length bs)) (replay_pts (stamped d 0 bs) (int (length bs) * d) j)
     = \<lparr>push_data = mapped (bs ! (j mod length bs)), push_pts = word_of_int (int j * d), push_duration = word_of_int d\<rparr>" for j
  proof -
    have "j mod length bs < length bs" using assms(3) by simp
    with assms(2,3) show ?thesis by (simp add: buffer_of_def stamped_constant_rate replay_constant_rate)
  qed
  with assms(1) show ?thesis by (simp add: orderly_def seamless_def)
qed

text \<open>C26: From the encoder to the sink's source, across the replay and the threads.  Take streams the
  suite synthesised with an encoder of constant frame length, 21333333 ns for audio and 40 ms for
  video, stamped or not.  Then however the streaming thread and \<open>signalEos\<close> interleave, buffer \<open>j\<close>
  pushed into the source is the encoder's buffer \<open>j\<close> modulo their number, unchanged, stamped at
  exactly \<open>j\<close> frame lengths (in 64 bits): the replay has neither gap nor overlap at its seams.\<close>

theorem synthesised_replay_is_seamless:
  assumes "launch (aac_desc n) = Some run" "sink_found run" "state_change_ok run"
    and "bs = buffers (samples run)" "bs \<noteq> []" "constant_rate 21333333 bs"
    and "launch (avc_desc m) = Some vrun" "sink_found vrun" "state_change_ok vrun"
    and "vbs = buffers (samples vrun)" "vbs \<noteq> []" "constant_rate 40000000 vbs"
    and "source_reach audio_pushNextFrame audio_signalEos (MseSinkFeed_new g (generateAacAdtsStream launch n)) r"
    and "source_reach video_pushNextFrame video_signalEos (MseVideoSinkFeed_new g (generateH264AvcStream launch m)) w"
  shows "seamless 21333333 bs (source_log r) \<and> seamless 40000000 vbs (source_log w)"
proof
  have a: "frames (generateAacAdtsStream launch n) = stamped 21333333 0 bs"
    using aac_stream_synthesised assms(1-4) by blast
  have "aac_totalDurationNs (generateAacAdtsStream launch n) = int (length bs) * 21333333"
    unfolding aac_totalDurationNs_def a by (rule duration_constant_rate [OF assms(6)]) simp
  with audio_orderly [OF _ assms(13)] have "orderly (stamped 21333333 0 bs) (int (length bs) * 21333333) (source_log r)"
    unfolding a using assms(5) by (simp only: stamped_Nil_iff not_False_eq_True)
  then show "seamless 21333333 bs (source_log r)" by (rule orderly_seamless [OF _ assms(6,5)])
  have v: "avc_frames (generateH264AvcStream launch m) = stamped 40000000 0 vbs"
    using avc_stream_complete assms(7-10) by blast
  have "avc_totalDurationNs (generateH264AvcStream launch m) = int (length vbs) * 40000000"
    unfolding avc_totalDurationNs_def v by (rule duration_constant_rate [OF assms(12)]) simp
  with video_orderly [OF _ assms(14)] have "orderly (stamped 40000000 0 vbs) (int (length vbs) * 40000000) (source_log w)"
    unfolding v using assms(11) by (simp only: stamped_Nil_iff not_False_eq_True)
  then show "seamless 40000000 vbs (source_log w)" by (rule orderly_seamless [OF _ assms(12,11)])
qed

definition steady_run :: "int \<Rightarrow> encode_run" where
  "steady_run d = \<lparr>sink_found = True, state_change_ok = True,
     samples = [\<lparr>caps_codec_data = Some [9], buffer = Some \<lparr>mapped = [1], buf_pts = Some 0, buf_duration = Some d\<rparr>\<rparr>,
                \<lparr>caps_codec_data = Some [9], buffer = Some \<lparr>mapped = [2], buf_pts = None, buf_duration = None\<rparr>\<rparr>]\<rparr>"

definition steady_gst :: gst where
  "steady_gst desc = Some (steady_run (if desc = aac_desc 2 then 21333333 else 40000000))"

theorem synthesised_replay_is_seamless_witness:
  "seamless 21333333 (buffers (samples (steady_run 21333333)))
     [EndOfStream, PushBuffer \<lparr>push_data = [1], push_pts = 0, push_duration = 21333333\<rparr>]"
proof -
  have av: "aac_desc 2 \<noteq> avc_desc 2" by (simp add: aac_desc_def avc_desc_def)
  have steady: "sink_found (steady_run d)" "state_change_ok (steady_run d)" "buffers (samples (steady_run d)) \<noteq> []"
    "constant_rate d (buffers (samples (steady_run d)))" for d
    by (auto simp: steady_run_def constant_rate_def less_Suc_eq nth_Cons')
  have l: "steady_gst (aac_desc 2) = Some (steady_run 21333333)" "steady_gst (avc_desc 2) = Some (steady_run 40000000)"
    using av by (simp_all add: steady_gst_def)
  have f: "frames (generateAacAdtsStream steady_gst 2) = stamped 21333333 0 (buffers (samples (steady_run 21333333)))"
    by (rule aac_stream_synthesised [where launch = steady_gst, OF l(1)]) (rule steady)+
  obtain r where r: "source_reach audio_pushNextFrame audio_signalEos (MseSinkFeed_new all_there (generateAacAdtsStream steady_gst 2)) r"
    "source_log r = [EndOfStream, PushBuffer \<lparr>push_data = [1], push_pts = 0, push_duration = 21333333\<rparr>]"
    using audio_caught [of "generateAacAdtsStream steady_gst 2" all_there]
    unfolding f by (auto simp: steady_run_def frame_of_def buffer_of_def all_there_def)
  have "source_reach video_pushNextFrame video_signalEos (MseVideoSinkFeed_new all_there (generateH264AvcStream steady_gst 2))
     (start_run (MseVideoSinkFeed_new all_there (generateH264AvcStream steady_gst 2)))" by (rule rtranclp.rtrancl_refl)
  then have "seamless 21333333 (buffers (samples (steady_run 21333333))) (source_log r)"
    using synthesised_replay_is_seamless [where launch = steady_gst and n = 2 and m = 2 and g = all_there and r = r, OF l(1) _ _ refl _ _ l(2) _ _ refl _ _ r(1)]
      steady by blast
  then show ?thesis unfolding r(2) .
qed

end
