(* ===== verification/Feed_Client.thy ===== *)
theory Feed_Client
  imports Media_Stream Polling
begin

text \<open>
  The feeding client of the native data-path cases, \<open>FeedingMediaPipelineClient\<close> of
  \<open>include/conformance/MediaFeed.h\<close> and \<open>src/common/MediaFeed.cpp\<close>: its state, every
  operation, and the need-data handler in the three locked sections the code has, with the
  calls it makes on the pipeline between them.

  The server behind the pipeline is a parameter: a function from the calls made on the
  pipeline so far (and the current one) to the status \<open>addSegment\<close> returns.  Every call on
  the pipeline is appended to a log.  Counters of calls are natural numbers; the product
  that bounds a batch is taken modulo \<open>2 ^ 64\<close>, as \<open>size_t\<close> does.
\<close>

section \<open>The client's state\<close>

text \<open>Enumerations of the pipeline's interface: the enumerators the code names, the others by number.\<close>

datatype PlaybackState =
    UNKNOWN | PLAYING | PAUSED | SEEKING | SEEK_DONE | STOPPED | END_OF_STREAM | FAILURE
  | OtherState nat

datatype NetworkState =
    BUFFERING | BUFFERED | FORMAT_ERROR | NETWORK_ERROR | DECODE_ERROR | OtherNetworkState nat

datatype PlaybackError = UNKNOWN_ERROR | OtherPlaybackError nat

datatype AddSegmentStatus = ADD_OK | ADD_ERROR | NO_SPACE

datatype MediaSourceStatus = SOURCE_OK | SOURCE_EOS

record MediaSegmentAudio =
  seg_source :: int
  seg_timeStamp :: int
  seg_duration :: int
  seg_sampleRate :: int
  seg_channels :: int
  seg_length :: u32
  seg_data :: bytes

datatype pipeline_call =
    AddSegment u32 MediaSegmentAudio AddSegmentStatus
  | HaveData MediaSourceStatus u32

type_synonym server = "pipeline_call list \<Rightarrow> u32 \<Rightarrow> MediaSegmentAudio \<Rightarrow> AddSegmentStatus"

record NeedDataRecord =
  nd_source :: int
  nd_frameCount :: nat
  nd_requestId :: u32
  nd_hadShmInfo :: bool

record SourceFeed =
  stream :: AacElementaryStream
  nextFrame :: nat

record FeedClient =
  m_pipeline :: bool
  m_feeds :: "int \<rightharpoonup> SourceFeed"
  m_statesSeen :: "PlaybackState set"
  m_flushedSources :: "int set"
  m_needDataLog :: "NeedDataRecord list"
  m_pendingNeedData :: "int set"
  m_overlappingNeedData :: bool
  m_allSegmentsAccepted :: bool
  m_networkStatesSeen :: "NetworkState set"
  m_starve :: bool
  m_underflowSources :: "int set"
  m_firstFrameSources :: "int set"
  m_positionUpdates :: nat
  m_lastPosition :: int
  m_qosCount :: nat
  m_lastQos :: "nat \<times> nat"
  m_oversupply :: nat
  m_withhold :: bool
  m_corruptEvery :: nat
  m_segmentsOffered :: nat
  m_addOk :: nat
  m_addNoSpace :: nat
  m_addError :: nat
  m_noSpaceFrame :: "int \<rightharpoonup> nat"
  m_noSpaceSegmentAccepted :: bool
  m_cancelCount :: nat
  m_cancelledSources :: "int set"
  m_playbackErrorCount :: nat
  m_lastPlaybackError :: PlaybackError
  m_lastState :: PlaybackState
  m_stateAtLastError :: PlaybackState

definition fresh_client :: FeedClient where
  "fresh_client =
     \<lparr>m_pipeline = False, m_feeds = Map.empty, m_statesSeen = {}, m_flushedSources = {},
      m_needDataLog = [], m_pendingNeedData = {}, m_overlappingNeedData = False,
      m_allSegmentsAccepted = True, m_networkStatesSeen = {}, m_starve = False,
      m_underflowSources = {}, m_firstFrameSources = {}, m_positionUpdates = 0,
      m_lastPosition = - 1, m_qosCount = 0, m_lastQos = (0, 0), m_oversupply = 1,
      m_withhold = False, m_corruptEvery = 0, m_segmentsOffered = 0, m_addOk = 0,
      m_addNoSpace = 0, m_addError = 0, m_noSpaceFrame = Map.empty,
      m_noSpaceSegmentAccepted = False, m_cancelCount = 0, m_cancelledSources = {},
      m_playbackErrorCount = 0, m_lastPlaybackError = UNKNOWN_ERROR,
      m_lastState = UNKNOWN, m_stateAtLastError = UNKNOWN\<rparr>"

section \<open>The need-data handler\<close>

text \<open>The segment offered for a frame; a corrupt one has the frame's length and undecodable
  content, everything else unchanged.\<close>

definition segment_of :: "int \<Rightarrow> AacElementaryStream \<Rightarrow> bool \<Rightarrow> EncodedFrame \<Rightarrow> MediaSegmentAudio" where
  "segment_of sourceId s corrupt frame =
     (let payload = (if corrupt then replicate (length (data frame)) 0xA5 else data frame)
      in \<lparr>seg_source = sourceId, seg_timeStamp = timeStamp frame, seg_duration = duration frame,
          seg_sampleRate = sint (sampleRate s), seg_channels = sint (channels s),
          seg_length = word_of_nat (length payload), seg_data = payload\<rparr>)"

text \<open>\<open>for (idx = nextFrame; idx < frames.size() && batch.size() < offerLimit; ++idx)\<close>,
  with the running count of segments built.\<close>

function build_batch ::
  "int \<Rightarrow> AacElementaryStream \<Rightarrow> nat \<Rightarrow> nat \<Rightarrow> nat \<Rightarrow> nat \<Rightarrow> MediaSegmentAudio list
     \<Rightarrow> MediaSegmentAudio list \<times> nat" where
  "build_batch sourceId s corruptEvery offerLimit idx offered batch =
     (if idx < length (frames s) \<and> length batch < offerLimit
      then let offered' = offered + 1;
               corrupt = (corruptEvery \<noteq> 0 \<and> offered' mod corruptEvery = 0)
           in build_batch sourceId s corruptEvery offerLimit (idx + 1) offered'
                (batch @ [segment_of sourceId s corrupt (frames s ! idx)])
      else (batch, offered))"
  by pat_completeness auto
termination
  by (relation "measure (\<lambda>(_, s, _, _, idx, _, _). length (frames s) - idx)") auto

declare build_batch.simps [simp del]

definition offer_limit :: "FeedClient \<Rightarrow> nat \<Rightarrow> nat" where
  "offer_limit c frameCount =
     (frameCount * (if m_oversupply c = 0 then 1 else m_oversupply c)) mod 2 ^ 64"

text \<open>What the first locked section hands to the rest of the handler.\<close>

record round =
  rd_batch :: "MediaSegmentAudio list"
  rd_first :: nat
  rd_withhold :: bool
  rd_starve :: bool

text \<open>The request is recorded and marked pending; \<open>None\<close> is a return inside the section.\<close>

definition record_request :: "FeedClient \<Rightarrow> int \<Rightarrow> nat \<Rightarrow> u32 \<Rightarrow> bool \<Rightarrow> FeedClient" where
  "record_request c sourceId frameCount requestId shm =
     c\<lparr>m_needDataLog := m_needDataLog c @
         [\<lparr>nd_source = sourceId, nd_frameCount = frameCount, nd_requestId = requestId, nd_hadShmInfo = shm\<rparr>],
       m_overlappingNeedData := (m_overlappingNeedData c \<or> sourceId \<in> m_pendingNeedData c),
       m_pendingNeedData := insert sourceId (m_pendingNeedData c)\<rparr>"

definition nd_begin :: "FeedClient \<Rightarrow> int \<Rightarrow> nat \<Rightarrow> u32 \<Rightarrow> bool \<Rightarrow> FeedClient \<times> round option" where
  "nd_begin c sourceId frameCount requestId shm =
     (let c1 = record_request c sourceId frameCount requestId shm
      in if \<not> m_pipeline c1 then (c1, None)
         else case m_feeds c1 sourceId of
           None \<Rightarrow> (c1, None)
         | Some feed \<Rightarrow>
             (case build_batch sourceId (stream feed) (m_corruptEvery c1) (offer_limit c1 frameCount)
                     (nextFrame feed) (m_segmentsOffered c1) [] of
                (batch, offered) \<Rightarrow>
                  (c1\<lparr>m_segmentsOffered := offered\<rparr>,
                   Some \<lparr>rd_batch = batch, rd_first = nextFrame feed,
                         rd_withhold = m_withhold c1, rd_starve = m_starve c1\<rparr>)))"

text \<open>The two locked sections of the offer loop: after a refused segment, after an accepted one.\<close>

definition account_refused :: "FeedClient \<Rightarrow> int \<Rightarrow> nat \<Rightarrow> AddSegmentStatus \<Rightarrow> FeedClient" where
  "account_refused c sourceId frame status =
     (let c1 = c\<lparr>m_allSegmentsAccepted := False\<rparr>
      in if status = NO_SPACE
         then c1\<lparr>m_addNoSpace := m_addNoSpace c1 + 1, m_noSpaceFrame := (m_noSpaceFrame c1)(sourceId \<mapsto> frame)\<rparr>
         else c1\<lparr>m_addError := m_addError c1 + 1\<rparr>)"

definition account_accepted :: "FeedClient \<Rightarrow> int \<Rightarrow> nat \<Rightarrow> FeedClient" where
  "account_accepted c sourceId frame =
     (let c1 = c\<lparr>m_addOk := m_addOk c + 1\<rparr>
      in if m_noSpaceFrame c1 sourceId = Some frame
         then c1\<lparr>m_noSpaceSegmentAccepted := True, m_noSpaceFrame := (m_noSpaceFrame c1)(sourceId := None)\<rparr>
         else c1)"

text \<open>The offer loop, up to the first segment that is refused.\<close>

fun nd_offer ::
  "server \<Rightarrow> int \<Rightarrow> u32 \<Rightarrow> nat \<Rightarrow> MediaSegmentAudio list \<Rightarrow> nat \<Rightarrow> FeedClient \<Rightarrow> pipeline_call list
     \<Rightarrow> FeedClient \<times> pipeline_call list \<times> nat" where
  "nd_offer srv sourceId requestId first [] accepted c log = (c, log, accepted)"
| "nd_offer srv sourceId requestId first (segment # rest) accepted c log =
     (let status = srv log requestId segment;
          log' = log @ [AddSegment requestId segment status]
      in if status \<noteq> ADD_OK
         then (account_refused c sourceId (first + accepted) status, log', accepted)
         else nd_offer srv sourceId requestId first rest (accepted + 1)
                (account_accepted c sourceId (first + accepted)) log')"

definition clear_pending :: "FeedClient \<Rightarrow> int \<Rightarrow> FeedClient" where
  "clear_pending c sourceId = c\<lparr>m_pendingNeedData := m_pendingNeedData c - {sourceId}\<rparr>"

text \<open>The last locked section: advance the cursor, decide the end of the stream.\<close>

definition nd_commit :: "FeedClient \<Rightarrow> int \<Rightarrow> nat \<Rightarrow> FeedClient \<times> bool" where
  "nd_commit c sourceId accepted =
     (case m_feeds c sourceId of
        None \<Rightarrow> (clear_pending c sourceId, False)
      | Some feed \<Rightarrow>
          (let n = nextFrame feed + accepted
           in (clear_pending (c\<lparr>m_feeds := (m_feeds c)(sourceId \<mapsto> feed\<lparr>nextFrame := n\<rparr>)\<rparr>) sourceId,
               n \<ge> length (frames (stream feed)))))"

definition notifyNeedMediaData ::
  "server \<Rightarrow> FeedClient \<times> pipeline_call list \<Rightarrow> int \<Rightarrow> nat \<Rightarrow> u32 \<Rightarrow> bool
     \<Rightarrow> FeedClient \<times> pipeline_call list" where
  "notifyNeedMediaData srv cl sourceId frameCount requestId shm =
     (case cl of (c, log) \<Rightarrow>
        (case nd_begin c sourceId frameCount requestId shm of
           (c1, None) \<Rightarrow> (c1, log)
         | (c1, Some r) \<Rightarrow>
             if rd_withhold r then (c1, log)
             else if rd_starve r
             then (clear_pending c1 sourceId, log @ [HaveData SOURCE_OK requestId])
             else (case nd_offer srv sourceId requestId (rd_first r) (rd_batch r) 0 c1 log of
                (c2, log2, accepted) \<Rightarrow>
                  (case nd_commit c2 sourceId accepted of
                     (c3, atEndOfStream) \<Rightarrow>
                       (c3, log2 @ [HaveData (if atEndOfStream then SOURCE_EOS else SOURCE_OK) requestId])))))"

section \<open>The other operations\<close>

definition setPipeline :: "FeedClient \<Rightarrow> bool \<Rightarrow> FeedClient" where
  "setPipeline c pipeline = c\<lparr>m_pipeline := pipeline\<rparr>"

definition addAudioSource :: "FeedClient \<Rightarrow> int \<Rightarrow> AacElementaryStream \<Rightarrow> FeedClient" where
  "addAudioSource c sourceId s = c\<lparr>m_feeds := (m_feeds c)(sourceId \<mapsto> \<lparr>stream = s, nextFrame = 0\<rparr>)\<rparr>"

definition rewindSource :: "FeedClient \<Rightarrow> int \<Rightarrow> FeedClient" where
  "rewindSource c sourceId =
     (case m_feeds c sourceId of
        None \<Rightarrow> c
      | Some feed \<Rightarrow> c\<lparr>m_feeds := (m_feeds c)(sourceId \<mapsto> feed\<lparr>nextFrame := 0\<rparr>)\<rparr>)"

definition setStarve :: "FeedClient \<Rightarrow> bool \<Rightarrow> FeedClient" where
  "setStarve c b = c\<lparr>m_starve := b\<rparr>"

definition setOversupply :: "FeedClient \<Rightarrow> nat \<Rightarrow> FeedClient" where
  "setOversupply c multiple = c\<lparr>m_oversupply := (if multiple = 0 then 1 else multiple)\<rparr>"

definition setWithhold :: "FeedClient \<Rightarrow> bool \<Rightarrow> FeedClient" where
  "setWithhold c b = c\<lparr>m_withhold := b\<rparr>"

definition setCorruptEvery :: "FeedClient \<Rightarrow> nat \<Rightarrow> FeedClient" where
  "setCorruptEvery c nth' = c\<lparr>m_corruptEvery := nth'\<rparr>"

definition notifyPlaybackState :: "FeedClient \<Rightarrow> PlaybackState \<Rightarrow> FeedClient" where
  "notifyPlaybackState c state = c\<lparr>m_statesSeen := insert state (m_statesSeen c), m_lastState := state\<rparr>"

definition notifyPosition :: "FeedClient \<Rightarrow> int \<Rightarrow> FeedClient" where
  "notifyPosition c position = c\<lparr>m_positionUpdates := m_positionUpdates c + 1, m_lastPosition := position\<rparr>"

definition notifyNetworkState :: "FeedClient \<Rightarrow> NetworkState \<Rightarrow> FeedClient" where
  "notifyNetworkState c state = c\<lparr>m_networkStatesSeen := insert state (m_networkStatesSeen c)\<rparr>"

definition notifyCancelNeedMediaData :: "FeedClient \<Rightarrow> int \<Rightarrow> FeedClient" where
  "notifyCancelNeedMediaData c sourceId =
     clear_pending (c\<lparr>m_cancelCount := m_cancelCount c + 1,
                      m_cancelledSources := insert sourceId (m_cancelledSources c)\<rparr>) sourceId"

definition notifyQos :: "FeedClient \<Rightarrow> nat \<times> nat \<Rightarrow> FeedClient" where
  "notifyQos c qosInfo = c\<lparr>m_qosCount := m_qosCount c + 1, m_lastQos := qosInfo\<rparr>"

definition notifyBufferUnderflow :: "FeedClient \<Rightarrow> int \<Rightarrow> FeedClient" where
  "notifyBufferUnderflow c sourceId = c\<lparr>m_underflowSources := insert sourceId (m_underflowSources c)\<rparr>"

definition notifyFirstFrameReceived :: "FeedClient \<Rightarrow> int \<Rightarrow> FeedClient" where
  "notifyFirstFrameReceived c sourceId = c\<lparr>m_firstFrameSources := insert sourceId (m_firstFrameSources c)\<rparr>"

definition notifyPlaybackError :: "FeedClient \<Rightarrow> PlaybackError \<Rightarrow> FeedClient" where
  "notifyPlaybackError c err =
     c\<lparr>m_playbackErrorCount := m_playbackErrorCount c + 1, m_lastPlaybackError := err,
       m_stateAtLastError := m_lastState c\<rparr>"

definition notifySourceFlushed :: "FeedClient \<Rightarrow> int \<Rightarrow> FeedClient" where
  "notifySourceFlushed c sourceId = c\<lparr>m_flushedSources := insert sourceId (m_flushedSources c)\<rparr>"

text \<open>Duration, native size, video data, audio data and playback info are ignored.\<close>

definition ignored_notification :: "FeedClient \<Rightarrow> FeedClient" where
  "ignored_notification c = c"

text \<open>The observers read the client under its lock.\<close>

definition sawPlaybackState :: "FeedClient \<Rightarrow> PlaybackState \<Rightarrow> bool" where
  "sawPlaybackState c state \<longleftrightarrow> state \<in> m_statesSeen c"

definition sawCancel :: "FeedClient \<Rightarrow> int \<Rightarrow> bool" where
  "sawCancel c sourceId \<longleftrightarrow> sourceId \<in> m_cancelledSources c"

definition sawFirstFrame :: "FeedClient \<Rightarrow> int \<Rightarrow> bool" where
  "sawFirstFrame c sourceId \<longleftrightarrow> sourceId \<in> m_firstFrameSources c"

definition needDataLog :: "FeedClient \<Rightarrow> NeedDataRecord list" where
  "needDataLog = m_needDataLog"

definition sawOverlappingNeedData :: "FeedClient \<Rightarrow> bool" where
  "sawOverlappingNeedData = m_overlappingNeedData"

definition allSegmentsAccepted :: "FeedClient \<Rightarrow> bool" where
  "allSegmentsAccepted = m_allSegmentsAccepted"

definition networkStatesSeen :: "FeedClient \<Rightarrow> NetworkState set" where
  "networkStatesSeen = m_networkStatesSeen"

definition positionUpdateCount :: "FeedClient \<Rightarrow> nat" where
  "positionUpdateCount = m_positionUpdates"

definition lastPosition :: "FeedClient \<Rightarrow> int" where
  "lastPosition = m_lastPosition"

definition qosCount :: "FeedClient \<Rightarrow> nat" where
  "qosCount = m_qosCount"

definition lastQos :: "FeedClient \<Rightarrow> nat \<times> nat" where
  "lastQos = m_lastQos"

definition addSegmentOkCount :: "FeedClient \<Rightarrow> nat" where
  "addSegmentOkCount = m_addOk"

definition addSegmentNoSpaceCount :: "FeedClient \<Rightarrow> nat" where
  "addSegmentNoSpaceCount = m_addNoSpace"

definition addSegmentErrorCount :: "FeedClient \<Rightarrow> nat" where
  "addSegmentErrorCount = m_addError"

definition sawNoSpaceSegmentAccepted :: "FeedClient \<Rightarrow> bool" where
  "sawNoSpaceSegmentAccepted = m_noSpaceSegmentAccepted"

definition cancelCount :: "FeedClient \<Rightarrow> nat" where
  "cancelCount = m_cancelCount"

definition playbackErrorCount :: "FeedClient \<Rightarrow> nat" where
  "playbackErrorCount = m_playbackErrorCount"

definition lastPlaybackError :: "FeedClient \<Rightarrow> PlaybackError" where
  "lastPlaybackError = m_lastPlaybackError"

definition stateAtLastPlaybackError :: "FeedClient \<Rightarrow> PlaybackState" where
  "stateAtLastPlaybackError = m_stateAtLastError"

definition lastPlaybackState :: "FeedClient \<Rightarrow> PlaybackState" where
  "lastPlaybackState = m_lastState"

lemmas observer_defs = needDataLog_def sawOverlappingNeedData_def allSegmentsAccepted_def
  networkStatesSeen_def positionUpdateCount_def lastPosition_def qosCount_def lastQos_def
  addSegmentOkCount_def addSegmentNoSpaceCount_def addSegmentErrorCount_def
  sawNoSpaceSegmentAccepted_def cancelCount_def playbackErrorCount_def lastPlaybackError_def
  stateAtLastPlaybackError_def lastPlaybackState_def   sawPlaybackState_def sawCancel_def
  sawFirstFrame_def

definition waitForPlaybackState :: "PlaybackState \<Rightarrow> FeedClient list \<Rightarrow> bool" where
  "waitForPlaybackState state = wait_for (\<lambda>c. state \<in> m_statesSeen c)"

definition waitForSourceFlushed :: "int \<Rightarrow> FeedClient list \<Rightarrow> bool" where
  "waitForSourceFlushed sourceId = wait_for (\<lambda>c. sourceId \<in> m_flushedSources c)"

definition waitForBufferUnderflow :: "int \<Rightarrow> FeedClient list \<Rightarrow> bool" where
  "waitForBufferUnderflow sourceId = wait_for (\<lambda>c. sourceId \<in> m_underflowSources c)"

datatype client_op =
    SetPipeline bool
  | AddAudioSource int AacElementaryStream
  | RewindSource int
  | SetStarve bool
  | SetOversupply nat
  | SetWithhold bool
  | SetCorruptEvery nat
  | NotifyPlaybackState PlaybackState
  | NotifyPosition int
  | NotifyNetworkState NetworkState
  | NotifyCancelNeedMediaData int
  | NotifyQos "nat \<times> nat"
  | NotifyBufferUnderflow int
  | NotifyFirstFrameReceived int
  | NotifyPlaybackError PlaybackError
  | NotifySourceFlushed int
  | NotifyIgnored

fun apply_op :: "FeedClient \<Rightarrow> client_op \<Rightarrow> FeedClient" where
  "apply_op c (SetPipeline p) = setPipeline c p"
| "apply_op c (AddAudioSource i s) = addAudioSource c i s"
| "apply_op c (RewindSource i) = rewindSource c i"
| "apply_op c (SetStarve b) = setStarve c b"
| "apply_op c (SetOversupply n) = setOversupply c n"
| "apply_op c (SetWithhold b) = setWithhold c b"
| "apply_op c (SetCorruptEvery n) = setCorruptEvery c n"
| "apply_op c (NotifyPlaybackState st) = notifyPlaybackState c st"
| "apply_op c (NotifyPosition p) = notifyPosition c p"
| "apply_op c (NotifyNetworkState st) = notifyNetworkState c st"
| "apply_op c (NotifyCancelNeedMediaData i) = notifyCancelNeedMediaData c i"
| "apply_op c (NotifyQos q) = notifyQos c q"
| "apply_op c (NotifyBufferUnderflow i) = notifyBufferUnderflow c i"
| "apply_op c (NotifyFirstFrameReceived i) = notifyFirstFrameReceived c i"
| "apply_op c (NotifyPlaybackError e) = notifyPlaybackError c e"
| "apply_op c (NotifySourceFlushed i) = notifySourceFlushed c i"
| "apply_op c NotifyIgnored = ignored_notification c"

lemmas op_defs = setPipeline_def addAudioSource_def rewindSource_def setStarve_def setOversupply_def
  setWithhold_def setCorruptEvery_def notifyPlaybackState_def notifyPosition_def
  notifyNetworkState_def notifyCancelNeedMediaData_def notifyQos_def notifyBufferUnderflow_def
  notifyFirstFrameReceived_def notifyPlaybackError_def notifySourceFlushed_def
  ignored_notification_def clear_pending_def

datatype event =
    Op client_op
  | NeedData int nat u32 bool

fun run_event :: "server \<Rightarrow> FeedClient \<times> pipeline_call list \<Rightarrow> event \<Rightarrow> FeedClient \<times> pipeline_call list" where
  "run_event srv (c, log) (Op op) = (apply_op c op, log)"
| "run_event srv (c, log) (NeedData i n r shm) = notifyNeedMediaData srv (c, log) i n r shm"

definition run_events :: "server \<Rightarrow> FeedClient \<times> pipeline_call list \<Rightarrow> event list \<Rightarrow> FeedClient \<times> pipeline_call list" where
  "run_events srv = foldl (run_event srv)"

section \<open>What a round offers\<close>

text \<open>The segments for a list of frames, the corruption decided by the running count.\<close>

definition corrupt_at :: "nat \<Rightarrow> nat \<Rightarrow> bool" where
  "corrupt_at corruptEvery n \<longleftrightarrow> corruptEvery \<noteq> 0 \<and> n mod corruptEvery = 0"

fun mk_segments :: "int \<Rightarrow> AacElementaryStream \<Rightarrow> nat \<Rightarrow> nat \<Rightarrow> EncodedFrame list \<Rightarrow> MediaSegmentAudio list" where
  "mk_segments i s every offered [] = []"
| "mk_segments i s every offered (f # fs) =
     segment_of i s (corrupt_at every (offered + 1)) f # mk_segments i s every (offered + 1) fs"

lemma length_mk_segments [simp]: "length (mk_segments i s every offered fs) = length fs"
  by (induction fs arbitrary: offered) auto

lemma mk_segments_nth:
  "k < length fs \<Longrightarrow> mk_segments i s every offered fs ! k = segment_of i s (corrupt_at every (offered + k + 1)) (fs ! k)"
proof (induction fs arbitrary: offered k)
  case (Cons f fs)
  then show ?case by (cases k) auto
qed simp

lemma mk_segments_source: "seg \<in> set (mk_segments i s every offered fs) \<Longrightarrow> seg_source seg = i"
  by (induction fs arbitrary: offered) (auto simp: segment_of_def Let_def)

lemma build_batch_spec:
  "build_batch i s every limit idx offered batch =
     (batch @ mk_segments i s every offered (take (limit - length batch) (drop idx (frames s))),
      offered + min (limit - length batch) (length (frames s) - idx))"
proof (induction i s every limit idx offered batch rule: build_batch.induct)
  case (1 i s every limit idx offered batch)
  show ?case
  proof (cases "idx < length (frames s) \<and> length batch < limit")
    case False
    then show ?thesis by (subst build_batch.simps) auto
  next
    case True
    have lim: "limit - length batch = Suc (limit - Suc (length batch))" using True by linarith
    have fr: "drop idx (frames s) = frames s ! idx # drop (Suc idx) (frames s)"
      using True by (simp add: Cons_nth_drop_Suc)
    have "build_batch i s every limit idx offered batch =
        build_batch i s every limit (idx + 1) (offered + 1)
          (batch @ [segment_of i s (corrupt_at every (offered + 1)) (frames s ! idx)])"
      using True by (subst build_batch.simps) (simp add: Let_def corrupt_at_def)
    also have "\<dots> = (batch @ mk_segments i s every offered (take (limit - length batch) (drop idx (frames s))),
      offered + min (limit - length batch) (length (frames s) - idx))"
    proof -
    have len: "length (frames s) - idx = Suc (length (frames s) - Suc idx)" using True by linarith
    have "build_batch i s every limit (idx + 1) (offered + 1)
          (batch @ [segment_of i s (corrupt_at every (offered + 1)) (frames s ! idx)])
      = (batch @ mk_segments i s every offered (take (limit - length batch) (drop idx (frames s))),
      offered + min (limit - length batch) (length (frames s) - idx))"
      using True "1.IH" [OF True refl refl] unfolding lim fr len
      by (simp add: corrupt_at_def)
    then show ?thesis .
    qed
    finally show ?thesis .
  qed
qed

text \<open>The segments of a round of \<open>c\<close> for a feed.\<close>

definition round_segments :: "FeedClient \<Rightarrow> int \<Rightarrow> SourceFeed \<Rightarrow> nat \<Rightarrow> MediaSegmentAudio list" where
  "round_segments c i feed frameCount =
     mk_segments i (stream feed) (m_corruptEvery c) (m_segmentsOffered c)
       (take (offer_limit c frameCount) (drop (nextFrame feed) (frames (stream feed))))"

lemma length_round_segments:
  "length (round_segments c i feed n) = min (offer_limit c n) (length (frames (stream feed)) - nextFrame feed)"
  by (simp add: round_segments_def min.commute)

lemma record_request_simps [simp]:
  "m_pipeline (record_request c i n r shm) = m_pipeline c"
  "m_feeds (record_request c i n r shm) = m_feeds c"
  "m_corruptEvery (record_request c i n r shm) = m_corruptEvery c"
  "m_segmentsOffered (record_request c i n r shm) = m_segmentsOffered c"
  "m_withhold (record_request c i n r shm) = m_withhold c"
  "m_starve (record_request c i n r shm) = m_starve c"
  "m_noSpaceFrame (record_request c i n r shm) = m_noSpaceFrame c"
  "m_noSpaceSegmentAccepted (record_request c i n r shm) = m_noSpaceSegmentAccepted c"
  "m_addOk (record_request c i n r shm) = m_addOk c"
  "m_addNoSpace (record_request c i n r shm) = m_addNoSpace c"
  "m_addError (record_request c i n r shm) = m_addError c"
  "m_allSegmentsAccepted (record_request c i n r shm) = m_allSegmentsAccepted c"
  "m_oversupply (record_request c i n r shm) = m_oversupply c"
  "m_pendingNeedData (record_request c i n r shm) = insert i (m_pendingNeedData c)"
  "m_overlappingNeedData (record_request c i n r shm) = (m_overlappingNeedData c \<or> i \<in> m_pendingNeedData c)"
  "offer_limit (record_request c i n r shm) k = offer_limit c k"
  by (simp_all add: record_request_def offer_limit_def)

lemma nd_begin_spec:
  "nd_begin c i n r shm =
     (if m_pipeline c \<and> m_feeds c i \<noteq> None
      then let segs = round_segments c i (the (m_feeds c i)) n
           in ((record_request c i n r shm)\<lparr>m_segmentsOffered := m_segmentsOffered c + length segs\<rparr>,
               Some \<lparr>rd_batch = segs, rd_first = nextFrame (the (m_feeds c i)),
                     rd_withhold = m_withhold c, rd_starve = m_starve c\<rparr>)
      else (record_request c i n r shm, None))"
  by (auto simp: nd_begin_def Let_def build_batch_spec round_segments_def split: option.splits)

section \<open>The bookkeeping of the offer loop\<close>

text \<open>What the two sections leave alone.\<close>

lemma account_simps [simp]:
  "m_feeds (account_refused c i f st) = m_feeds c" "m_feeds (account_accepted c i f) = m_feeds c"
  "m_pipeline (account_refused c i f st) = m_pipeline c" "m_pipeline (account_accepted c i f) = m_pipeline c"
  "m_pendingNeedData (account_refused c i f st) = m_pendingNeedData c"
  "m_pendingNeedData (account_accepted c i f) = m_pendingNeedData c"
  "m_overlappingNeedData (account_refused c i f st) = m_overlappingNeedData c"
  "m_overlappingNeedData (account_accepted c i f) = m_overlappingNeedData c"
  "m_withhold (account_refused c i f st) = m_withhold c" "m_withhold (account_accepted c i f) = m_withhold c"
  "m_starve (account_refused c i f st) = m_starve c" "m_starve (account_accepted c i f) = m_starve c"
  "m_needDataLog (account_refused c i f st) = m_needDataLog c"
  "m_needDataLog (account_accepted c i f) = m_needDataLog c"
  "m_segmentsOffered (account_refused c i f st) = m_segmentsOffered c"
  "m_segmentsOffered (account_accepted c i f) = m_segmentsOffered c"
  "m_corruptEvery (account_refused c i f st) = m_corruptEvery c"
  "m_corruptEvery (account_accepted c i f) = m_corruptEvery c"
  "m_oversupply (account_refused c i f st) = m_oversupply c"
  "m_oversupply (account_accepted c i f) = m_oversupply c"
  "m_networkStatesSeen (account_refused c i f st) = m_networkStatesSeen c"
  "m_lastState (account_refused c i f st) = m_lastState c"
  "m_stateAtLastError (account_refused c i f st) = m_stateAtLastError c"
  "m_playbackErrorCount (account_refused c i f st) = m_playbackErrorCount c"
  "m_positionUpdates (account_refused c i f st) = m_positionUpdates c"
  "m_lastPosition (account_refused c i f st) = m_lastPosition c"
  "m_statesSeen (account_refused c i f st) = m_statesSeen c"
  "m_networkStatesSeen (account_accepted c i f) = m_networkStatesSeen c"
  "m_lastState (account_accepted c i f) = m_lastState c"
  "m_stateAtLastError (account_accepted c i f) = m_stateAtLastError c"
  "m_playbackErrorCount (account_accepted c i f) = m_playbackErrorCount c"
  "m_positionUpdates (account_accepted c i f) = m_positionUpdates c"
  "m_lastPosition (account_accepted c i f) = m_lastPosition c"
  "m_statesSeen (account_accepted c i f) = m_statesSeen c"
  "m_flushedSources (account_refused c i f st) = m_flushedSources c"
  "m_flushedSources (account_accepted c i f) = m_flushedSources c"
  "m_underflowSources (account_refused c i f st) = m_underflowSources c"
  "m_underflowSources (account_accepted c i f) = m_underflowSources c"
  by (simp_all add: account_refused_def account_accepted_def Let_def)

lemma account_counts [simp]:
  "m_addOk (account_accepted c i f) = m_addOk c + 1"
  "m_addNoSpace (account_accepted c i f) = m_addNoSpace c"
  "m_addError (account_accepted c i f) = m_addError c"
  "m_allSegmentsAccepted (account_accepted c i f) = m_allSegmentsAccepted c"
  "m_addOk (account_refused c i f st) = m_addOk c"
  "m_addNoSpace (account_refused c i f st) = m_addNoSpace c + (if st = NO_SPACE then 1 else 0)"
  "m_addError (account_refused c i f st) = m_addError c + (if st = NO_SPACE then 0 else 1)"
  "m_allSegmentsAccepted (account_refused c i f st) = False"
  by (simp_all add: account_refused_def account_accepted_def Let_def)

lemma account_retained [simp]:
  "m_noSpaceFrame (account_accepted c i f) =
     (if m_noSpaceFrame c i = Some f then (m_noSpaceFrame c)(i := None) else m_noSpaceFrame c)"
  "m_noSpaceSegmentAccepted (account_accepted c i f) \<longleftrightarrow> m_noSpaceSegmentAccepted c \<or> m_noSpaceFrame c i = Some f"
  "m_noSpaceFrame (account_refused c i f st) =
     (if st = NO_SPACE then (m_noSpaceFrame c)(i \<mapsto> f) else m_noSpaceFrame c)"
  "m_noSpaceSegmentAccepted (account_refused c i f st) = m_noSpaceSegmentAccepted c"
  by (auto simp: account_refused_def account_accepted_def Let_def)

lemma clear_pending_simps [simp]:
  "m_feeds (clear_pending c i) = m_feeds c" "m_pendingNeedData (clear_pending c i) = m_pendingNeedData c - {i}"
  "m_noSpaceFrame (clear_pending c i) = m_noSpaceFrame c" "m_addOk (clear_pending c i) = m_addOk c"
  "m_noSpaceSegmentAccepted (clear_pending c i) = m_noSpaceSegmentAccepted c"
  "m_addNoSpace (clear_pending c i) = m_addNoSpace c" "m_addError (clear_pending c i) = m_addError c"
  "m_allSegmentsAccepted (clear_pending c i) = m_allSegmentsAccepted c"
  "m_overlappingNeedData (clear_pending c i) = m_overlappingNeedData c"
  "m_withhold (clear_pending c i) = m_withhold c" "m_pipeline (clear_pending c i) = m_pipeline c"
  "m_starve (clear_pending c i) = m_starve c"
  "m_networkStatesSeen (clear_pending c i) = m_networkStatesSeen c"
  "m_lastState (clear_pending c i) = m_lastState c"
  "m_stateAtLastError (clear_pending c i) = m_stateAtLastError c"
  "m_playbackErrorCount (clear_pending c i) = m_playbackErrorCount c"
  "m_positionUpdates (clear_pending c i) = m_positionUpdates c"
  "m_lastPosition (clear_pending c i) = m_lastPosition c"
  "m_statesSeen (clear_pending c i) = m_statesSeen c" "m_flushedSources (clear_pending c i) = m_flushedSources c"
  "m_underflowSources (clear_pending c i) = m_underflowSources c"
  "m_needDataLog (clear_pending c i) = m_needDataLog c"
  "m_oversupply (clear_pending c i) = m_oversupply c" "m_corruptEvery (clear_pending c i) = m_corruptEvery c"
  by (simp_all add: clear_pending_def)

text \<open>The calls of a round: \<open>k\<close> segments accepted, then possibly one refused.\<close>

definition offer_log :: "u32 \<Rightarrow> MediaSegmentAudio list \<Rightarrow> nat \<Rightarrow> AddSegmentStatus \<Rightarrow> pipeline_call list" where
  "offer_log r segs k st =
     map (\<lambda>s. AddSegment r s ADD_OK) (take k segs)
     @ (if k < length segs then [AddSegment r (segs ! k) st] else [])"

lemma nd_offer_round:
  "nd_offer srv i r first segs a c log = (c', log', a') \<Longrightarrow>
     \<exists>k st. k \<le> length segs \<and> a' = a + k \<and> (k < length segs \<longrightarrow> st \<noteq> ADD_OK)
       \<and> log' = log @ offer_log r segs k st
       \<and> (k < length segs \<longrightarrow> st = srv (log @ map (\<lambda>s. AddSegment r s ADD_OK) (take k segs)) r (segs ! k))
       \<and> (let c1 = foldl (\<lambda>c j. account_accepted c i (first + j)) c [a..<a + k]
          in c' = (if k < length segs then account_refused c1 i (first + a + k) st else c1))"
proof (induction srv i r first segs a c log rule: nd_offer.induct)
  case (1 srv i r first a c log)
  then show ?case by (auto simp: offer_log_def)
next
  case (2 srv i r first seg segs a c log)
  define st where "st = srv log r seg"
  show ?case
  proof (cases "st = ADD_OK")
    case False
    with 2(2) have "account_refused c i (first + a) st = c'" "log' = log @ [AddSegment r seg st]" "a' = a"
      unfolding nd_offer.simps Let_def st_def by auto
    with False show ?thesis
      by (intro exI [of _ 0] exI [of _ st]) (auto simp: offer_log_def st_def)
  next
    case True
    with 2(2) have rest: "nd_offer srv i r first segs (a + 1) (account_accepted c i (first + a))
        (log @ [AddSegment r seg ADD_OK]) = (c', log', a')"
      by (simp add: st_def Let_def)
    have notref: "\<not> srv log r seg \<noteq> ADD_OK" using True by (simp add: st_def)
    from "2.IH" [OF refl refl notref, of] rest True obtain k st' where k: "k \<le> length segs" "a' = a + 1 + k"
      "k < length segs \<longrightarrow> st' \<noteq> ADD_OK"
      "log' = (log @ [AddSegment r seg ADD_OK]) @ offer_log r segs k st'"
      "k < length segs \<longrightarrow> st' = srv ((log @ [AddSegment r seg ADD_OK]) @ map (\<lambda>s. AddSegment r s ADD_OK) (take k segs)) r (segs ! k)"
      "c' = (let c1 = foldl (\<lambda>c j. account_accepted c i (first + j)) (account_accepted c i (first + a)) [a + 1..<a + 1 + k]
         in if k < length segs then account_refused c1 i (first + (a + 1) + k) st' else c1)"
      unfolding Let_def st_def by auto
    have upt: "[a..<Suc (a + n)] = a # [Suc a..<Suc (a + n)]" for n by (simp add: upt_conv_Cons)
    show ?thesis
      using k unfolding Let_def
      by (intro exI [of _ "Suc k"] exI [of _ st'] conjI)
        (simp_all add: offer_log_def upt del: upt_Suc)
  qed
qed

definition accept_many :: "FeedClient \<Rightarrow> int \<Rightarrow> nat \<Rightarrow> nat \<Rightarrow> FeedClient" where
  "accept_many c i first k = foldl (\<lambda>c j. account_accepted c i (first + j)) c [0..<k]"

lemma accept_many_simps [simp]:
  "accept_many c i first 0 = c"
  "accept_many c i first (Suc k) = account_accepted (accept_many c i first k) i (first + k)"
  by (simp_all add: accept_many_def)

lemma accept_many_fields [simp]:
  "m_feeds (accept_many c i first k) = m_feeds c" "m_pipeline (accept_many c i first k) = m_pipeline c"
  "m_pendingNeedData (accept_many c i first k) = m_pendingNeedData c"
  "m_overlappingNeedData (accept_many c i first k) = m_overlappingNeedData c"
  "m_withhold (accept_many c i first k) = m_withhold c" "m_starve (accept_many c i first k) = m_starve c"
  "m_addOk (accept_many c i first k) = m_addOk c + k"
  "m_addNoSpace (accept_many c i first k) = m_addNoSpace c" "m_addError (accept_many c i first k) = m_addError c"
  "m_allSegmentsAccepted (accept_many c i first k) = m_allSegmentsAccepted c"
  "m_networkStatesSeen (accept_many c i first k) = m_networkStatesSeen c"
  "m_lastState (accept_many c i first k) = m_lastState c"
  "m_stateAtLastError (accept_many c i first k) = m_stateAtLastError c"
  "m_playbackErrorCount (accept_many c i first k) = m_playbackErrorCount c"
  "m_positionUpdates (accept_many c i first k) = m_positionUpdates c"
  "m_lastPosition (accept_many c i first k) = m_lastPosition c"
  "m_statesSeen (accept_many c i first k) = m_statesSeen c"
  "m_flushedSources (accept_many c i first k) = m_flushedSources c"
  "m_underflowSources (accept_many c i first k) = m_underflowSources c"
  "m_needDataLog (accept_many c i first k) = m_needDataLog c"
  "m_oversupply (accept_many c i first k) = m_oversupply c"
  "m_corruptEvery (accept_many c i first k) = m_corruptEvery c"
  by (induction k) simp_all

lemma accept_many_retained:
  "m_noSpaceFrame (accept_many c i first k) =
     (if \<exists>j<k. m_noSpaceFrame c i = Some (first + j) then (m_noSpaceFrame c)(i := None) else m_noSpaceFrame c)"
proof (induction k)
  case (Suc k)
  show ?case
  proof (cases "\<exists>j<k. m_noSpaceFrame c i = Some (first + j)")
    case True
    then have "\<exists>j<Suc k. m_noSpaceFrame c i = Some (first + j)" using less_SucI by blast
    with Suc True show ?thesis by simp
  next
    case False
    with Suc have eq: "m_noSpaceFrame (accept_many c i first k) = m_noSpaceFrame c" by simp
    have "(\<exists>j<Suc k. m_noSpaceFrame c i = Some (first + j)) \<longleftrightarrow> m_noSpaceFrame c i = Some (first + k)"
      using False less_Suc_eq by blast
    with eq show ?thesis by simp
  qed
qed simp

lemma accept_many_resent:
  "m_noSpaceSegmentAccepted (accept_many c i first k) \<longleftrightarrow>
     m_noSpaceSegmentAccepted c \<or> (\<exists>j<k. m_noSpaceFrame c i = Some (first + j))"
proof (induction k)
  case (Suc k)
  then show ?case
    by (simp add: accept_many_retained less_Suc_eq) blast
qed simp

section \<open>The round as a whole\<close>

text \<open>The client when the offers of a round begin.\<close>

definition offering_client :: "FeedClient \<Rightarrow> int \<Rightarrow> nat \<Rightarrow> u32 \<Rightarrow> bool \<Rightarrow> FeedClient" where
  "offering_client c i n r shm =
     (record_request c i n r shm)\<lparr>m_segmentsOffered :=
        m_segmentsOffered c + length (round_segments c i (the (m_feeds c i)) n)\<rparr>"

lemma offering_client_fields [simp]:
  "m_pipeline (offering_client c i n r shm) = m_pipeline c"
  "m_feeds (offering_client c i n r shm) = m_feeds c"
  "m_withhold (offering_client c i n r shm) = m_withhold c"
  "m_starve (offering_client c i n r shm) = m_starve c"
  "m_noSpaceFrame (offering_client c i n r shm) = m_noSpaceFrame c"
  "m_noSpaceSegmentAccepted (offering_client c i n r shm) = m_noSpaceSegmentAccepted c"
  "m_addOk (offering_client c i n r shm) = m_addOk c"
  "m_addNoSpace (offering_client c i n r shm) = m_addNoSpace c"
  "m_addError (offering_client c i n r shm) = m_addError c"
  "m_allSegmentsAccepted (offering_client c i n r shm) = m_allSegmentsAccepted c"
  "m_pendingNeedData (offering_client c i n r shm) = insert i (m_pendingNeedData c)"
  "m_overlappingNeedData (offering_client c i n r shm) = (m_overlappingNeedData c \<or> i \<in> m_pendingNeedData c)"
  "m_networkStatesSeen (offering_client c i n r shm) = m_networkStatesSeen c"
  "m_lastState (offering_client c i n r shm) = m_lastState c"
  "m_stateAtLastError (offering_client c i n r shm) = m_stateAtLastError c"
  "m_playbackErrorCount (offering_client c i n r shm) = m_playbackErrorCount c"
  "m_positionUpdates (offering_client c i n r shm) = m_positionUpdates c"
  "m_lastPosition (offering_client c i n r shm) = m_lastPosition c"
  "m_statesSeen (offering_client c i n r shm) = m_statesSeen c"
  "m_flushedSources (offering_client c i n r shm) = m_flushedSources c"
  "m_underflowSources (offering_client c i n r shm) = m_underflowSources c"
  "m_oversupply (offering_client c i n r shm) = m_oversupply c"
  "m_corruptEvery (offering_client c i n r shm) = m_corruptEvery c"
  by (simp_all add: offering_client_def record_request_def)

definition advance :: "FeedClient \<Rightarrow> int \<Rightarrow> SourceFeed \<Rightarrow> nat \<Rightarrow> FeedClient" where
  "advance c i feed k = clear_pending (c\<lparr>m_feeds := (m_feeds c)(i \<mapsto> feed\<lparr>nextFrame := nextFrame feed + k\<rparr>)\<rparr>) i"

lemma advance_fields [simp]:
  "m_feeds (advance c i feed k) = (m_feeds c)(i \<mapsto> feed\<lparr>nextFrame := nextFrame feed + k\<rparr>)"
  "m_pendingNeedData (advance c i feed k) = m_pendingNeedData c - {i}"
  "m_noSpaceFrame (advance c i feed k) = m_noSpaceFrame c" "m_addOk (advance c i feed k) = m_addOk c"
  "m_noSpaceSegmentAccepted (advance c i feed k) = m_noSpaceSegmentAccepted c"
  "m_addNoSpace (advance c i feed k) = m_addNoSpace c" "m_addError (advance c i feed k) = m_addError c"
  "m_allSegmentsAccepted (advance c i feed k) = m_allSegmentsAccepted c"
  "m_overlappingNeedData (advance c i feed k) = m_overlappingNeedData c"
  "m_withhold (advance c i feed k) = m_withhold c" "m_pipeline (advance c i feed k) = m_pipeline c"
  "m_starve (advance c i feed k) = m_starve c"
  "m_networkStatesSeen (advance c i feed k) = m_networkStatesSeen c"
  "m_lastState (advance c i feed k) = m_lastState c"
  "m_stateAtLastError (advance c i feed k) = m_stateAtLastError c"
  "m_playbackErrorCount (advance c i feed k) = m_playbackErrorCount c"
  "m_positionUpdates (advance c i feed k) = m_positionUpdates c"
  "m_lastPosition (advance c i feed k) = m_lastPosition c"
  "m_statesSeen (advance c i feed k) = m_statesSeen c" "m_flushedSources (advance c i feed k) = m_flushedSources c"
  "m_underflowSources (advance c i feed k) = m_underflowSources c"
  "m_oversupply (advance c i feed k) = m_oversupply c" "m_corruptEvery (advance c i feed k) = m_corruptEvery c"
  by (simp_all add: advance_def)

definition offered_client :: "FeedClient \<Rightarrow> int \<Rightarrow> nat \<Rightarrow> nat \<Rightarrow> nat \<Rightarrow> AddSegmentStatus \<Rightarrow> FeedClient" where
  "offered_client c i first len k st =
     (if k < len then account_refused (accept_many c i first k) i (first + k) st
      else accept_many c i first k)"

lemma nd_offer_result:
  assumes "nd_offer srv i r first segs 0 c log = (c', log', k)"
  shows "\<exists>st. k \<le> length segs \<and> (k < length segs \<longrightarrow> st \<noteq> ADD_OK)
       \<and> (k < length segs \<longrightarrow> st = srv (log @ map (\<lambda>s. AddSegment r s ADD_OK) (take k segs)) r (segs ! k))
       \<and> log' = log @ offer_log r segs k st \<and> c' = offered_client c i first (length segs) k st"
  using nd_offer_round [OF assms] unfolding offered_client_def accept_many_def Let_def by auto

lemma round_cases:
  assumes "notifyNeedMediaData srv (c, log) i n r shm = (c', log')"
  obtains (unbound) "\<not> m_pipeline c \<or> m_feeds c i = None" "c' = record_request c i n r shm" "log' = log"
  | (withheld) "m_pipeline c" "m_feeds c i \<noteq> None" "m_withhold c"
      "c' = offering_client c i n r shm" "log' = log"
  | (starved) "m_pipeline c" "m_feeds c i \<noteq> None" "\<not> m_withhold c" "m_starve c"
      "c' = clear_pending (offering_client c i n r shm) i" "log' = log @ [HaveData SOURCE_OK r]"
  | (offered) feed segs k st where "m_pipeline c" "m_feeds c i = Some feed" "\<not> m_withhold c" "\<not> m_starve c"
      "segs = round_segments c i feed n" "k \<le> length segs" "k < length segs \<longrightarrow> st \<noteq> ADD_OK"
      "k < length segs \<longrightarrow> st = srv (log @ map (\<lambda>s. AddSegment r s ADD_OK) (take k segs)) r (segs ! k)"
      "c' = advance (offered_client (offering_client c i n r shm) i (nextFrame feed) (length segs) k st) i feed k"
      "log' = log @ offer_log r segs k st
          @ [HaveData (if nextFrame feed + k \<ge> length (frames (stream feed)) then SOURCE_EOS else SOURCE_OK) r]"
proof (cases "m_pipeline c \<and> m_feeds c i \<noteq> None")
  case False
  with assms show thesis by (intro unbound) (auto simp: notifyNeedMediaData_def nd_begin_spec split: if_splits)
next
  case True
  then obtain feed where feed: "m_feeds c i = Some feed" by auto
  define segs where "segs = round_segments c i feed n"
  have b: "nd_begin c i n r shm = (offering_client c i n r shm,
      Some \<lparr>rd_batch = segs, rd_first = nextFrame feed, rd_withhold = m_withhold c, rd_starve = m_starve c\<rparr>)"
    using True feed by (simp add: nd_begin_spec Let_def offering_client_def segs_def)
  show thesis
  proof (cases "m_withhold c \<or> m_starve c")
    case True
    with assms b show thesis
      using \<open>m_pipeline c \<and> m_feeds c i \<noteq> None\<close> withheld starved
      by (auto simp: notifyNeedMediaData_def split: if_splits)
  next
    case False
    obtain c2 log2 a where o: "nd_offer srv i r (nextFrame feed) segs 0 (offering_client c i n r shm) log = (c2, log2, a)"
      by (cases "nd_offer srv i r (nextFrame feed) segs 0 (offering_client c i n r shm) log")
    define k where "k = a"
    from nd_offer_result [OF o] obtain st where k: "k \<le> length segs" "a = k" "k < length segs \<longrightarrow> st \<noteq> ADD_OK"
      "log2 = log @ offer_log r segs k st"
      "k < length segs \<longrightarrow> st = srv (log @ map (\<lambda>s. AddSegment r s ADD_OK) (take k segs)) r (segs ! k)"
      "c2 = offered_client (offering_client c i n r shm) i (nextFrame feed) (length segs) k st"
      unfolding k_def by blast
    have f2: "m_feeds c2 = m_feeds c" by (simp add: k(6) offered_client_def)
    have "c' = advance c2 i feed k"
      "log' = log2 @ [HaveData (if nextFrame feed + k \<ge> length (frames (stream feed)) then SOURCE_EOS else SOURCE_OK) r]"
      using assms b o False feed f2 k(2)
      by (auto simp: notifyNeedMediaData_def nd_commit_def Let_def advance_def)
    then show thesis
      using offered [OF _ feed _ _ segs_def k(1,3,5)] True False k(4,6) by simp
  qed
qed

text \<open>The segments of a source the server accepted, and the answers it got, in order.\<close>

fun accepted_for :: "int \<Rightarrow> pipeline_call list \<Rightarrow> MediaSegmentAudio list" where
  "accepted_for i [] = []"
| "accepted_for i (AddSegment r s st # log) =
     (if st = ADD_OK \<and> seg_source s = i then s # accepted_for i log else accepted_for i log)"
| "accepted_for i (HaveData st r # log) = accepted_for i log"

lemma accepted_for_append [simp]: "accepted_for i (a @ b) = accepted_for i a @ accepted_for i b"
  by (induction a rule: accepted_for.induct) auto

lemma accepted_for_map:
  "accepted_for j (map (\<lambda>s. AddSegment r s ADD_OK) segs) = filter (\<lambda>s. seg_source s = j) segs"
  by (induction segs) auto

lemma accepted_offer_log:
  assumes "\<forall>s\<in>set segs. seg_source s = i" "k < length segs \<longrightarrow> st \<noteq> ADD_OK"
  shows "accepted_for j (offer_log r segs k st) = (if j = i then take k segs else [])"
proof -
  have "\<forall>s\<in>set (take k segs). seg_source s = i" using assms(1) by (auto dest: in_set_takeD)
  then have "filter (\<lambda>s. seg_source s = j) (take k segs) = (if j = i then take k segs else [])"
    by (auto simp: filter_id_conv filter_empty_conv)
  with assms(2) show ?thesis by (simp add: offer_log_def accepted_for_map)
qed

lemma round_segments_source: "s \<in> set (round_segments c i feed n) \<Longrightarrow> seg_source s = i"
  unfolding round_segments_def by (rule mk_segments_source)

section \<open>One round\<close>

text \<open>One answered request, with any server: the batch is the next frames from the cursor, at
  most the limit asked for; the server is offered them in order until it refuses one; the
  cursor advances by exactly the number accepted; and the round ends with one \<open>haveData\<close>
  for the request, which announces the end of stream exactly when every frame of the source
  has been accepted.  The source is then no longer pending and no other feed moved.\<close>

lemma need_data_round:
  assumes "notifyNeedMediaData srv (c, log) i n r shm = (c', log')"
    and "m_pipeline c" "m_feeds c i = Some feed" "\<not> m_withhold c" "\<not> m_starve c"
    and "segs = round_segments c i feed n"
  shows "length segs = min (offer_limit c n) (length (frames (stream feed)) - nextFrame feed)
   \<and> (\<exists>k st. k \<le> length segs \<and> (k < length segs \<longrightarrow> st \<noteq> ADD_OK)
       \<and> log' = log @ map (\<lambda>s. AddSegment r s ADD_OK) (take k segs)
            @ (if k < length segs then [AddSegment r (segs ! k) st] else [])
            @ [HaveData (if nextFrame feed + k \<ge> length (frames (stream feed)) then SOURCE_EOS else SOURCE_OK) r]
       \<and> m_feeds c' = (m_feeds c)(i \<mapsto> feed\<lparr>nextFrame := nextFrame feed + k\<rparr>)
       \<and> m_pendingNeedData c' = m_pendingNeedData c - {i})"
  using assms(1)
proof (cases rule: round_cases)
  case (offered feed' segs' k st)
  then have "feed' = feed" "segs' = segs" using assms by simp_all
  with offered have "k \<le> length segs" "k < length segs \<longrightarrow> st \<noteq> ADD_OK"
    "log' = log @ offer_log r segs k st
       @ [HaveData (if nextFrame feed + k \<ge> length (frames (stream feed)) then SOURCE_EOS else SOURCE_OK) r]"
    "m_feeds c' = (m_feeds c)(i \<mapsto> feed\<lparr>nextFrame := nextFrame feed + k\<rparr>)"
    "m_pendingNeedData c' = m_pendingNeedData c - {i}"
    by (simp_all add: offered_client_def)
  then show ?thesis
    unfolding offer_log_def append_assoc using length_round_segments [of c i feed n] assms(6) by blast
qed (use assms in simp_all)

definition two_frames :: AacElementaryStream where
  "two_frames = \<lparr>frames = [\<lparr>data = [1, 2], timeStamp = 0, duration = 21\<rparr>, \<lparr>data = [3], timeStamp = 21, duration = 21\<rparr>],
     sampleRate = 48000, channels = 2\<rparr>"

definition bound_client :: FeedClient where
  "bound_client = fresh_client\<lparr>m_pipeline := True, m_feeds := [7 \<mapsto> \<lparr>stream = two_frames, nextFrame = 0\<rparr>]\<rparr>"

definition full_server :: server where
  "full_server log r s = (if length log < 1 then ADD_OK else NO_SPACE)"

lemma need_data_round_witness:
  "\<exists>k. k \<le> 2 \<and> m_feeds (fst (notifyNeedMediaData full_server (bound_client, []) 7 5 9 True)) 7
       = Some \<lparr>stream = two_frames, nextFrame = k\<rparr>"
proof -
  obtain c' log' where e: "notifyNeedMediaData full_server (bound_client, []) 7 5 9 True = (c', log')" by fastforce
  have "m_pipeline bound_client" "m_feeds bound_client 7 = Some \<lparr>stream = two_frames, nextFrame = 0\<rparr>"
    "\<not> m_withhold bound_client" "\<not> m_starve bound_client"
    by (simp_all add: bound_client_def fresh_client_def)
  from need_data_round [OF e this refl] e show ?thesis
    by (auto simp: length_round_segments two_frames_def offer_limit_def bound_client_def fresh_client_def)
qed

text \<open>The faults a case can inject change only what is offered.  An unbound pipeline or an
  unknown source leaves the request recorded and unanswered; withholding does the same, and
  takes precedence over starving; starving answers at once with \<open>haveData(OK)\<close> and no
  segment, even at the end of the stream, and clears the request.\<close>

lemma fault_modes:
  assumes "notifyNeedMediaData srv (c, log) i n r shm = (c', log')"
  shows "(\<not> m_pipeline c \<or> m_feeds c i = None \<or> m_withhold c \<longrightarrow>
           log' = log \<and> m_feeds c' = m_feeds c \<and> i \<in> m_pendingNeedData c')
       \<and> (m_pipeline c \<and> m_feeds c i \<noteq> None \<and> \<not> m_withhold c \<and> m_starve c \<longrightarrow>
           log' = log @ [HaveData SOURCE_OK r] \<and> m_feeds c' = m_feeds c \<and> i \<notin> m_pendingNeedData c')
       \<and> m_overlappingNeedData c' = (m_overlappingNeedData c \<or> i \<in> m_pendingNeedData c)"
  using assms by (cases rule: round_cases) (auto simp: offered_client_def)

lemma fault_modes_witness:
  "snd (notifyNeedMediaData full_server (setWithhold (setStarve bound_client True) True, []) 7 1 3 True) = []"
  using fault_modes [of full_server "setWithhold (setStarve bound_client True) True" "[]" 7 1 3 True]
  by (cases "notifyNeedMediaData full_server (setWithhold (setStarve bound_client True) True, []) 7 1 3 True")
    (simp add: setWithhold_def)

text \<open>The limit of a round is the product of the requested count and the oversupply multiple
  as \<open>size_t\<close> computes it: within 64 bits it is at least the requested count, and a
  multiple large enough makes it wrap, down to an empty round.\<close>

lemma offer_limit_wraps:
  "(n * max 1 (m_oversupply c) < 2 ^ 64 \<longrightarrow> offer_limit c n = n * max 1 (m_oversupply c) \<and> n \<le> offer_limit c n)
   \<and> offer_limit (setOversupply c (2 ^ 63)) 2 = 0 \<and> offer_limit (setOversupply c 0) n = n mod 2 ^ 64"
proof (intro conjI impI)
  assume "n * max 1 (m_oversupply c) < 2 ^ 64"
  moreover have "(if m_oversupply c = 0 then 1 else m_oversupply c) = max 1 (m_oversupply c)" by simp
  ultimately show eq: "offer_limit c n = n * max 1 (m_oversupply c)" by (simp add: offer_limit_def)
  have "n * 1 \<le> n * max 1 (m_oversupply c)" by (intro mult_le_mono2) simp
  then show "n \<le> offer_limit c n" unfolding eq by simp
qed (simp_all add: offer_limit_def setOversupply_def)

lemma offer_limit_wraps_witness: "offer_limit (setOversupply bound_client 3) 5 = 15"
  using offer_limit_wraps [of 5 "setOversupply bound_client 3"] by (simp add: setOversupply_def)

text \<open>Corrupting every \<open>n\<close>-th segment replaces payloads only: the segment keeps the frame's
  time stamp, duration, length and source, its bytes become all \<open>0xA5\<close>, and every other
  segment carries the frame's own bytes.  The count that decides runs over the segments
  built, so frames refused and offered again are counted again.\<close>

lemma corruption_is_payload_only:
  assumes "j < length (round_segments c i feed n)"
  shows "let seg = round_segments c i feed n ! j; f = frames (stream feed) ! (nextFrame feed + j) in
     seg_source seg = i \<and> seg_timeStamp seg = timeStamp f \<and> seg_duration seg = duration f
     \<and> length (seg_data seg) = length (data f) \<and> seg_length seg = word_of_nat (length (data f))
     \<and> seg_data seg = (if m_corruptEvery c \<noteq> 0 \<and> (m_segmentsOffered c + j + 1) mod m_corruptEvery c = 0
                        then replicate (length (data f)) 0xA5 else data f)"
proof -
  have j: "j < offer_limit c n" "nextFrame feed + j < length (frames (stream feed))"
    using assms unfolding length_round_segments by linarith+
  then have "round_segments c i feed n ! j =
      segment_of i (stream feed) (corrupt_at (m_corruptEvery c) (m_segmentsOffered c + j + 1))
        (frames (stream feed) ! (nextFrame feed + j))"
    unfolding round_segments_def by (subst mk_segments_nth) (simp_all add: nth_drop)
  then show ?thesis by (simp add: segment_of_def Let_def corrupt_at_def)
qed

lemma corruption_is_payload_only_witness:
  "seg_data (round_segments (setCorruptEvery bound_client 2) 7 \<lparr>stream = two_frames, nextFrame = 0\<rparr> 2 ! 1) = [0xA5]"
proof -
  have "1 < length (round_segments (setCorruptEvery bound_client 2) 7 \<lparr>stream = two_frames, nextFrame = 0\<rparr> 2)"
    by (simp add: length_round_segments offer_limit_def setCorruptEvery_def bound_client_def fresh_client_def two_frames_def)
  from corruption_is_payload_only [OF this] show ?thesis
    by (simp add: Let_def setCorruptEvery_def bound_client_def fresh_client_def two_frames_def)
qed

section \<open>Runs\<close>

text \<open>An event that does not replace or rewind the feed of \<open>i\<close>.\<close>

fun keeps_source :: "int \<Rightarrow> event \<Rightarrow> bool" where
  "keeps_source i (Op (AddAudioSource j s)) = (j \<noteq> i)"
| "keeps_source i (Op (RewindSource j)) = (j \<noteq> i)"
| "keeps_source i e = True"

text \<open>A segment of source \<open>i\<close> carrying a frame, clean or corrupted.\<close>

definition carries :: "int \<Rightarrow> AacElementaryStream \<Rightarrow> MediaSegmentAudio \<Rightarrow> EncodedFrame \<Rightarrow> bool" where
  "carries i s seg f \<longleftrightarrow> (\<exists>corrupt. seg = segment_of i s corrupt f)"

text \<open>The delivery invariant: what was accepted for \<open>i\<close> is the stream up to the cursor.\<close>

definition delivered :: "int \<Rightarrow> AacElementaryStream \<Rightarrow> FeedClient \<Rightarrow> pipeline_call list \<Rightarrow> bool" where
  "delivered i s c log \<longleftrightarrow>
     (\<exists>n \<le> length (frames s). m_feeds c i = Some \<lparr>stream = s, nextFrame = n\<rparr>
        \<and> list_all2 (carries i s) (accepted_for i log) (take n (frames s)))"

lemma mk_segments_carry: "list_all2 (carries i s) (mk_segments i s every offered fs) fs"
  by (induction fs arbitrary: offered) (auto simp: carries_def)

lemma apply_op_feed:
  "keeps_source i (Op op) \<Longrightarrow> m_feeds (apply_op c op) i = m_feeds c i"
  by (cases op) (auto simp: op_defs split: option.splits)

lemma feed_other_round:
  assumes "notifyNeedMediaData srv (c, log) j n r shm = (c', log')" "j \<noteq> i"
  shows "m_feeds c' i = m_feeds c i \<and> accepted_for i log' = accepted_for i log"
  using assms(1)
proof (cases rule: round_cases)
  case (offered feed segs k st)
  then have "accepted_for i (offer_log r segs k st) = []"
    using accepted_offer_log [of segs j k st i r] round_segments_source assms(2) by auto
  with offered assms(2) show ?thesis by (simp add: offered_client_def)
qed (use assms(2) in simp_all)

lemma delivered_round:
  assumes "delivered i s c log" "notifyNeedMediaData srv (c, log) i n r shm = (c', log')"
  shows "delivered i s c' log'"
proof -
  obtain m where m: "m \<le> length (frames s)" "m_feeds c i = Some \<lparr>stream = s, nextFrame = m\<rparr>"
    "list_all2 (carries i s) (accepted_for i log) (take m (frames s))"
    using assms(1) unfolding delivered_def by blast
  from assms(2) show ?thesis
  proof (cases rule: round_cases)
    case (offered feed segs k st)
    then have feed: "feed = \<lparr>stream = s, nextFrame = m\<rparr>" using m(2) by simp
    have len: "length segs = min (offer_limit c n) (length (frames s) - m)"
      using offered(5) by (simp add: length_round_segments feed)
    have acc: "accepted_for i log' = accepted_for i log @ take k segs"
      using offered(10) accepted_offer_log [of segs i k st i r] round_segments_source offered(5,7) by auto
    have "list_all2 (carries i s) segs (take (offer_limit c n) (drop m (frames s)))"
      unfolding offered(5) round_segments_def feed by (simp add: mk_segments_carry)
    then have "list_all2 (carries i s) (take k segs) (take k (take (offer_limit c n) (drop m (frames s))))"
      by (rule list_all2_takeI)
    moreover have "take k (take (offer_limit c n) (drop m (frames s))) = take k (drop m (frames s))"
      using offered(6) len by (simp add: min_absorb1)
    ultimately have "list_all2 (carries i s) (accepted_for i log') (take m (frames s) @ take k (drop m (frames s)))"
      unfolding acc using m(3) by (intro list_all2_appendI) simp_all
    then have "list_all2 (carries i s) (accepted_for i log') (take (m + k) (frames s))"
      by (simp add: take_add)
    moreover have "m + k \<le> length (frames s)" using offered(6) len m(1) by linarith
    ultimately show ?thesis
      using offered(9) feed unfolding delivered_def by (intro exI [of _ "m + k"]) (simp add: offered_client_def)
  qed (use m in \<open>auto simp: delivered_def\<close>)
qed

lemma delivered_event:
  assumes "delivered i s c log" "keeps_source i e" "run_event srv (c, log) e = (c', log')"
  shows "delivered i s c' log'"
proof (cases e)
  case (Op op)
  with assms show ?thesis using apply_op_feed [of i op c] by (auto simp: delivered_def)
next
  case (NeedData j n r shm)
  with assms(3) have r: "notifyNeedMediaData srv (c, log) j n r shm = (c', log')" by simp
  show ?thesis
  proof (cases "j = i")
    case True
    with assms(1) r show ?thesis using delivered_round by blast
  next
    case False
    from feed_other_round [OF r False] assms(1) show ?thesis by (simp add: delivered_def)
  qed
qed

lemma run_events_simps [simp]:
  "run_events srv cl [] = cl"
  "run_events srv cl (e # es) = run_events srv (run_event srv cl e) es"
  by (simp_all add: run_events_def)

lemma run_events_induct:
  assumes "P cl" "\<forall>e\<in>set es. Q e" "\<And>cl e. P cl \<Longrightarrow> Q e \<Longrightarrow> P (run_event srv cl e)"
  shows "P (run_events srv cl es)"
  using assms(1,2)
proof (induction es arbitrary: cl)
  case (Cons e es)
  have "P (run_event srv cl e)" using Cons.prems by (intro assms(3)) simp_all
  with Cons show ?case by simp
qed simp

lemma delivered_run:
  assumes "delivered i s c log" "\<forall>e\<in>set es. keeps_source i e" "run_events srv (c, log) es = (c', log')"
  shows "delivered i s c' log'"
proof -
  have step: "delivered i s (fst (run_event srv cl e)) (snd (run_event srv cl e))"
    if "delivered i s (fst cl) (snd cl)" "keeps_source i e" for cl e
    using delivered_event [of i s "fst cl" "snd cl" e srv] that by simp
  have "delivered i s (fst (run_events srv (c, log) es)) (snd (run_events srv (c, log) es))"
    using assms(1,2) step
    by (intro run_events_induct [where P = "\<lambda>cl. delivered i s (fst cl) (snd cl)" and Q = "keeps_source i"]) simp_all
  with assms(3) show ?thesis by simp
qed

lemma delivered_start: "accepted_for i log = [] \<Longrightarrow> delivered i s (addAudioSource c i s) log"
  by (simp add: delivered_def addAudioSource_def)

text \<open>C2: Lossless, in-order delivery.  From the registration of a source on, whatever the server
  answers, whatever faults are injected and whatever other sources and notifications are
  interleaved, the segments the server has accepted for the source are exactly the frames up
  to the cursor, each once, in stream order, with their time stamps and durations; the
  cursor never passes the end.\<close>

theorem feed_lossless_in_order:
  assumes "accepted_for i log = []" "\<forall>e\<in>set es. keeps_source i e"
    and "run_events srv (addAudioSource c i s, log) es = (c', log')"
  shows "\<exists>n \<le> length (frames s). m_feeds c' i = Some \<lparr>stream = s, nextFrame = n\<rparr>
      \<and> list_all2 (carries i s) (accepted_for i log') (take n (frames s))"
  using delivered_run [OF delivered_start [OF assms(1)] assms(2,3)] by (simp add: delivered_def)

theorem feed_lossless_in_order_witness:
  "\<exists>c' log' n. run_events full_server (addAudioSource bound_client 7 two_frames, [])
        [NeedData 7 2 1 True, Op (SetStarve True), NeedData 7 1 2 True] = (c', log')
     \<and> list_all2 (carries 7 two_frames) (accepted_for 7 log') (take n (frames two_frames))"
proof -
  define es where "es = [NeedData 7 2 1 True, Op (SetStarve True), NeedData 7 1 2 True]"
  obtain c' log' where e: "run_events full_server (addAudioSource bound_client 7 two_frames, []) es = (c', log')"
    by (rule prod.exhaust)
  have "\<forall>ev\<in>set es. keeps_source 7 ev" by (simp add: es_def)
  from feed_lossless_in_order [OF _ this e] obtain n where
    "list_all2 (carries 7 two_frames) (accepted_for 7 log') (take n (frames two_frames))"
    unfolding accepted_for.simps by blast
  with e show ?thesis unfolding es_def by blast
qed

section \<open>Retain and resend\<close>

text \<open>A frame refused for want of space is the frame at the cursor.\<close>

definition retained_at_cursor :: "int \<Rightarrow> FeedClient \<Rightarrow> bool" where
  "retained_at_cursor i c \<longleftrightarrow>
     (case m_noSpaceFrame c i of
        None \<Rightarrow> True
      | Some f \<Rightarrow> (case m_feeds c i of None \<Rightarrow> False
                   | Some feed \<Rightarrow> nextFrame feed = f \<and> f < length (frames (stream feed))))"

lemma retained_cong:
  assumes "m_noSpaceFrame c' i = m_noSpaceFrame c i" "m_feeds c' i = m_feeds c i"
  shows "retained_at_cursor i c' = retained_at_cursor i c"
  unfolding retained_at_cursor_def assms by (rule refl)

lemma retained_round:
  assumes "retained_at_cursor i c" "notifyNeedMediaData srv (c, log) i n r shm = (c', log')"
  shows "retained_at_cursor i c'"
  using assms(2)
proof (cases rule: round_cases)
  case (offered feed segs k st)
  have len: "length segs \<le> length (frames (stream feed)) - nextFrame feed"
    using offered(5) by (simp add: length_round_segments)
  let ?c0 = "offering_client c i n r shm"
  have ret: "m_noSpaceFrame (accept_many ?c0 i (nextFrame feed) k) i =
      (if 0 < k then None else m_noSpaceFrame c i)"
  proof (cases "m_noSpaceFrame c i")
    case None
    then show ?thesis by (simp add: accept_many_retained)
  next
    case (Some f)
    then have "f = nextFrame feed" using assms(1) offered(2) by (simp add: retained_at_cursor_def)
    then have "(\<exists>j<k. m_noSpaceFrame c i = Some (nextFrame feed + j)) \<longleftrightarrow> 0 < k" using Some by auto
    then show ?thesis by (simp add: accept_many_retained)
  qed
  show ?thesis
  proof (cases "k < length segs \<and> st = NO_SPACE")
    case True
    then have "nextFrame feed + k < length (frames (stream feed))" using len by linarith
    with True offered(9) show ?thesis by (simp add: retained_at_cursor_def offered_client_def)
  next
    case False
    then have "m_noSpaceFrame c' i = (if 0 < k then None else m_noSpaceFrame c i)"
      using offered(9) ret by (auto simp: offered_client_def)
    moreover have "m_feeds c' i = Some (feed\<lparr>nextFrame := nextFrame feed + k\<rparr>)"
      using offered(9) by simp
    ultimately show ?thesis
      using assms(1) offered(2) by (auto simp: retained_at_cursor_def split: option.splits)
  qed
qed (use assms(1) retained_cong [of c' i c] in simp_all)

lemma retained_other_round:
  assumes "notifyNeedMediaData srv (c, log) j n r shm = (c', log')" "j \<noteq> i"
  shows "m_noSpaceFrame c' i = m_noSpaceFrame c i \<and> m_feeds c' i = m_feeds c i"
  using assms(1)
  by (cases rule: round_cases) (use assms(2) in \<open>auto simp: offered_client_def accept_many_retained\<close>)

lemma apply_op_retained:
  "keeps_source i (Op op) \<Longrightarrow> m_noSpaceFrame (apply_op c op) i = m_noSpaceFrame c i"
  by (cases op) (auto simp: op_defs split: option.splits)

lemma retained_event:
  assumes "retained_at_cursor i c" "keeps_source i e" "run_event srv (c, log) e = (c', log')"
  shows "retained_at_cursor i c'"
proof (cases e)
  case (Op op)
  with assms have "c' = apply_op c op" "keeps_source i (Op op)" by simp_all
  with assms(1) retained_cong [of c' i c] show ?thesis by (simp add: apply_op_feed apply_op_retained)
next
  case (NeedData j n r shm)
  with assms(3) have r: "notifyNeedMediaData srv (c, log) j n r shm = (c', log')" by simp
  show ?thesis
  proof (cases "j = i")
    case True
    with assms(1) r show ?thesis using retained_round by blast
  next
    case False
    from retained_other_round [OF r False] assms(1) retained_cong [of c' i c] show ?thesis by simp
  qed
qed

lemma run_retained_delivered:
  assumes "accepted_for i log = []" "m_noSpaceFrame c i = None" "\<forall>e\<in>set es. keeps_source i e"
    and "run_events srv (addAudioSource c i s, log) es = (c', log')"
  shows "retained_at_cursor i c' \<and> delivered i s c' log'"
proof -
  let ?P = "\<lambda>cl. retained_at_cursor i (fst cl) \<and> delivered i s (fst cl) (snd cl)"
  have step: "?P (run_event srv cl e)" if "?P cl" "keeps_source i e" for cl e
    using delivered_event [of i s "fst cl" "snd cl" e srv "fst (run_event srv cl e)" "snd (run_event srv cl e)"]
      retained_event [of i "fst cl" e srv "snd cl" "fst (run_event srv cl e)" "snd (run_event srv cl e)"] that by simp
  have "?P (addAudioSource c i s, log)"
    using assms(1,2) by (simp add: delivered_def addAudioSource_def retained_at_cursor_def)
  then have "?P (run_events srv (addAudioSource c i s, log) es)"
    using assms(3) step by (intro run_events_induct [where P = ?P and Q = "keeps_source i"]) simp_all
  with assms(4) show ?thesis by simp
qed


definition tight_server :: server where
  "tight_server log r s = (if r = 1 then NO_SPACE else ADD_OK)"

lemma tight_first_round:
  "\<exists>c1 log1. run_events tight_server (addAudioSource bound_client 7 two_frames, []) [NeedData 7 2 1 True] = (c1, log1)
     \<and> m_noSpaceFrame c1 7 = Some 0 \<and> m_pipeline c1 \<and> \<not> m_withhold c1 \<and> \<not> m_starve c1 \<and> 0 < offer_limit c1 1"
  by (simp add: notifyNeedMediaData_def nd_begin_spec Let_def round_segments_def offer_limit_def nd_commit_def
      addAudioSource_def bound_client_def fresh_client_def two_frames_def tight_server_def
      account_refused_def record_request_def clear_pending_def)


section \<open>The counters\<close>

fun add_count :: "AddSegmentStatus \<Rightarrow> pipeline_call list \<Rightarrow> nat" where
  "add_count st [] = 0"
| "add_count st (AddSegment r s st' # log) = (if st' = st then 1 else 0) + add_count st log"
| "add_count st (HaveData x r # log) = add_count st log"

lemma add_count_append [simp]: "add_count st (a @ b) = add_count st a + add_count st b"
  by (induction a rule: add_count.induct) auto

lemma add_count_accepted:
  "add_count st (map (\<lambda>s. AddSegment r s ADD_OK) segs) = (if st = ADD_OK then length segs else 0)"
  by (induction segs) auto

definition tallied :: "FeedClient \<Rightarrow> pipeline_call list \<Rightarrow> bool" where
  "tallied c log \<longleftrightarrow> m_addOk c = add_count ADD_OK log \<and> m_addNoSpace c = add_count NO_SPACE log
     \<and> m_addError c = add_count ADD_ERROR log
     \<and> (m_allSegmentsAccepted c \<longleftrightarrow> add_count NO_SPACE log = 0 \<and> add_count ADD_ERROR log = 0)"

lemma tallied_round:
  assumes "tallied c log" "notifyNeedMediaData srv (c, log) i n r shm = (c', log')"
  shows "tallied c' log'"
  using assms(2)
proof (cases rule: round_cases)
  case (offered feed segs k st)
  have "add_count st' (offer_log r segs k st) =
      (if st' = ADD_OK then k else 0) + (if k < length segs \<and> st = st' then 1 else 0)" for st'
    using offered(6) by (auto simp: offer_log_def add_count_accepted)
  then show ?thesis
    using assms(1) offered(7,9,10) by (cases st) (auto simp: tallied_def offered_client_def)
qed (use assms(1) in \<open>auto simp: tallied_def\<close>)

lemma tallied_event:
  assumes "tallied c log" "run_event srv (c, log) e = (c', log')"
  shows "tallied c' log'"
proof (cases e)
  case (Op op)
  then show ?thesis using assms by (cases op) (auto simp: tallied_def op_defs split: option.splits)
next
  case (NeedData j n r shm)
  with assms show ?thesis using tallied_round by auto
qed

lemma tallied_run:
  assumes "run_events srv (fresh_client, []) es = (c, log)"
  shows "tallied c log"
proof -
  let ?P = "\<lambda>cl. tallied (fst cl) (snd cl)"
  have step: "?P (run_event srv cl e)" if "?P cl" for cl e
    using tallied_event [of "fst cl" "snd cl" srv e "fst (run_event srv cl e)" "snd (run_event srv cl e)"] that by simp
  have "?P (fresh_client, [])" by (simp add: tallied_def fresh_client_def)
  then have "?P (run_events srv (fresh_client, []) es)"
    using step by (intro run_events_induct [where P = ?P and Q = "\<lambda>_. True"]) simp_all
  with assms show ?thesis by simp
qed

lemma tallied_exact:
  assumes "tallied c log"
  shows "m_addOk c = add_count ADD_OK log \<and> m_addNoSpace c = add_count NO_SPACE log
     \<and> m_addError c = add_count ADD_ERROR log
     \<and> (m_allSegmentsAccepted c \<longleftrightarrow> (\<forall>r seg st. AddSegment r seg st \<in> set log \<longrightarrow> st = ADD_OK))"
proof -
  have none: "add_count st log = 0 \<longleftrightarrow> (\<forall>r seg. AddSegment r seg st \<notin> set log)" for st
    by (induction st log rule: add_count.induct) auto
  have "(\<forall>r seg st. AddSegment r seg st \<in> set log \<longrightarrow> st = ADD_OK)
      \<longleftrightarrow> (\<forall>r seg. AddSegment r seg NO_SPACE \<notin> set log) \<and> (\<forall>r seg. AddSegment r seg ADD_ERROR \<notin> set log)"
    by (metis AddSegmentStatus.exhaust AddSegmentStatus.distinct(1,3))
  with assms none show ?thesis unfolding tallied_def by simp
qed

text \<open>C12: The status counters are exact: after any run from a fresh client the accepted, refused
  for space and refused for error counts are the numbers of \<open>addSegment\<close> calls with that
  outcome, and \<open>allSegmentsAccepted\<close> holds exactly when none was refused.\<close>

theorem counters_exact:
  assumes "run_events srv (fresh_client, []) es = (c, log)"
  shows "m_addOk c = add_count ADD_OK log \<and> m_addNoSpace c = add_count NO_SPACE log
     \<and> m_addError c = add_count ADD_ERROR log
     \<and> (m_allSegmentsAccepted c \<longleftrightarrow> (\<forall>r seg st. AddSegment r seg st \<in> set log \<longrightarrow> st = ADD_OK))"
  by (rule tallied_exact [OF tallied_run [OF assms]])

theorem counters_exact_witness:
  "\<exists>c log. run_events tight_server (fresh_client, []) [Op (SetPipeline True), Op (AddAudioSource 7 two_frames),
      NeedData 7 2 1 True, NeedData 7 2 2 True] = (c, log) \<and> m_addOk c = add_count ADD_OK log"
proof -
  define es where "es = [Op (SetPipeline True), Op (AddAudioSource 7 two_frames), NeedData 7 2 1 True, NeedData 7 2 2 True]"
  obtain c log where e: "run_events tight_server (fresh_client, []) es = (c, log)" by (rule prod.exhaust)
  from counters_exact [OF e] e show ?thesis unfolding es_def by blast
qed

section \<open>Outstanding requests\<close>

text \<open>Events of a run that answers every request: the pipeline stays bound, nothing is withheld
  and the requests are for registered sources.\<close>

fun answered_event :: "int set \<Rightarrow> event \<Rightarrow> bool" where
  "answered_event known (Op (SetPipeline p)) = p"
| "answered_event known (Op (SetWithhold b)) = (\<not> b)"
| "answered_event known (NeedData i n r shm) = (i \<in> known)"
| "answered_event known e = True"

definition serving :: "int set \<Rightarrow> FeedClient \<Rightarrow> bool" where
  "serving known c \<longleftrightarrow> m_pipeline c \<and> \<not> m_withhold c \<and> known \<subseteq> dom (m_feeds c)
     \<and> m_pendingNeedData c = {} \<and> \<not> m_overlappingNeedData c"

lemma serving_event:
  assumes "serving known c" "answered_event known e" "run_event srv (c, log) e = (c', log')"
  shows "serving known c'"
proof (cases e)
  case (Op op)
  then show ?thesis
    using assms by (cases op) (auto simp: serving_def op_defs split: option.splits)
next
  case (NeedData i n r shm)
  with assms have "notifyNeedMediaData srv (c, log) i n r shm = (c', log')" "i \<in> known" by simp_all
  then show ?thesis
  proof (cases rule: round_cases)
    case (offered feed segs k st)
    then show ?thesis using assms(1) by (auto simp: serving_def offered_client_def)
  qed (use assms(1) \<open>i \<in> known\<close> in \<open>auto simp: serving_def\<close>)
qed

text \<open>C13: A client that serves its requests never sees an overlap: as long as the pipeline is bound,
  nothing is withheld and the requests are for registered sources, each request is answered
  before the next one is recorded, so that no request is pending between two events and the
  overlap flag is never raised.\<close>

theorem serving_never_overlaps:
  assumes "m_pipeline c" "\<not> m_withhold c" "known \<subseteq> dom (m_feeds c)" "m_pendingNeedData c = {}"
    and "\<not> m_overlappingNeedData c" "\<forall>e\<in>set es. answered_event known e"
    and "run_events srv (c, log) es = (c', log')"
  shows "\<not> m_overlappingNeedData c' \<and> m_pendingNeedData c' = {}"
proof -
  let ?P = "\<lambda>cl. serving known (fst cl)"
  have step: "?P (run_event srv cl e)" if "?P cl" "answered_event known e" for cl e
    using serving_event [of known "fst cl" e srv "snd cl" "fst (run_event srv cl e)" "snd (run_event srv cl e)"] that by simp
  have "?P (c, log)" using assms(1-5) by (simp add: serving_def)
  then have "?P (run_events srv (c, log) es)"
    using step assms(6) by (intro run_events_induct [where P = ?P and Q = "answered_event known"]) simp_all
  with assms(7) show ?thesis by (simp add: serving_def)
qed

theorem serving_never_overlaps_witness:
  "\<exists>c' log'. run_events full_server (bound_client, []) [NeedData 7 1 1 True, NeedData 7 1 2 True] = (c', log')
     \<and> \<not> m_overlappingNeedData c'"
proof -
  define es where "es = [NeedData 7 1 1 True, NeedData 7 1 2 True]"
  obtain c' log' where e: "run_events full_server (bound_client, []) es = (c', log')" by (rule prod.exhaust)
  have es: "\<forall>ev\<in>set es. answered_event {7} ev" by (simp add: es_def)
  have c: "m_pipeline bound_client" "\<not> m_withhold bound_client" "{7} \<subseteq> dom (m_feeds bound_client)"
    "m_pendingNeedData bound_client = {}" "\<not> m_overlappingNeedData bound_client"
    by (simp_all add: bound_client_def fresh_client_def)
  from serving_never_overlaps [OF c es e] e show ?thesis unfolding es_def by blast
qed

section \<open>Completion\<close>

lemma accepting_round:
  assumes "\<forall>log r s. srv log r s = ADD_OK" "m_pipeline c" "m_feeds c i = Some feed" "\<not> m_withhold c" "\<not> m_starve c"
    and "nextFrame feed \<le> length (frames (stream feed))"
    and "notifyNeedMediaData srv (c, log) i n r shm = (c', log')"
  defines "m \<equiv> min (length (frames (stream feed))) (nextFrame feed + offer_limit c n)"
  shows "m_feeds c' i = Some (feed\<lparr>nextFrame := m\<rparr>) \<and> m_pipeline c' \<and> \<not> m_withhold c' \<and> \<not> m_starve c'
     \<and> m_oversupply c' = m_oversupply c
     \<and> last log' = HaveData (if length (frames (stream feed)) \<le> m then SOURCE_EOS else SOURCE_OK) r"
  using assms(7)
proof (cases rule: round_cases)
  case (offered feed' segs k st)
  have feed: "feed' = feed" using offered(2) assms(3) by simp
  have "k = length segs" using offered(6-8) assms(1) by fastforce
  then have "nextFrame feed + k = m"
    using offered(5) assms(6) by (simp add: length_round_segments feed m_def)
  then show ?thesis using offered feed by (simp add: offered_client_def)
qed (use assms in simp_all)

text \<open>C11: Feeding completes.  Against a server that accepts what it is offered, the cursor after any
  answered requests is the total of their limits, capped at the stream's length, and the
  last answer announces the end of stream exactly when that total reaches the length; so
  requests for at least one frame each end the stream after at most as many as it has
  frames.\<close>

theorem feeding_completes:
  assumes "\<forall>log r s. srv log r s = ADD_OK" "m_pipeline c" "m_feeds c i = Some \<lparr>stream = s, nextFrame = 0\<rparr>"
    and "\<not> m_withhold c" "\<not> m_starve c" "reqs \<noteq> []"
    and "run_events srv (c, log) (map (\<lambda>(n, r). NeedData i n r True) reqs) = (c', log')"
  shows "m_feeds c' i = Some \<lparr>stream = s, nextFrame = min (length (frames s)) (\<Sum>(n, r)\<leftarrow>reqs. offer_limit c n)\<rparr>
     \<and> last log' = HaveData (if length (frames s) \<le> (\<Sum>(n, r)\<leftarrow>reqs. offer_limit c n) then SOURCE_EOS else SOURCE_OK)
                     (snd (last reqs))
     \<and> ((\<forall>(n, r)\<in>set reqs. 0 < offer_limit c n) \<and> length (frames s) \<le> length reqs \<longrightarrow>
          last log' = HaveData SOURCE_EOS (snd (last reqs)))"
proof -
  have gen: "m_feeds c' i = Some \<lparr>stream = s, nextFrame = min (length (frames s)) (p + (\<Sum>(n, r)\<leftarrow>reqs. offer_limit c n))\<rparr>
     \<and> (reqs \<noteq> [] \<longrightarrow> last log' = HaveData (if length (frames s) \<le> p + (\<Sum>(n, r)\<leftarrow>reqs. offer_limit c n)
           then SOURCE_EOS else SOURCE_OK) (snd (last reqs)))"
    if "m_pipeline c" "m_feeds c i = Some \<lparr>stream = s, nextFrame = p\<rparr>" "p \<le> length (frames s)" "\<not> m_withhold c" "\<not> m_starve c"
      "run_events srv (c, log) (map (\<lambda>(n, r). NeedData i n r True) reqs) = (c', log')" for c p log reqs c' log'
    using that
  proof (induction reqs arbitrary: c p log)
    case (Cons q reqs)
    obtain n r where q: "q = (n, r)" by (cases q)
    obtain c1 log1 where r1: "notifyNeedMediaData srv (c, log) i n r True = (c1, log1)" by (rule prod.exhaust)
    let ?m = "min (length (frames s)) (p + offer_limit c n)"
    from accepting_round [OF assms(1) Cons.prems(1,2,4,5) _ r1] Cons.prems(3)
    have c1: "m_feeds c1 i = Some \<lparr>stream = s, nextFrame = ?m\<rparr>" "m_pipeline c1" "\<not> m_withhold c1" "\<not> m_starve c1"
      "m_oversupply c1 = m_oversupply c"
      "last log1 = HaveData (if length (frames s) \<le> ?m then SOURCE_EOS else SOURCE_OK) r" by simp_all
    have lim: "offer_limit c1 k = offer_limit c k" for k using c1(5) by (simp add: offer_limit_def)
    have run: "run_events srv (c1, log1) (map (\<lambda>(n, r). NeedData i n r True) reqs) = (c', log')"
      using Cons.prems(6) q r1 by simp
    have capped: "min (length (frames s)) (?m + t) = min (length (frames s)) (p + (offer_limit c n + t))"
      "length (frames s) \<le> ?m + t \<longleftrightarrow> length (frames s) \<le> p + (offer_limit c n + t)" for t by linarith+
    show ?case
    proof (cases "reqs = []")
      case True
      with run c1 q capped [of 0] show ?thesis by simp
    next
      case False
      from Cons.IH [OF c1(2,1) _ c1(3,4) run] False q show ?thesis by (simp add: lim capped)
    qed
  qed simp
  have total: "length reqs \<le> (\<Sum>(n, r)\<leftarrow>reqs. offer_limit c n)" if "\<forall>(n, r)\<in>set reqs. 0 < offer_limit c n"
    using that by (induction reqs) auto
  show ?thesis
  proof (intro conjI impI)
    assume "(\<forall>(n, r)\<in>set reqs. 0 < offer_limit c n) \<and> length (frames s) \<le> length reqs"
    then have "length (frames s) \<le> (\<Sum>(n, r)\<leftarrow>reqs. offer_limit c n)" using total by linarith
    then show "last log' = HaveData SOURCE_EOS (snd (last reqs))"
      using gen [OF assms(2,3) _ assms(4,5,7)] assms(6) by simp
  qed (use gen [OF assms(2,3) _ assms(4,5,7)] assms(6) in simp_all)
qed

definition generous_server :: server where
  "generous_server log r s = ADD_OK"

theorem feeding_completes_witness:
  "\<exists>c' log'. run_events generous_server (bound_client, []) (map (\<lambda>(n, r). NeedData 7 n r True) [(1, 1), (1, 2)]) = (c', log')
     \<and> last log' = HaveData SOURCE_EOS 2"
proof -
  define reqs :: "(nat \<times> u32) list" where "reqs = [(1, 1), (1, 2)]"
  obtain c' log' where e: "run_events generous_server (bound_client, []) (map (\<lambda>(n, r). NeedData 7 n r True) reqs) = (c', log')"
    by (rule prod.exhaust)
  have c: "\<forall>log r s. generous_server log r s = ADD_OK" "m_pipeline bound_client"
    "m_feeds bound_client 7 = Some \<lparr>stream = two_frames, nextFrame = 0\<rparr>" "\<not> m_withhold bound_client" "\<not> m_starve bound_client"
    "reqs \<noteq> []"
    by (simp_all add: generous_server_def bound_client_def fresh_client_def reqs_def)
  have "length (frames two_frames) \<le> length reqs" "\<forall>(n, r)\<in>set reqs. 0 < offer_limit bound_client n" "snd (last reqs) = 2"
    by (simp_all add: two_frames_def reqs_def offer_limit_def bound_client_def fresh_client_def)
  with feeding_completes [OF c e] have "last log' = HaveData SOURCE_EOS 2" by metis
  with e show ?thesis unfolding reqs_def by blast
qed

section \<open>Waiting for a notification\<close>

definition client_evolves :: "FeedClient \<Rightarrow> FeedClient \<Rightarrow> bool" where
  "client_evolves c c' \<longleftrightarrow> (\<exists>srv log e. c' = fst (run_event srv (c, log) e))"

lemma seen_monotone:
  assumes "client_evolves c c'"
  shows "m_statesSeen c \<subseteq> m_statesSeen c' \<and> m_flushedSources c \<subseteq> m_flushedSources c'
    \<and> m_underflowSources c \<subseteq> m_underflowSources c'"
proof -
  obtain srv log e where c': "c' = fst (run_event srv (c, log) e)" using assms by (auto simp: client_evolves_def)
  show ?thesis
  proof (cases e)
    case (Op op)
    then show ?thesis using c' by (cases op) (auto simp: op_defs split: option.splits)
  next
    case (NeedData i n r shm)
    obtain c1 log1 where r: "notifyNeedMediaData srv (c, log) i n r shm = (c1, log1)" by (rule prod.exhaust)
    with c' NeedData have "c' = c1" by simp
    from r show ?thesis
      by (cases rule: round_cases) (simp_all add: \<open>c' = c1\<close> offered_client_def record_request_def)
  qed
qed

interpretation state_seen: latch client_evolves "\<lambda>c. st \<in> m_statesSeen c" for st
  by unfold_locales (use seen_monotone in blast)

interpretation flush_seen: latch client_evolves "\<lambda>c. i \<in> m_flushedSources c" for i
  by unfold_locales (use seen_monotone in blast)

interpretation underflow_seen: latch client_evolves "\<lambda>c. i \<in> m_underflowSources c" for i
  by unfold_locales (use seen_monotone in blast)

text \<open>The waits are reliable: however the wake-ups fall among the client's steps, a wait for a
  playback state, a flush or an underflow reports success exactly when the notification had
  arrived by its last look at the state; an earlier state is never forgotten when playback
  moves on.\<close>

lemma waits_are_reliable:
  assumes "cs \<noteq> []" "successively client_evolves cs"
  shows "waitForPlaybackState st cs = (st \<in> m_statesSeen (last cs))
     \<and> waitForSourceFlushed i cs = (i \<in> m_flushedSources (last cs))
     \<and> waitForBufferUnderflow i cs = (i \<in> m_underflowSources (last cs))"
  unfolding waitForPlaybackState_def waitForSourceFlushed_def waitForBufferUnderflow_def
  using state_seen.wait_for_last [OF assms] flush_seen.wait_for_last [OF assms] underflow_seen.wait_for_last [OF assms]
  by blast

lemma waits_are_reliable_witness:
  "waitForPlaybackState PLAYING [fresh_client, notifyPlaybackState fresh_client PLAYING]"
proof -
  have "client_evolves fresh_client (notifyPlaybackState fresh_client PLAYING)"
    unfolding client_evolves_def
    by (intro exI [of _ full_server] exI [of _ "[]"] exI [of _ "Op (NotifyPlaybackState PLAYING)"]) simp
  then have "successively client_evolves [fresh_client, notifyPlaybackState fresh_client PLAYING]" by simp
  from waits_are_reliable [OF _ this, of PLAYING] show ?thesis by (simp add: notifyPlaybackState_def)
qed

text \<open>A non-fatal error is observed without disturbing playback: the error notification records
  the error and the playback state in force, and leaves the last state, the states seen and
  the feed as they were.\<close>

lemma error_keeps_playback_state:
  "let c' = notifyPlaybackError c err in
     m_playbackErrorCount c' = m_playbackErrorCount c + 1 \<and> m_lastPlaybackError c' = err
     \<and> m_stateAtLastError c' = m_lastState c \<and> m_lastState c' = m_lastState c
     \<and> m_statesSeen c' = m_statesSeen c \<and> m_feeds c' = m_feeds c \<and> m_pendingNeedData c' = m_pendingNeedData c"
  by (simp add: notifyPlaybackError_def)

end
