(* ===== verification/Feed_Race.thy ===== *)
theory Feed_Race
  imports Feed_Client
begin

text \<open>
  The feeding client under concurrency.  The need-data handler runs on the pipeline's callback
  thread and gives up the client's mutex between its sections, so that the test thread (and,
  in principle, any other notification) may change the client in between.  The handler is cut
  here at exactly those points; every other operation is one locked section and may happen
  at any of them.  The sections are the functions of \<open>Feed_Client\<close>, and the handler run without
  interruption is \<open>notifyNeedMediaData\<close>.
\<close>

section \<open>The handler, section by section\<close>

text \<open>Where the callback thread stands: outside the handler; about to offer the next segment;
  with the status of a segment it has not accounted for yet; before the last section; before
  \<open>haveData\<close>; in starve mode, before its section; or in behaviour C++ leaves undefined.\<close>

datatype phase =
    Idle
  | Offering int u32 nat "MediaSegmentAudio list" nat
  | Booking int u32 nat AddSegmentStatus "MediaSegmentAudio list" nat
  | Committing int u32 nat
  | Answering u32 MediaSourceStatus
  | Starving int u32
  | Undefined

text \<open>The segments still to be offered keep pointers into the stream of their source; registering
  the source again destroys that stream.  (A corrupted payload is a copy of its own; it is not
  told apart here.)\<close>

fun payload_of :: "phase \<Rightarrow> int option" where
  "payload_of (Offering i r f (seg # rest) a) = Some i"
| "payload_of (Booking i r f ADD_OK (seg # rest) a) = Some i"
| "payload_of ph = None"

fun frees_payload :: "phase \<Rightarrow> client_op \<Rightarrow> bool" where
  "frees_payload ph (AddAudioSource i s) = (payload_of ph = Some i)"
| "frees_payload ph op = False"

type_synonym sys = "FeedClient \<times> pipeline_call list \<times> phase"

inductive feed_step :: "server \<Rightarrow> (client_op \<Rightarrow> bool) \<Rightarrow> sys \<Rightarrow> sys \<Rightarrow> bool"
  for srv :: server and allowed :: "client_op \<Rightarrow> bool" where
  bail: "nd_begin c i n r shm = (c1, None) \<Longrightarrow> feed_step srv allowed (c, log, Idle) (c1, log, Idle)"
| withheld: "nd_begin c i n r shm = (c1, Some rd) \<Longrightarrow> rd_withhold rd \<Longrightarrow>
     feed_step srv allowed (c, log, Idle) (c1, log, Idle)"
| starve: "nd_begin c i n r shm = (c1, Some rd) \<Longrightarrow> \<not> rd_withhold rd \<Longrightarrow> rd_starve rd \<Longrightarrow>
     feed_step srv allowed (c, log, Idle) (c1, log, Starving i r)"
| begin_offer: "nd_begin c i n r shm = (c1, Some rd) \<Longrightarrow> \<not> rd_withhold rd \<Longrightarrow> \<not> rd_starve rd \<Longrightarrow>
     feed_step srv allowed (c, log, Idle) (c1, log, Offering i r (rd_first rd) (rd_batch rd) 0)"
| starve_clear: "feed_step srv allowed (c, log, Starving i r) (clear_pending c i, log, Answering r SOURCE_OK)"
| add: "m_pipeline c \<Longrightarrow> feed_step srv allowed (c, log, Offering i r f (seg # rest) a)
     (c, log @ [AddSegment r seg (srv log r seg)], Booking i r f (srv log r seg) rest a)"
| book_accepted: "feed_step srv allowed (c, log, Booking i r f ADD_OK rest a)
     (account_accepted c i (f + a), log, Offering i r f rest (a + 1))"
| book_refused: "st \<noteq> ADD_OK \<Longrightarrow> feed_step srv allowed (c, log, Booking i r f st rest a)
     (account_refused c i (f + a) st, log, Committing i r a)"
| offered_all: "feed_step srv allowed (c, log, Offering i r f [] a) (c, log, Committing i r a)"
| commit: "nd_commit c i a = (c1, eos) \<Longrightarrow> feed_step srv allowed (c, log, Committing i r a)
     (c1, log, Answering r (if eos then SOURCE_EOS else SOURCE_OK))"
| answer: "m_pipeline c \<Longrightarrow> feed_step srv allowed (c, log, Answering r st) (c, log @ [HaveData st r], Idle)"
| interfere: "allowed op \<Longrightarrow> \<not> frees_payload ph op \<Longrightarrow> feed_step srv allowed (c, log, ph) (apply_op c op, log, ph)"
| add_unbound: "\<not> m_pipeline c \<Longrightarrow> feed_step srv allowed (c, log, Offering i r f (seg # rest) a) (c, log, Undefined)"
| answer_unbound: "\<not> m_pipeline c \<Longrightarrow> feed_step srv allowed (c, log, Answering r st) (c, log, Undefined)"
| payload_freed: "allowed op \<Longrightarrow> frees_payload ph op \<Longrightarrow>
     feed_step srv allowed (c, log, ph) (apply_op c op, log, Undefined)"

inductive_cases feed_stepE: "feed_step srv allowed s s'"

abbreviation feed_steps :: "server \<Rightarrow> (client_op \<Rightarrow> bool) \<Rightarrow> sys \<Rightarrow> sys \<Rightarrow> bool" where
  "feed_steps srv allowed \<equiv> rtranclp (feed_step srv allowed)"

section \<open>The uninterrupted handler\<close>

lemma offer_steps:
  "m_pipeline c \<Longrightarrow> nd_offer srv i r f segs a c log = (c', log', a') \<Longrightarrow>
     feed_steps srv allowed (c, log, Offering i r f segs a) (c', log', Committing i r a') \<and> m_pipeline c'"
proof (induction srv i r f segs a c log rule: nd_offer.induct)
  case (1 srv i r f a c log)
  then show ?case using feed_step.offered_all by (auto intro: r_into_rtranclp)
next
  case (2 srv i r f seg segs a c log)
  let ?st = "srv log r seg"
  have add: "feed_step srv allowed (c, log, Offering i r f (seg # segs) a)
      (c, log @ [AddSegment r seg ?st], Booking i r f ?st segs a)"
    using 2(2) by (rule feed_step.add)
  show ?case
  proof (cases "?st = ADD_OK")
    case False
    with 2(3) have "c' = account_refused c i (f + a) ?st" "log' = log @ [AddSegment r seg ?st]" "a' = a"
      unfolding nd_offer.simps Let_def by auto
    with add feed_step.book_refused [OF False, of srv allowed c "log @ [AddSegment r seg ?st]" i r f segs a] 2(2)
    show ?thesis by (auto intro: converse_rtranclp_into_rtranclp r_into_rtranclp)
  next
    case True
    have rest: "nd_offer srv i r f segs (a + 1) (account_accepted c i (f + a)) (log @ [AddSegment r seg ?st]) = (c', log', a')"
      using 2(3) True unfolding nd_offer.simps Let_def by simp
    have "feed_steps srv allowed (account_accepted c i (f + a), log @ [AddSegment r seg ?st], Offering i r f segs (a + 1))
        (c', log', Committing i r a') \<and> m_pipeline c'"
      using "2.IH" [OF refl refl _ _ rest] True 2(2) by simp
    moreover have "feed_step srv allowed (c, log @ [AddSegment r seg ?st], Booking i r f ?st segs a)
        (account_accepted c i (f + a), log @ [AddSegment r seg ?st], Offering i r f segs (a + 1))"
      unfolding True by (rule feed_step.book_accepted)
    ultimately show ?thesis using add by (meson converse_rtranclp_into_rtranclp)
  qed
qed

text \<open>The atomic handler is a schedule: without interference the sections run to completion and
  leave exactly the client and the calls of \<open>notifyNeedMediaData\<close>.\<close>

lemma handler_refines_steps:
  assumes "notifyNeedMediaData srv (c, log) i n r shm = (c', log')"
  shows "feed_steps srv (\<lambda>_. False) (c, log, Idle) (c', log', Idle)"
proof -
  obtain c1 rd where b: "nd_begin c i n r shm = (c1, rd)" by (rule prod.exhaust)
  have p1: "m_pipeline c1" if "rd \<noteq> None"
    using b that by (auto simp: nd_begin_spec Let_def split: if_splits)
  show ?thesis
  proof (cases rd)
    case None
    with assms b show ?thesis by (auto simp: notifyNeedMediaData_def intro: feed_step.bail)
  next
    case (Some x)
    consider "rd_withhold x" | "\<not> rd_withhold x" "rd_starve x" | "\<not> rd_withhold x" "\<not> rd_starve x" by blast
    then show ?thesis
    proof cases
      case 1
      with assms b Some show ?thesis by (auto simp: notifyNeedMediaData_def intro: feed_step.withheld)
    next
      case 2
      have "m_pipeline (clear_pending c1 i)" using p1 Some by simp
      then have "feed_step srv (\<lambda>_. False) (clear_pending c1 i, log, Answering r SOURCE_OK)
          (clear_pending c1 i, log @ [HaveData SOURCE_OK r], Idle)" by (rule feed_step.answer)
      moreover have "c' = clear_pending c1 i" "log' = log @ [HaveData SOURCE_OK r]"
        using assms b Some 2 by (auto simp: notifyNeedMediaData_def)
      moreover have "feed_step srv (\<lambda>_. False) (c, log, Idle) (c1, log, Starving i r)"
        using b Some 2 by (auto intro: feed_step.starve)
      ultimately show ?thesis
        using feed_step.starve_clear [of srv "\<lambda>_. False" c1 log i r]
        by (meson converse_rtranclp_into_rtranclp r_into_rtranclp)
    next
      case 3
      obtain c2 log2 a where o: "nd_offer srv i r (rd_first x) (rd_batch x) 0 c1 log = (c2, log2, a)"
        by (cases "nd_offer srv i r (rd_first x) (rd_batch x) 0 c1 log")
      obtain c3 eos where m: "nd_commit c2 i a = (c3, eos)" by (rule prod.exhaust)
      have fin: "c' = c3" "log' = log2 @ [HaveData (if eos then SOURCE_EOS else SOURCE_OK) r]"
        using assms b Some 3 o m by (auto simp: notifyNeedMediaData_def)
      from offer_steps [OF _ o, of "\<lambda>_. False"] p1 Some
      have offers: "feed_steps srv (\<lambda>_. False) (c1, log, Offering i r (rd_first x) (rd_batch x) 0) (c2, log2, Committing i r a)"
        and "m_pipeline c2" by simp_all
      then have "m_pipeline c3" using m by (auto simp: nd_commit_def Let_def split: option.splits)
      then have ans: "feed_step srv (\<lambda>_. False) (c3, log2, Answering r (if eos then SOURCE_EOS else SOURCE_OK)) (c', log', Idle)"
        unfolding fin by (rule feed_step.answer)
      have "feed_step srv (\<lambda>_. False) (c, log, Idle) (c1, log, Offering i r (rd_first x) (rd_batch x) 0)"
        using b Some 3 by (auto intro: feed_step.begin_offer)
      from converse_rtranclp_into_rtranclp [OF this offers] feed_step.commit [OF m, of srv "\<lambda>_. False" log2 r] ans
      show ?thesis by (meson rtranclp.rtrancl_into_rtrancl)
    qed
  qed
qed

lemma handler_refines_steps_witness:
  "\<exists>c' log'. feed_steps full_server (\<lambda>_. False) (bound_client, [], Idle) (c', log', Idle)
     \<and> notifyNeedMediaData full_server (bound_client, []) 7 2 1 True = (c', log')"
proof -
  obtain c' log' where e: "notifyNeedMediaData full_server (bound_client, []) 7 2 1 True = (c', log')" by (rule prod.exhaust)
  from handler_refines_steps [OF e] e show ?thesis by blast
qed

section \<open>Invariants of every interleaving\<close>

text \<open>
  The data protocol as an automaton over the calls: the segments of a request are added before
  its \<open>haveData\<close> and before anything of another request, and none after a refused one.
\<close>

datatype bracket = Closed | Opened u32 | Refused u32 | Broken

fun bracket_step :: "bracket \<Rightarrow> pipeline_call \<Rightarrow> bracket" where
  "bracket_step Closed (AddSegment r s st) = (if st = ADD_OK then Opened r else Refused r)"
| "bracket_step (Opened r') (AddSegment r s st) =
     (if r = r' then (if st = ADD_OK then Opened r else Refused r) else Broken)"
| "bracket_step (Refused r') (AddSegment r s st) = Broken"
| "bracket_step Closed (HaveData st r) = Closed"
| "bracket_step (Opened r') (HaveData st r) = (if r = r' then Closed else Broken)"
| "bracket_step (Refused r') (HaveData st r) = (if r = r' then Closed else Broken)"
| "bracket_step Broken call = Broken"

definition brackets :: "pipeline_call list \<Rightarrow> bracket" where
  "brackets = foldl bracket_step Closed"

lemma brackets_snoc [simp]: "brackets (log @ [call]) = bracket_step (brackets log) call"
  by (simp add: brackets_def)

fun bracket_inv :: "pipeline_call list \<Rightarrow> phase \<Rightarrow> bool" where
  "bracket_inv log Idle = (brackets log = Closed)"
| "bracket_inv log (Offering i r f segs a) = (brackets log \<in> {Closed, Opened r})"
| "bracket_inv log (Booking i r f st segs a) = (brackets log = (if st = ADD_OK then Opened r else Refused r))"
| "bracket_inv log (Committing i r a) = (brackets log \<in> {Closed, Opened r, Refused r})"
| "bracket_inv log (Answering r st) = (brackets log \<in> {Closed, Opened r, Refused r})"
| "bracket_inv log (Starving i r) = (brackets log = Closed)"
| "bracket_inv log Undefined = (brackets log \<noteq> Broken)"

lemma bracket_inv_intact: "bracket_inv log ph \<Longrightarrow> brackets log \<noteq> Broken"
  by (cases ph) (auto split: if_splits)

lemma bracket_inv_step:
  "feed_step srv allowed (c, log, ph) (c', log', ph') \<Longrightarrow> bracket_inv log ph \<Longrightarrow> bracket_inv log' ph'"
  by (induction "(c, log, ph)" "(c', log', ph')" arbitrary: c log ph c' log' ph' rule: feed_step.induct)
    (auto dest: bracket_inv_intact)

lemma sys_invariant:
  assumes "feed_steps srv allowed s s'" "P s"
    and "\<And>s s'. feed_step srv allowed s s' \<Longrightarrow> P s \<Longrightarrow> P s'"
  shows "P s'"
  using assms(1,2) by (induction rule: rtranclp_induct) (auto intro: assms(3))

text \<open>C4: Whatever the test thread does between the sections of the handler, the calls on the
  pipeline keep the data protocol: the segments of a request come before its \<open>haveData\<close>, are
  not mixed with another request's, and stop at the first refusal.  This holds up to the point, if
  any, at which an operation makes the handler's next access undefined.\<close>

theorem protocol_kept_under_interference:
  assumes "feed_steps srv allowed (c, [], Idle) (c', log', ph')"
  shows "brackets log' \<noteq> Broken"
proof -
  have "case (c', log', ph') of (c, log, ph) \<Rightarrow> bracket_inv log ph"
  proof (rule sys_invariant [OF assms])
    show "case (c, [], Idle) of (c, log, ph) \<Rightarrow> bracket_inv log ph" by (simp add: brackets_def)
  next
    fix s s' assume "feed_step srv allowed s s'" "case s of (c, log, ph) \<Rightarrow> bracket_inv log ph"
    then show "case s' of (c, log, ph) \<Rightarrow> bracket_inv log ph"
      by (cases s; cases s') (auto dest: bracket_inv_step)
  qed
  then show ?thesis by (auto dest: bracket_inv_intact)
qed

lemma bound_offer_step:
  "feed_step full_server (\<lambda>_. True) (bound_client, [], Idle)
     (offering_client bound_client 7 2 1 True, [],
      Offering 7 1 0 (round_segments bound_client 7 \<lparr>stream = two_frames, nextFrame = 0\<rparr> 2) 0)"
proof -
  have "nd_begin bound_client 7 2 1 True = (offering_client bound_client 7 2 1 True,
     Some \<lparr>rd_batch = round_segments bound_client 7 \<lparr>stream = two_frames, nextFrame = 0\<rparr> 2, rd_first = 0,
           rd_withhold = False, rd_starve = False\<rparr>)"
    by (simp add: nd_begin_spec Let_def offering_client_def bound_client_def fresh_client_def)
  from feed_step.begin_offer [OF this] show ?thesis by simp
qed

theorem protocol_kept_under_interference_witness:
  "brackets [AddSegment 1 (round_segments bound_client 7 \<lparr>stream = two_frames, nextFrame = 0\<rparr> 2 ! 0) ADD_OK] \<noteq> Broken"
proof -
  let ?segs = "round_segments bound_client 7 \<lparr>stream = two_frames, nextFrame = 0\<rparr> 2"
  let ?c = "offering_client bound_client 7 2 1 True"
  have "length ?segs = 2" by (simp add: length_round_segments offer_limit_def bound_client_def fresh_client_def two_frames_def)
  then have s: "?segs = ?segs ! 0 # tl ?segs" by (cases ?segs) auto
  have "m_pipeline ?c" by (simp add: bound_client_def)
  from feed_step.add [OF this, of full_server "\<lambda>_. True" "[]" 7 1 0 "?segs ! 0" "tl ?segs" 0] s
  have "feed_step full_server (\<lambda>_. True) (?c, [], Offering 7 1 0 ?segs 0)
     (?c, [AddSegment 1 (?segs ! 0) ADD_OK], Booking 7 1 0 ADD_OK (tl ?segs) 0)"
    by (simp add: full_server_def)
  with bound_offer_step have "feed_steps full_server (\<lambda>_. True) (bound_client, [], Idle)
     (?c, [AddSegment 1 (?segs ! 0) ADD_OK], Booking 7 1 0 ADD_OK (tl ?segs) 0)"
    by (meson converse_rtranclp_into_rtranclp r_into_rtranclp)
  then show ?thesis by (rule protocol_kept_under_interference)
qed

text \<open>The answers in the log, and the request the handler is working on.\<close>

fun answers :: "pipeline_call list \<Rightarrow> u32 list" where
  "answers [] = []"
| "answers (HaveData st r # log) = r # answers log"
| "answers (AddSegment r s st # log) = answers log"

lemma answers_append [simp]: "answers (a @ b) = answers a @ answers b"
  by (induction a rule: answers.induct) auto

fun in_flight :: "phase \<Rightarrow> u32 list" where
  "in_flight Idle = []"
| "in_flight (Offering i r f segs a) = [r]"
| "in_flight (Booking i r f st segs a) = [r]"
| "in_flight (Committing i r a) = [r]"
| "in_flight (Answering r st) = [r]"
| "in_flight (Starving i r) = [r]"
| "in_flight Undefined = []"

definition requests :: "FeedClient \<Rightarrow> u32 list" where
  "requests c = map nd_requestId (m_needDataLog c)"

lemma requests_op [simp]: "requests (apply_op c op) = requests c"
  by (cases op) (auto simp: requests_def op_defs split: option.splits)

lemma requests_sections [simp]:
  "requests (clear_pending c i) = requests c" "requests (account_accepted c i f) = requests c"
  "requests (account_refused c i f st) = requests c"
  by (simp_all add: requests_def)

lemma requests_commit: "nd_commit c i a = (c1, eos) \<Longrightarrow> requests c1 = requests c"
  by (auto simp: nd_commit_def requests_def Let_def split: option.splits)

lemma requests_begin: "nd_begin c i n r shm = (c1, rd) \<Longrightarrow> requests c1 = requests c @ [r]"
  by (auto simp: nd_begin_spec requests_def record_request_def Let_def split: if_splits)

lemma subseq_shorter: "subseq (xs @ ys) zs \<Longrightarrow> subseq xs zs"
  by (rule subseq_order.order_trans [OF prefix_imp_subseq [OF prefixI [OF refl]]])

lemma answers_step:
  "feed_step srv allowed (c, log, ph) (c', log', ph') \<Longrightarrow>
     subseq (answers log @ in_flight ph) (requests c) \<Longrightarrow> subseq (answers log' @ in_flight ph') (requests c')"
proof (induction "(c, log, ph)" "(c', log', ph')" arbitrary: c log ph c' log' ph' rule: feed_step.induct)
  case (bail c i n r shm c1 log)
  then show ?case by (simp add: requests_begin subseq_rev_drop_many)
next
  case (withheld c i n r shm c1 rd log)
  then show ?case by (simp add: requests_begin subseq_rev_drop_many)
qed (auto simp: requests_begin requests_commit intro: list_emb_append_mono dest: subseq_shorter)

text \<open>Under any interleaving every answer belongs to a recorded request, and the answers come in
  the order of the requests, each request answered at most once: the answered ids, with the
  one in flight, are a subsequence of the requested ids.\<close>

lemma answers_follow_requests:
  assumes "feed_steps srv allowed (fresh_client, [], Idle) (c', log', ph')"
  shows "subseq (answers log' @ in_flight ph') (map nd_requestId (m_needDataLog c'))"
proof -
  have "case (c', log', ph') of (c, log, ph) \<Rightarrow> subseq (answers log @ in_flight ph) (requests c)"
  proof (rule sys_invariant [OF assms])
    show "case (fresh_client, [], Idle) of (c, log, ph) \<Rightarrow> subseq (answers log @ in_flight ph) (requests c)" by simp
  next
    fix s s' assume "feed_step srv allowed s s'" "case s of (c, log, ph) \<Rightarrow> subseq (answers log @ in_flight ph) (requests c)"
    then show "case s' of (c, log, ph) \<Rightarrow> subseq (answers log @ in_flight ph) (requests c)"
      by (cases s; cases s') (auto dest: answers_step)
  qed
  then show ?thesis by (simp add: requests_def)
qed

lemma answers_follow_requests_witness:
  "subseq (answers [HaveData SOURCE_OK 4] @ in_flight Idle)
     (map nd_requestId (m_needDataLog (clear_pending (offering_client (setStarve bound_client True) 7 2 4 True) 7)))"
proof -
  let ?b = "setStarve bound_client True"
  let ?o = "offering_client ?b 7 2 4 True"
  have "feed_steps full_server (\<lambda>_. True) (fresh_client, [], Idle) (?b, [], Idle)"
  proof -
    have "feed_step full_server (\<lambda>_. True) (fresh_client, [], Idle) (setPipeline fresh_client True, [], Idle)"
      using feed_step.interfere [of "\<lambda>_. True" "SetPipeline True" Idle full_server fresh_client "[]"] by simp
    moreover have "feed_step full_server (\<lambda>_. True) (setPipeline fresh_client True, [], Idle) (bound_client, [], Idle)"
      using feed_step.interfere [of "\<lambda>_. True" "AddAudioSource 7 two_frames" Idle full_server "setPipeline fresh_client True" "[]"]
      by (simp add: setPipeline_def addAudioSource_def bound_client_def fresh_client_def)
    moreover have "feed_step full_server (\<lambda>_. True) (bound_client, [], Idle) (?b, [], Idle)"
      using feed_step.interfere [of "\<lambda>_. True" "SetStarve True" Idle full_server bound_client "[]"] by simp
    ultimately show ?thesis by (meson converse_rtranclp_into_rtranclp r_into_rtranclp)
  qed
  moreover have b: "nd_begin ?b 7 2 4 True = (?o, Some \<lparr>rd_batch = round_segments ?b 7 \<lparr>stream = two_frames, nextFrame = 0\<rparr> 2,
      rd_first = 0, rd_withhold = False, rd_starve = True\<rparr>)"
    by (simp add: nd_begin_spec Let_def offering_client_def setStarve_def bound_client_def fresh_client_def)
  have "feed_step full_server (\<lambda>_. True) (?b, [], Idle) (?o, [], Starving 7 4)"
    by (rule feed_step.starve [OF b]) simp_all
  moreover have "feed_step full_server (\<lambda>_. True) (?o, [], Starving 7 4) (clear_pending ?o 7, [], Answering 4 SOURCE_OK)"
    by (rule feed_step.starve_clear)
  moreover have "feed_step full_server (\<lambda>_. True) (clear_pending ?o 7, [], Answering 4 SOURCE_OK)
      (clear_pending ?o 7, [] @ [HaveData SOURCE_OK 4], Idle)"
    by (rule feed_step.answer) (simp add: setStarve_def bound_client_def)
  ultimately have "feed_steps full_server (\<lambda>_. True) (fresh_client, [], Idle) (clear_pending ?o 7, [HaveData SOURCE_OK 4], Idle)"
    by (metis append_Nil rtranclp.rtrancl_into_rtrancl)
  then show ?thesis by (rule answers_follow_requests)
qed

text \<open>Interference that leaves the registration of source \<open>i\<close> alone; rewinding it is allowed.\<close>

fun keeps_registration :: "int \<Rightarrow> client_op \<Rightarrow> bool" where
  "keeps_registration i (AddAudioSource j s) = (j \<noteq> i)"
| "keeps_registration i op = True"

fun in_flight_frames :: "int \<Rightarrow> phase \<Rightarrow> nat" where
  "in_flight_frames i (Offering j r f segs a) = (if j = i then a + length segs else 0)"
| "in_flight_frames i (Booking j r f st segs a) = (if j = i then a + 1 + length segs else 0)"
| "in_flight_frames i (Committing j r a) = (if j = i then a else 0)"
| "in_flight_frames i ph = 0"

definition cursor_inv :: "int \<Rightarrow> AacElementaryStream \<Rightarrow> FeedClient \<Rightarrow> phase \<Rightarrow> bool" where
  "cursor_inv i s c ph \<longleftrightarrow>
     (\<exists>n. m_feeds c i = Some \<lparr>stream = s, nextFrame = n\<rparr> \<and> n + in_flight_frames i ph \<le> length (frames s))"

lemma cursor_inv_mono:
  "cursor_inv i s c ph \<Longrightarrow> m_feeds c' i = m_feeds c i \<Longrightarrow> in_flight_frames i ph' \<le> in_flight_frames i ph \<Longrightarrow>
     cursor_inv i s c' ph'"
  by (auto simp: cursor_inv_def intro: order_trans [OF add_left_mono])

lemma cursor_inv_interfere:
  assumes "cursor_inv i s c ph" "keeps_registration i op"
  shows "cursor_inv i s (apply_op c op) ph"
proof (cases "keeps_source i (Op op)")
  case True
  then show ?thesis using assms(1) apply_op_feed [of i op c] cursor_inv_mono [of i s c ph] by simp
next
  case False
  then have "op = RewindSource i" using assms(2) by (cases op) auto
  then show ?thesis using assms(1) by (auto simp: cursor_inv_def rewindSource_def)
qed

lemma cursor_inv_begin:
  assumes "cursor_inv i s c Idle" "nd_begin c j n r shm = (c1, Some rd)"
  shows "cursor_inv i s c1 (Offering j r (rd_first rd) (rd_batch rd) 0)"
proof -
  from assms(1) obtain p where p: "m_feeds c i = Some \<lparr>stream = s, nextFrame = p\<rparr>" "p \<le> length (frames s)"
    by (auto simp: cursor_inv_def)
  have c1: "m_feeds c1 = m_feeds c" using assms(2) by (auto simp: nd_begin_spec Let_def split: if_splits)
  show ?thesis
  proof (cases "j = i")
    case True
    then have "rd_batch rd = round_segments c i \<lparr>stream = s, nextFrame = p\<rparr> n"
      using assms(2) p(1) by (auto simp: nd_begin_spec Let_def split: if_splits)
    then have "p + length (rd_batch rd) \<le> length (frames s)" using p(2) by (simp add: length_round_segments)
    with p(1) c1 True show ?thesis by (simp add: cursor_inv_def)
  qed (use p c1 in \<open>simp add: cursor_inv_def\<close>)
qed

lemma cursor_inv_commit:
  assumes "cursor_inv i s c (Committing j r a)" "nd_commit c j a = (c1, eos)"
  shows "cursor_inv i s c1 (Answering r' st)"
  using assms by (auto simp: cursor_inv_def nd_commit_def Let_def split: option.splits if_splits)

lemma cursor_inv_step:
  "feed_step srv (keeps_registration i) (c, log, ph) (c', log', ph') \<Longrightarrow> cursor_inv i s c ph \<Longrightarrow> cursor_inv i s c' ph'"
proof (induction "(c, log, ph)" "(c', log', ph')" arbitrary: c log ph c' log' ph' rule: feed_step.induct)
  case (bail c j n r shm c1 log)
  then have "m_feeds c1 = m_feeds c" by (auto simp: nd_begin_spec Let_def split: if_splits)
  with bail show ?case by (auto intro: cursor_inv_mono)
next
  case (withheld c j n r shm c1 rd log)
  then show ?case using cursor_inv_begin [of i s c j n r shm c1 rd] by (auto intro: cursor_inv_mono)
next
  case (starve c j n r shm c1 rd log)
  then show ?case using cursor_inv_begin [of i s c j n r shm c1 rd] by (auto intro: cursor_inv_mono)
next
  case (begin_offer c j n r shm c1 rd log)
  then show ?case using cursor_inv_begin by blast
next
  case (commit c j a c1 eos r log)
  then show ?case using cursor_inv_commit by blast
next
  case (interfere op ph c log)
  then show ?case using cursor_inv_interfere by blast
next
  case (payload_freed op ph c log)
  then have "cursor_inv i s c Undefined" by (auto intro: cursor_inv_mono)
  with payload_freed show ?case by (simp add: cursor_inv_interfere)
qed (auto intro: cursor_inv_mono)



section \<open>What the handler reads without the mutex\<close>

text \<open>The handler calls the pipeline, and lets it read the segments' payloads, outside the mutex.
  Interference is harmless if it neither unbinds the pipeline nor registers a source.\<close>

fun harmless :: "client_op \<Rightarrow> bool" where
  "harmless (SetPipeline p) = p"
| "harmless (AddAudioSource i s) = False"
| "harmless op = True"

definition bound_inv :: "FeedClient \<Rightarrow> phase \<Rightarrow> bool" where
  "bound_inv c ph \<longleftrightarrow> ph \<noteq> Undefined \<and> (if ph = Idle then True else m_pipeline c)"

lemma begin_bound: "nd_begin c i n r shm = (c1, Some rd) \<Longrightarrow> m_pipeline c1"
  by (auto simp: nd_begin_spec Let_def split: if_splits)

lemma commit_bound: "nd_commit c i a = (c1, eos) \<Longrightarrow> m_pipeline c1 = m_pipeline c"
  by (auto simp: nd_commit_def Let_def split: option.splits)

lemma harmless_bound: "harmless op \<Longrightarrow> m_pipeline c \<Longrightarrow> m_pipeline (apply_op c op)"
  by (cases op) (auto simp: op_defs split: option.split)

lemma harmless_keeps_payload: "harmless op \<Longrightarrow> \<not> frees_payload ph op"
  by (cases op) simp_all

lemma bound_inv_step:
  "feed_step srv harmless (c, log, ph) (c', log', ph') \<Longrightarrow> bound_inv c ph \<Longrightarrow> bound_inv c' ph'"
  by (induction "(c, log, ph)" "(c', log', ph')" arbitrary: c log ph c' log' ph' rule: feed_step.induct)
    (auto simp: bound_inv_def commit_bound harmless_bound harmless_keeps_payload dest: begin_bound)

lemma harmless_stays_defined:
  assumes "feed_steps srv harmless (c, log, Idle) (c', log', ph')"
  shows "ph' \<noteq> Undefined"
proof -
  have "case (c', log', ph') of (c, log, ph) \<Rightarrow> bound_inv c ph"
  proof (rule sys_invariant [OF assms])
    show "case (c, log, Idle) of (c, log, ph) \<Rightarrow> bound_inv c ph" by (simp add: bound_inv_def)
  next
    fix s s' assume "feed_step srv harmless s s'" "case s of (c, log, ph) \<Rightarrow> bound_inv c ph"
    then show "case s' of (c, log, ph) \<Rightarrow> bound_inv c ph"
      by (cases s; cases s') (auto dest: bound_inv_step)
  qed
  then show ?thesis by (simp add: bound_inv_def)
qed

text \<open>A round of a bound client with frames left, taken to its first offer.\<close>

lemma reach_offer:
  assumes "m_pipeline c" "m_feeds c i = Some feed" "\<not> m_withhold c" "\<not> m_starve c"
    and "nextFrame feed < length (frames (stream feed))" "offer_limit c n \<noteq> 0"
  shows "\<exists>c1 f seg rest. feed_step srv allowed (c, log, Idle) (c1, log, Offering i r f (seg # rest) 0)
     \<and> m_pipeline c1 \<and> m_feeds c1 = m_feeds c"
proof -
  let ?segs = "round_segments c i feed n"
  have b: "nd_begin c i n r True = (offering_client c i n r True,
      Some \<lparr>rd_batch = ?segs, rd_first = nextFrame feed, rd_withhold = False, rd_starve = False\<rparr>)"
    using assms by (simp add: nd_begin_spec Let_def offering_client_def)
  have "length ?segs \<noteq> 0" using assms(5,6) by (simp add: length_round_segments)
  then obtain seg rest where "?segs = seg # rest" by (cases ?segs) auto
  with feed_step.begin_offer [OF b, of srv allowed log]
  have "feed_step srv allowed (c, log, Idle) (offering_client c i n r True, log, Offering i r (nextFrame feed) (seg # rest) 0)"
    by simp
  moreover have "m_feeds (offering_client c i n r True) = m_feeds c" by (simp add: offering_client_def record_request_def)
  ultimately show ?thesis using begin_bound [OF b] by blast
qed

text \<open>C14: What the handler does outside its mutex is safe against everything but two operations, and
  against neither of those.  As long as the test thread does not unbind the pipeline and does not
  register a source while the handler may run, no interleaving from any client, bound or not,
  calls a null pipeline or hands the server a payload that is gone.  But unbinding the pipeline in
  the middle of a round of a client with frames to offer leads to a call on a null pipeline, and
  registering the source again in the middle of the round destroys payloads the round has still to
  offer.\<close>

theorem handler_defined_exactly:
  assumes "m_pipeline c" "m_feeds c i = Some feed" "\<not> m_withhold c" "\<not> m_starve c"
    and "nextFrame feed < length (frames (stream feed))" "offer_limit c n \<noteq> 0"
  shows "\<not> (\<exists>d log c' log'. feed_steps srv harmless (d, log, Idle) (c', log', Undefined))
     \<and> (\<exists>c' log'. feed_steps srv (\<lambda>op. op = SetPipeline False) (c, log, Idle) (c', log', Undefined))
     \<and> (\<exists>c' log'. feed_steps srv (\<lambda>op. op = AddAudioSource i s) (c, log, Idle) (c', log', Undefined))"
proof (intro conjI)
  show "\<not> (\<exists>d log c' log'. feed_steps srv harmless (d, log, Idle) (c', log', Undefined))"
    using harmless_stays_defined by blast
  let ?unbind = "\<lambda>op. op = SetPipeline False"
  obtain c1 f seg rest where "feed_step srv ?unbind (c, log, Idle) (c1, log, Offering i r f (seg # rest) 0)"
    using reach_offer [OF assms] by blast
  moreover have "feed_step srv ?unbind (c1, log, Offering i r f (seg # rest) 0)
      (setPipeline c1 False, log, Offering i r f (seg # rest) 0)"
    using feed_step.interfere [of ?unbind "SetPipeline False" "Offering i r f (seg # rest) 0" srv c1 log] by simp
  moreover have "feed_step srv ?unbind (setPipeline c1 False, log, Offering i r f (seg # rest) 0)
      (setPipeline c1 False, log, Undefined)"
    by (rule feed_step.add_unbound) (simp add: setPipeline_def)
  ultimately show "\<exists>c' log'. feed_steps srv ?unbind (c, log, Idle) (c', log', Undefined)"
    by (meson converse_rtranclp_into_rtranclp r_into_rtranclp)
  let ?again = "\<lambda>op. op = AddAudioSource i s"
  obtain c2 f2 seg2 rest2 where "feed_step srv ?again (c, log, Idle) (c2, log, Offering i r f2 (seg2 # rest2) 0)"
    using reach_offer [OF assms] by blast
  moreover have "feed_step srv ?again (c2, log, Offering i r f2 (seg2 # rest2) 0)
      (apply_op c2 (AddAudioSource i s), log, Undefined)"
    by (rule feed_step.payload_freed) simp_all
  ultimately show "\<exists>c' log'. feed_steps srv ?again (c, log, Idle) (c', log', Undefined)"
    by (meson converse_rtranclp_into_rtranclp r_into_rtranclp)
qed

theorem handler_defined_exactly_witness:
  "(\<exists>c' log'. feed_steps full_server (\<lambda>op. op = SetPipeline False) (bound_client, [], Idle) (c', log', Undefined))
   \<and> \<not> (\<exists>d log c' log'. feed_steps full_server harmless (d, log, Idle) (c', log', Undefined))"
  using handler_defined_exactly [of bound_client 7 "\<lparr>stream = two_frames, nextFrame = 0\<rparr>" 2 full_server "[]"]
  by (simp add: bound_client_def fresh_client_def two_frames_def offer_limit_def)

section \<open>A rewind in flight\<close>

text \<open>A rewind that falls between the handler's sections is lost in part: if the server accepts
  the whole batch of \<open>k\<close> segments and the source is rewound before the handler's last
  section, the cursor ends at frame \<open>k\<close> and not at 0, so the first \<open>k\<close> frames are not
  offered again.\<close>

lemma rewind_in_flight_is_not_honoured:
  assumes "\<forall>log r s. srv log r s = ADD_OK" "m_pipeline c" "m_feeds c i = Some feed" "\<not> m_withhold c" "\<not> m_starve c"
    and "segs = round_segments c i feed n"
  shows "\<exists>c1 log1 ph c' log'. feed_steps srv (\<lambda>_. False) (c, log, Idle) (c1, log1, ph)
     \<and> feed_steps srv (\<lambda>_. False) (rewindSource c1 i, log1, ph) (c', log', Idle)
     \<and> m_feeds c' i = Some (feed\<lparr>nextFrame := length segs\<rparr>)"
proof -
  let ?c0 = "offering_client c i n r True"
  have b: "nd_begin c i n r True = (?c0,
      Some \<lparr>rd_batch = segs, rd_first = nextFrame feed, rd_withhold = False, rd_starve = False\<rparr>)"
    using assms by (simp add: nd_begin_spec Let_def offering_client_def)
  obtain c2 log2 a where o: "nd_offer srv i r (nextFrame feed) segs 0 ?c0 log = (c2, log2, a)"
    by (cases "nd_offer srv i r (nextFrame feed) segs 0 ?c0 log")
  from nd_offer_result [OF o] obtain st where k: "a \<le> length segs" "a < length segs \<longrightarrow> st \<noteq> ADD_OK"
    "a < length segs \<longrightarrow> st = srv (log @ map (\<lambda>s. AddSegment r s ADD_OK) (take a segs)) r (segs ! a)"
    "c2 = offered_client ?c0 i (nextFrame feed) (length segs) a st"
    by blast
  have a: "a = length segs" using k(1-3) assms(1) by fastforce
  have f2: "m_feeds c2 i = Some feed" "m_pipeline c2" using k(4) assms(2,3) by (simp_all add: offered_client_def)
  have "feed_step srv (\<lambda>_. False) (c, log, Idle) (?c0, log, Offering i r (nextFrame feed) segs 0)"
    using feed_step.begin_offer [OF b] by simp
  moreover have "feed_steps srv (\<lambda>_. False) (?c0, log, Offering i r (nextFrame feed) segs 0) (c2, log2, Committing i r a)"
    using offer_steps [OF _ o] assms(2) by simp
  ultimately have first: "feed_steps srv (\<lambda>_. False) (c, log, Idle) (c2, log2, Committing i r a)"
    by (rule converse_rtranclp_into_rtranclp)
  obtain c3 eos where m: "nd_commit (rewindSource c2 i) i a = (c3, eos)" by (rule prod.exhaust)
  have c3: "m_feeds c3 i = Some (feed\<lparr>nextFrame := length segs\<rparr>)" "m_pipeline c3"
    using m f2 a by (auto simp: nd_commit_def rewindSource_def Let_def)
  have "feed_steps srv (\<lambda>_. False) (rewindSource c2 i, log2, Committing i r a)
      (c3, log2 @ [HaveData (if eos then SOURCE_EOS else SOURCE_OK) r], Idle)"
    using feed_step.commit [OF m, of srv "\<lambda>_. False" log2 r] feed_step.answer [OF c3(2), of srv "\<lambda>_. False" log2 r]
    by (meson converse_rtranclp_into_rtranclp r_into_rtranclp)
  with first c3(1) show ?thesis by blast
qed

lemma rewind_in_flight_is_not_honoured_witness:
  "\<exists>c1 log1 ph c' log'. feed_steps generous_server (\<lambda>_. False) (bound_client, [], Idle) (c1, log1, ph)
     \<and> feed_steps generous_server (\<lambda>_. False) (rewindSource c1 7, log1, ph) (c', log', Idle)
     \<and> m_feeds c' 7 = Some \<lparr>stream = two_frames, nextFrame = 1\<rparr>"
proof -
  have g: "\<forall>log r s. generous_server log r s = ADD_OK" by (simp add: generous_server_def)
  have c: "m_pipeline bound_client" "m_feeds bound_client 7 = Some \<lparr>stream = two_frames, nextFrame = 0\<rparr>"
    "\<not> m_withhold bound_client" "\<not> m_starve bound_client" by (simp_all add: bound_client_def fresh_client_def)
  have "length (round_segments bound_client 7 \<lparr>stream = two_frames, nextFrame = 0\<rparr> 1) = 1"
    by (simp add: length_round_segments offer_limit_def bound_client_def fresh_client_def two_frames_def)
  with rewind_in_flight_is_not_honoured [OF g c refl, where n = 1 and log = "[]"] show ?thesis by simp
qed

end
