(* ===== verification/Feed_Linear.thy ===== *)
theory Feed_Linear
  imports Feed_Race
begin

text \<open>
  The interleavings of \<open>Feed_Race\<close> are serial.  As long as the source a round is for is not
  registered again or rewound before the round's last section, whatever happens between the
  sections of the need-data handler could have happened after it: every interleaved run that ends
  with the handler idle ends in the client and the calls of a run of whole operations.  So what
  \<open>Feed_Client\<close> proves of serial runs holds of the client with its two threads.
\<close>

section \<open>Calm interleavings\<close>

text \<open>The source a round still has segments to offer or a cursor to move for.\<close>

fun source_of :: "phase \<Rightarrow> int option" where
  "source_of (Offering i r f segs a) = Some i"
| "source_of (Booking i r f st segs a) = Some i"
| "source_of (Committing i r a) = Some i"
| "source_of ph = None"

fun leaves :: "int option \<Rightarrow> client_op \<Rightarrow> bool" where
  "leaves (Some i) (AddAudioSource j s) = (j \<noteq> i)"
| "leaves (Some i) (RewindSource j) = (j \<noteq> i)"
| "leaves x op = True"

text \<open>A step of the handler, or an operation (one of those \<open>ops_in\<close> admits) that leaves the source of the
  round alone.\<close>

inductive calm_step :: "server \<Rightarrow> (client_op \<Rightarrow> bool) \<Rightarrow> sys \<Rightarrow> sys \<Rightarrow> bool"
  for srv :: server and ops_in :: "client_op \<Rightarrow> bool" where
  section_step: "feed_step srv (\<lambda>_. False) s s' \<Longrightarrow> calm_step srv ops_in s s'"
| operation: "ops_in op \<Longrightarrow> leaves (source_of ph) op \<Longrightarrow> calm_step srv ops_in (c, log, ph) (apply_op c op, log, ph)"

abbreviation calm_steps :: "server \<Rightarrow> (client_op \<Rightarrow> bool) \<Rightarrow> sys \<Rightarrow> sys \<Rightarrow> bool" where
  "calm_steps srv ops_in \<equiv> rtranclp (calm_step srv ops_in)"

lemma payload_source: "payload_of ph = Some i \<Longrightarrow> source_of ph = Some i"
  by (induction ph rule: payload_of.induct) simp_all

lemma feed_step_mono:
  assumes "feed_step srv allowed s s'" "\<And>op. allowed op \<Longrightarrow> wider op"
  shows "feed_step srv wider s s'"
  using assms(1) by (induction rule: feed_step.induct) (blast intro: feed_step.intros assms(2))+

lemma calm_is_interleaving: "calm_step srv ops_in s s' \<Longrightarrow> feed_step srv ops_in s s'"
proof (induction rule: calm_step.induct)
  case (section_step s s')
  then show ?case by (rule feed_step_mono) simp
next
  case (operation op ph c log)
  have "\<not> frees_payload ph op" using operation(2) payload_source [of ph] by (cases op) auto
  with operation(1) show ?case by (rule feed_step.interfere)
qed

section \<open>Operations commute with the sections\<close>

lemma op_clear_pending: "clear_pending (apply_op c op) i = apply_op (clear_pending c i) op"
  by (cases c; cases op) (auto simp: op_defs split: option.split)

lemma op_accepted: "account_accepted (apply_op c op) i f = apply_op (account_accepted c i f) op"
  by (cases c; cases op) (simp_all add: op_defs account_accepted_def Let_def split: option.split)

lemma op_refused: "account_refused (apply_op c op) i f st = apply_op (account_refused c i f st) op"
  by (cases c; cases op) (simp_all add: op_defs account_refused_def Let_def split: option.split)

lemma op_feed: "leaves (Some i) op \<Longrightarrow> m_feeds (apply_op c op) i = m_feeds c i"
  by (cases op) (auto simp: op_defs split: option.split)

lemma op_set_feed:
  "leaves (Some i) op \<Longrightarrow> (apply_op c op)\<lparr>m_feeds := (m_feeds (apply_op c op))(i \<mapsto> fd)\<rparr>
     = apply_op (c\<lparr>m_feeds := (m_feeds c)(i \<mapsto> fd)\<rparr>) op"
  by (cases c; cases op) (auto simp: op_defs fun_upd_twist split: option.split)

lemma op_commit:
  assumes "leaves (Some i) op"
  shows "nd_commit (apply_op c op) i a = (apply_op (fst (nd_commit c i a)) op, snd (nd_commit c i a))"
  using assms by (simp add: nd_commit_def Let_def op_feed op_set_feed op_clear_pending split: option.split)

abbreviation apply_ops :: "FeedClient \<Rightarrow> client_op list \<Rightarrow> FeedClient" where
  "apply_ops \<equiv> foldl apply_op"

lemma ops_through:
  assumes "\<And>op c. g (apply_op c op) = apply_op (g c) op"
  shows "g (apply_ops c ops) = apply_ops (g c) ops"
  by (induction ops arbitrary: c) (simp_all add: assms)

lemmas ops_sections =
  ops_through [of "\<lambda>c. clear_pending c i", OF op_clear_pending]
  ops_through [of "\<lambda>c. account_accepted c i f", OF op_accepted]
  ops_through [of "\<lambda>c. account_refused c i f st", OF op_refused] for i f st

lemma ops_commit:
  "list_all (leaves (Some i)) ops \<Longrightarrow>
     nd_commit (apply_ops c ops) i a = (apply_ops (fst (nd_commit c i a)) ops, snd (nd_commit c i a))"
  by (induction ops arbitrary: c) (simp_all add: op_commit)

section \<open>The rest of the handler\<close>

definition finish :: "FeedClient \<Rightarrow> pipeline_call list \<Rightarrow> int \<Rightarrow> u32 \<Rightarrow> nat \<Rightarrow> FeedClient \<times> pipeline_call list" where
  "finish c log i r a = (case nd_commit c i a of (c1, eos) \<Rightarrow> (c1, log @ [HaveData (if eos then SOURCE_EOS else SOURCE_OK) r]))"

definition offer_rest ::
  "server \<Rightarrow> FeedClient \<Rightarrow> pipeline_call list \<Rightarrow> int \<Rightarrow> u32 \<Rightarrow> nat \<Rightarrow> MediaSegmentAudio list \<Rightarrow> nat
     \<Rightarrow> FeedClient \<times> pipeline_call list" where
  "offer_rest srv c log i r f segs a = (case nd_offer srv i r f segs a c log of (c1, log1, a1) \<Rightarrow> finish c1 log1 i r a1)"

text \<open>What is left of the handler from a phase on, run without interruption.\<close>

fun complete :: "server \<Rightarrow> FeedClient \<Rightarrow> pipeline_call list \<Rightarrow> phase \<Rightarrow> FeedClient \<times> pipeline_call list" where
  "complete srv c log (Offering i r f segs a) = offer_rest srv c log i r f segs a"
| "complete srv c log (Booking i r f st rest a) =
     (if st = ADD_OK then offer_rest srv (account_accepted c i (f + a)) log i r f rest (a + 1)
      else finish (account_refused c i (f + a) st) log i r a)"
| "complete srv c log (Committing i r a) = finish c log i r a"
| "complete srv c log (Answering r st) = (c, log @ [HaveData st r])"
| "complete srv c log (Starving i r) = (clear_pending c i, log @ [HaveData SOURCE_OK r])"
| "complete srv c log ph = (c, log)"

lemma offer_rest_step:
  "offer_rest srv c log i r f (seg # rest) a =
     complete srv c (log @ [AddSegment r seg (srv log r seg)]) (Booking i r f (srv log r seg) rest a)"
  by (simp add: offer_rest_def Let_def)

lemma offer_rest_end: "offer_rest srv c log i r f [] a = finish c log i r a"
  by (simp add: offer_rest_def)

lemma complete_begin:
  assumes "nd_begin c i n r shm = (c1, Some rd)" "\<not> rd_withhold rd"
  shows "notifyNeedMediaData srv (c, log) i n r shm =
     complete srv c1 log (if rd_starve rd then Starving i r else Offering i r (rd_first rd) (rd_batch rd) 0)"
  using assms by (simp add: notifyNeedMediaData_def offer_rest_def finish_def)

section \<open>The simulation\<close>

fun event_in :: "(client_op \<Rightarrow> bool) \<Rightarrow> event \<Rightarrow> bool" where
  "event_in ops_in (Op op) = ops_in op"
| "event_in ops_in (NeedData i n r shm) = True"

definition serial ::
  "server \<Rightarrow> (client_op \<Rightarrow> bool) \<Rightarrow> FeedClient \<times> pipeline_call list \<Rightarrow> FeedClient \<times> pipeline_call list \<Rightarrow> bool" where
  "serial srv ops_in s0 s \<longleftrightarrow> (\<exists>evs. list_all (event_in ops_in) evs \<and> run_events srv s0 evs = s)"

lemma serial_refl: "serial srv ops_in s0 s0"
  unfolding serial_def by (rule exI [of _ "[]"]) (simp add: run_events_def)

lemma serial_op: "serial srv ops_in s0 (c, log) \<Longrightarrow> ops_in op \<Longrightarrow> serial srv ops_in s0 (apply_op c op, log)"
  unfolding serial_def by (elim exE conjE, rule_tac x = "evs @ [Op op]" in exI) (simp add: run_events_def)

lemma serial_ops: "serial srv ops_in s0 (c, log) \<Longrightarrow> list_all ops_in ops \<Longrightarrow> serial srv ops_in s0 (apply_ops c ops, log)"
  by (induction ops arbitrary: c) (simp_all add: serial_op)

lemma serial_round: "serial srv ops_in s0 (c, log) \<Longrightarrow> serial srv ops_in s0 (notifyNeedMediaData srv (c, log) i n r shm)"
  unfolding serial_def by (elim exE conjE, rule_tac x = "evs @ [NeedData i n r shm]" in exI) (simp add: run_events_def)

text \<open>A state of the interleaved client: \<open>base\<close>, from which the rest of the round leads to a serial
  state, followed by the operations that came in since the round began.\<close>

definition linear_inv :: "server \<Rightarrow> (client_op \<Rightarrow> bool) \<Rightarrow> FeedClient \<times> pipeline_call list \<Rightarrow> sys \<Rightarrow> bool" where
  "linear_inv srv ops_in s0 = (\<lambda>(c, log, ph). ph \<noteq> Undefined \<longrightarrow>
     (\<exists>base ops. list_all ops_in ops \<and> list_all (leaves (source_of ph)) ops \<and> c = apply_ops base ops
        \<and> serial srv ops_in s0 (complete srv base log ph)))"

lemma linear_inv_idle: "linear_inv srv ops_in s0 (c, log, Idle) \<longleftrightarrow> serial srv ops_in s0 (c, log)"
proof
  assume "linear_inv srv ops_in s0 (c, log, Idle)"
  then show "serial srv ops_in s0 (c, log)" by (auto simp: linear_inv_def serial_ops)
next
  assume "serial srv ops_in s0 (c, log)"
  then show "linear_inv srv ops_in s0 (c, log, Idle)"
    by (force simp: linear_inv_def intro: exI [of _ c] exI [of _ "[]"])
qed

lemma linear_invI:
  "serial srv ops_in s0 (complete srv base log ph) \<Longrightarrow> list_all ops_in ops \<Longrightarrow> list_all (leaves (source_of ph)) ops \<Longrightarrow>
     linear_inv srv ops_in s0 (apply_ops base ops, log, ph)"
  by (auto simp: linear_inv_def)

lemma linear_invE:
  assumes "linear_inv srv ops_in s0 (c, log, ph)" "ph \<noteq> Undefined"
  obtains base ops where "list_all ops_in ops" "list_all (leaves (source_of ph)) ops" "c = apply_ops base ops"
    "serial srv ops_in s0 (complete srv base log ph)"
  using assms by (auto simp: linear_inv_def)

lemma leaves_None: "list_all (leaves None) ops"
  by (simp add: list_all_iff)

lemma linear_inv_operation:
  assumes "linear_inv srv ops_in s0 (c, log, ph)" "ops_in op" "leaves (source_of ph) op"
  shows "linear_inv srv ops_in s0 (apply_op c op, log, ph)"
proof (cases "ph = Undefined")
  case False
  with assms(1) obtain base ops where "list_all ops_in ops" "list_all (leaves (source_of ph)) ops" "c = apply_ops base ops"
    "serial srv ops_in s0 (complete srv base log ph)" by (rule linear_invE)
  with assms(2,3) linear_invI [of srv ops_in s0 base log ph "ops @ [op]"] show ?thesis by simp
qed (simp add: linear_inv_def)

lemma linear_inv_section:
  "feed_step srv (\<lambda>_. False) (c, log, ph) (c', log', ph') \<Longrightarrow> linear_inv srv ops_in s0 (c, log, ph) \<Longrightarrow>
     linear_inv srv ops_in s0 (c', log', ph')"
proof (induction "(c, log, ph)" "(c', log', ph')" arbitrary: c log ph c' log' ph' rule: feed_step.induct)
  case (bail c i n r shm c1 log)
  then show ?case
    using serial_round [of srv ops_in s0 c log i n r shm] by (simp add: linear_inv_idle notifyNeedMediaData_def)
next
  case (withheld c i n r shm c1 rd log)
  then show ?case
    using serial_round [of srv ops_in s0 c log i n r shm] by (simp add: linear_inv_idle notifyNeedMediaData_def)
next
  case (starve c i n r shm c1 rd log)
  then show ?case
    using serial_round [of srv ops_in s0 c log i n r shm] complete_begin [of c i n r shm c1 rd srv log]
      linear_invI [of srv ops_in s0 c1 log "Starving i r" "[]"] by (simp add: linear_inv_idle)
next
  case (begin_offer c i n r shm c1 rd log)
  then show ?case
    using serial_round [of srv ops_in s0 c log i n r shm] complete_begin [of c i n r shm c1 rd srv log]
      linear_invI [of srv ops_in s0 c1 log "Offering i r (rd_first rd) (rd_batch rd) 0" "[]"] by (simp add: linear_inv_idle)
next
  case (starve_clear c log i r)
  from linear_invE [OF starve_clear] obtain base ops where "list_all ops_in ops" "c = apply_ops base ops"
    "serial srv ops_in s0 (complete srv base log (Starving i r))" by simp metis
  with linear_invI [of srv ops_in s0 "clear_pending base i" log "Answering r SOURCE_OK" ops] show ?case
    by (simp add: ops_sections leaves_None)
next
  case (add c log i r f seg rest a)
  from linear_invE [OF add(2)] obtain base ops where "list_all ops_in ops" "list_all (leaves (Some i)) ops" "c = apply_ops base ops"
    "serial srv ops_in s0 (complete srv base log (Offering i r f (seg # rest) a))" by simp metis
  with linear_invI [of srv ops_in s0 base "log @ [AddSegment r seg (srv log r seg)]" "Booking i r f (srv log r seg) rest a" ops]
  show ?case by (simp add: offer_rest_step del: complete.simps(2))
next
  case (book_accepted c log i r f rest a)
  from linear_invE [OF book_accepted] obtain base ops where "list_all ops_in ops" "list_all (leaves (Some i)) ops"
    "c = apply_ops base ops" "serial srv ops_in s0 (complete srv base log (Booking i r f ADD_OK rest a))" by simp metis
  with linear_invI [of srv ops_in s0 "account_accepted base i (f + a)" log "Offering i r f rest (a + 1)" ops] show ?case
    by (simp add: ops_sections)
next
  case (book_refused st c log i r f rest a)
  from linear_invE [OF book_refused(2)] obtain base ops where "list_all ops_in ops" "list_all (leaves (Some i)) ops"
    "c = apply_ops base ops" "serial srv ops_in s0 (complete srv base log (Booking i r f st rest a))" by simp metis
  with book_refused(1) linear_invI [of srv ops_in s0 "account_refused base i (f + a) st" log "Committing i r a" ops] show ?case
    by (simp add: ops_sections)
next
  case (offered_all c log i r f a)
  then show ?case by (simp add: linear_inv_def offer_rest_end)
next
  case (commit c i a c1 eos log r)
  from linear_invE [OF commit(2)] obtain base ops where b: "list_all ops_in ops" "list_all (leaves (Some i)) ops"
    "c = apply_ops base ops" "serial srv ops_in s0 (complete srv base log (Committing i r a))" by simp metis
  obtain base1 eos1 where m: "nd_commit base i a = (base1, eos1)" by (rule prod.exhaust)
  have "c1 = apply_ops base1 ops" "eos = eos1" using commit(1) b(2,3) m by (simp_all add: ops_commit)
  with b m linear_invI [of srv ops_in s0 base1 log "Answering r (if eos then SOURCE_EOS else SOURCE_OK)" ops] show ?case
    by (simp add: finish_def leaves_None)
next
  case (answer c log r st)
  from linear_invE [OF answer(2)] obtain base ops where "list_all ops_in ops" "c = apply_ops base ops"
    "serial srv ops_in s0 (complete srv base log (Answering r st))" by simp metis
  with linear_invI [of srv ops_in s0 base "log @ [HaveData st r]" Idle ops] show ?case by (simp add: leaves_None)
qed (simp_all add: linear_inv_def)

lemma linear_inv_step:
  assumes "calm_step srv ops_in s s'" "linear_inv srv ops_in s0 s"
  shows "linear_inv srv ops_in s0 s'"
  using assms
proof (induction rule: calm_step.induct)
  case (section_step s s')
  then show ?case by (cases s; cases s') (auto dest: linear_inv_section)
qed (simp add: linear_inv_operation)

lemma calm_steps_serial:
  assumes "calm_steps srv ops_in (c, log, Idle) (c', log', Idle)"
  shows "serial srv ops_in (c, log) (c', log')"
proof -
  have "linear_inv srv ops_in (c, log) s" if "calm_steps srv ops_in (c, log, Idle) s" for s
    using that by (induction rule: rtranclp_induct) (auto simp: linear_inv_idle serial_refl intro: linear_inv_step)
  from this [OF assms] show ?thesis by (simp add: linear_inv_idle)
qed

section \<open>Serial runs are interleavings\<close>

lemma event_steps:
  assumes "event_in ops_in e" "run_event srv (c, log) e = (c', log')"
  shows "calm_steps srv ops_in (c, log, Idle) (c', log', Idle)"
proof (cases e)
  case (Op op)
  with assms calm_step.operation [of ops_in op Idle srv c log] show ?thesis by auto
next
  case (NeedData i n r shm)
  with assms(2) have "feed_steps srv (\<lambda>_. False) (c, log, Idle) (c', log', Idle)"
    by (auto intro: handler_refines_steps)
  then show ?thesis by (rule rtranclp_mono [THEN predicate2D, rotated]) (auto intro: calm_step.section_step)
qed

lemma run_steps:
  "list_all (event_in ops_in) evs \<Longrightarrow> run_events srv (c, log) evs = (c', log') \<Longrightarrow>
     calm_steps srv ops_in (c, log, Idle) (c', log', Idle)"
proof (induction evs arbitrary: c log)
  case (Cons e evs)
  obtain c1 log1 where e: "run_event srv (c, log) e = (c1, log1)" by (rule prod.exhaust)
  have "calm_steps srv ops_in (c, log, Idle) (c1, log1, Idle)" using event_steps [OF _ e] Cons.prems(1) by simp
  moreover have "calm_steps srv ops_in (c1, log1, Idle) (c', log', Idle)"
    using Cons e by (simp add: run_events_def)
  ultimately show ?case by (rule rtranclp_trans)
qed (simp add: run_events_def)

text \<open>C3: The client with its two threads is linearisable.  Let the handler's sections interleave with
  any operations of a given kind, except that the source of the round under way is not registered
  again or rewound before the round's last section.  Then the clients and calls reached with the
  handler idle are exactly those that runs of whole requests and whole operations of that kind
  reach: giving up the mutex between sections adds no behaviour.\<close>

theorem interleavings_are_serial:
  "calm_steps srv ops_in (c, log, Idle) (c', log', Idle) \<longleftrightarrow>
     (\<exists>evs. list_all (event_in ops_in) evs \<and> run_events srv (c, log) evs = (c', log'))"
  using calm_steps_serial run_steps unfolding serial_def by blast

text \<open>C15: Feeding survives the threads.  From the registration of a source on, with a server that
  answers at will, other sources coming and going, and notifications and settings arriving between
  any two sections of the handler, whenever the handler is idle the segments accepted for the
  source are exactly the frames up to its cursor, each once and in order; and from a fresh client
  on the status counters count exactly the server's answers.\<close>

theorem feeding_survives_interference:
  assumes "calm_steps srv (leaves (Some i)) (addAudioSource c i s, log, Idle) (c', log', Idle)" "accepted_for i log = []"
    and "calm_steps srv (\<lambda>_. True) (fresh_client, [], Idle) (d, log2, Idle)"
  shows "(\<exists>n \<le> length (frames s). m_feeds c' i = Some \<lparr>stream = s, nextFrame = n\<rparr>
      \<and> list_all2 (carries i s) (accepted_for i log') (take n (frames s)))
    \<and> m_addOk d = add_count ADD_OK log2 \<and> m_addNoSpace d = add_count NO_SPACE log2 \<and> m_addError d = add_count ADD_ERROR log2"
proof (intro conjI)
  obtain evs where evs: "list_all (event_in (leaves (Some i))) evs" "run_events srv (addAudioSource c i s, log) evs = (c', log')"
    using calm_steps_serial [OF assms(1)] by (auto simp: serial_def)
  have "keeps_source i e" if "event_in (leaves (Some i)) e" for e
    using that by (induction i e rule: keeps_source.induct) simp_all
  with evs(1) have "\<forall>e\<in>set evs. keeps_source i e" by (auto simp: list_all_iff)
  from delivered_run [OF delivered_start [OF assms(2)] this evs(2)]
  show "\<exists>n \<le> length (frames s). m_feeds c' i = Some \<lparr>stream = s, nextFrame = n\<rparr>
      \<and> list_all2 (carries i s) (accepted_for i log') (take n (frames s))"
    by (simp add: delivered_def)
  obtain es where "run_events srv (fresh_client, []) es = (d, log2)"
    using calm_steps_serial [OF assms(3)] by (auto simp: serial_def)
  from tallied_exact [OF tallied_run [OF this]]
  show "m_addOk d = add_count ADD_OK log2" "m_addNoSpace d = add_count NO_SPACE log2" "m_addError d = add_count ADD_ERROR log2"
    by simp_all
qed

theorem feeding_survives_interference_witness:
  "\<exists>c' log' n. run_events full_server (addAudioSource bound_client 7 two_frames, []) [NeedData 7 2 1 True, Op (SetStarve True)] = (c', log')
     \<and> list_all2 (carries 7 two_frames) (accepted_for 7 log') (take n (frames two_frames))"
proof -
  define es where "es = [NeedData 7 2 1 True, Op (SetStarve True)]"
  obtain c' log' where e: "run_events full_server (addAudioSource bound_client 7 two_frames, []) es = (c', log')"
    by (rule prod.exhaust)
  have "calm_steps full_server (leaves (Some 7)) (addAudioSource bound_client 7 two_frames, [], Idle) (c', log', Idle)"
    using e by (intro run_steps [of _ es]) (simp_all add: es_def)
  moreover have "calm_steps full_server (\<lambda>_. True) (fresh_client, [], Idle) (fresh_client, [], Idle)" by (rule rtranclp.rtrancl_refl)
  moreover have "accepted_for 7 [] = []" by simp
  ultimately obtain n where "list_all2 (carries 7 two_frames) (accepted_for 7 log') (take n (frames two_frames))"
    using feeding_survives_interference [of full_server 7 bound_client two_frames "[]" c' log' fresh_client "[]"] by blast
  with e show ?thesis unfolding es_def by blast
qed

end
