(* ===== verification/Release_Gate.thy ===== *)
theory Release_Gate
  imports Conf_Prelude
begin

text \<open>
  Rialto-release targeting: \<open>include/conformance/RialtoRelease.h\<close>.  The comparison
  parses up to three dotted components of each release (an optional leading v, characters
  that are neither a digit nor a dot skipped) and compares them from the left.  A component
  is accumulated in a \<open>long\<close> (64 bits here) and narrowed to \<open>int\<close>; an accumulation that
  leaves the range of \<open>long\<close> is undefined behaviour and is \<open>None\<close> in the model.
\<close>

section \<open>The model\<close>

definition kTargetRialtoRelease :: string where
  "kTargetRialtoRelease = ''v0.24.0''"

definition long_max :: int where
  "long_max = 2 ^ 63 - 1"

text \<open>\<open>static_cast<int>(n)\<close>: the low 32 bits read as two's complement.\<close>

definition int_cast :: "int \<Rightarrow> int" where
  "int_cast n = signed_take_bit 31 n"

text \<open>
  The loop of the parser on the characters that are left, with the component being read
  and the number of components already written; the end of the string closes the current
  component just as a dot does, and the loop stops once three are written.
\<close>

fun parse_loop :: "string \<Rightarrow> int \<Rightarrow> nat \<Rightarrow> int list option" where
  "parse_loop cs n idx =
     (if idx \<ge> 3 then Some []
      else (case cs of
        [] \<Rightarrow> map_option ((#) (int_cast n)) (Some [])
      | c # rest \<Rightarrow>
          if c = CHR ''.'' then map_option ((#) (int_cast n)) (parse_loop rest 0 (Suc idx))
          else if is_digit c then
            (let n' = n * 10 + int (digit_val c)
             in if n' > long_max then None else parse_loop rest n' idx)
          else parse_loop rest n idx))"

declare parse_loop.simps [simp del]

definition skip_v :: "string \<Rightarrow> string" where
  "skip_v s = (case s of [] \<Rightarrow> [] | c # r \<Rightarrow> if c = CHR ''v'' \<or> c = CHR ''V'' then r else s)"

text \<open>\<open>out[0] = out[1] = out[2] = 0\<close>, then the components read overwrite from the left.\<close>

definition parse_release :: "string \<Rightarrow> (int \<times> int \<times> int) option" where
  "parse_release s =
     map_option (\<lambda>out. let o3 = take 3 (out @ [0, 0, 0]) in (o3 ! 0, o3 ! 1, o3 ! 2))
       (parse_loop (skip_v s) 0 0)"

fun compare_release :: "int \<times> int \<times> int \<Rightarrow> int \<times> int \<times> int \<Rightarrow> bool" where
  "compare_release (h0, h1, h2) (n0, n1, n2) =
     (if h0 \<noteq> n0 then h0 > n0
      else if h1 \<noteq> n1 then h1 > n1
      else if h2 \<noteq> n2 then h2 > n2
      else True)"

definition releaseAtLeast :: "string \<Rightarrow> string \<Rightarrow> bool option" where
  "releaseAtLeast have need =
     (case parse_release have of None \<Rightarrow> None
      | Some h \<Rightarrow> map_option (compare_release h) (parse_release need))"

section \<open>Releases as they are written\<close>

definition render_release :: "nat \<Rightarrow> nat \<Rightarrow> nat \<Rightarrow> string" where
  "render_release a b c =
     ''v'' @ to_dec a @ ''.'' @ to_dec b @ ''.'' @ to_dec c"

lemma dot_no_digit [simp]: "\<not> is_digit CHR ''.''"
  by (simp add: is_digit_def less_eq_char_def)

lemma int_cast_id: "0 \<le> n \<Longrightarrow> n < 2 ^ 31 \<Longrightarrow> int_cast n = n"
  unfolding int_cast_def by (simp add: signed_take_bit_int_eq_self)

lemma dec_val_mono: "n \<le> dec_val n s"
proof (induction s arbitrary: n)
  case (Cons c s)
  have "n \<le> n * 10 + digit_val c" by simp
  also have "\<dots> \<le> dec_val (n * 10 + digit_val c) s" by (rule Cons.IH)
  finally show ?case by (simp add: dec_val_def)
qed (simp add: dec_val_def)

text \<open>A run of digits accumulates its decimal value, unless it overflows.\<close>

lemma parse_loop_digits:
  assumes "\<forall>c\<in>set ds. is_digit c" "int (dec_val m ds) \<le> long_max" "idx < 3"
  shows "parse_loop (ds @ rest) (int m) idx = parse_loop rest (int (dec_val m ds)) idx"
  using assms
proof (induction ds arbitrary: m)
  case Nil
  then show ?case by (simp add: dec_val_def)
next
  case (Cons d ds)
  let ?m = "m * 10 + digit_val d"
  have val: "dec_val m (d # ds) = dec_val ?m ds" by (simp add: dec_val_def)
  have "int ?m \<le> long_max"
    using Cons.prems(2) dec_val_mono [of ?m ds] by (simp add: val)
  moreover have "d \<noteq> CHR ''.''" using Cons.prems(1) dot_no_digit by auto
  moreover have "parse_loop (ds @ rest) (int ?m) idx = parse_loop rest (int (dec_val ?m ds)) idx"
    using Cons.prems by (intro Cons.IH) (simp_all add: val)
  ultimately show ?case
    using Cons.prems(1,3) val
    by (subst parse_loop.simps) (simp add: Let_def)
qed

lemma parse_loop_number:
  assumes "int n \<le> long_max" "idx < 3"
  shows "parse_loop (to_dec n @ rest) 0 idx = parse_loop rest (int n) idx"
  using parse_loop_digits [of "to_dec n" 0 idx rest] assms by (auto dest: to_dec_digits)

lemma parse_loop_dot:
  "idx < 3 \<Longrightarrow>
     parse_loop (CHR ''.'' # rest) n idx = map_option ((#) (int_cast n)) (parse_loop rest 0 (Suc idx))"
  by (subst parse_loop.simps) simp

lemma parse_loop_end: "idx < 3 \<Longrightarrow> parse_loop [] n idx = Some [int_cast n]"
  by (subst parse_loop.simps) simp

lemma parse_render_gen:
  assumes "int a \<le> long_max" "int b \<le> long_max" "int c \<le> long_max"
  shows "parse_release (render_release a b c) =
           Some (int_cast (int a), int_cast (int b), int_cast (int c))"
proof -
  have "parse_loop (to_dec a @ ''.'' @ to_dec b @ ''.'' @ to_dec c) 0 0 =
          Some [int_cast (int a), int_cast (int b), int_cast (int c)]"
    using assms parse_loop_number [of c 2 "[]"]
    by (simp add: parse_loop_number parse_loop_dot parse_loop_end numeral_2_eq_2)
  then show ?thesis
    by (simp add: parse_release_def render_release_def skip_v_def)
qed

text \<open>Parsing a rendered release gives back its three components, while each fits the
  \<open>int\<close> it is stored in.\<close>

lemma parse_render:
  assumes "a < 2 ^ 31" "b < 2 ^ 31" "c < 2 ^ 31"
  shows "parse_release (render_release a b c) = Some (int a, int b, int c)"
proof -
  have small: "int x < 2 ^ 31" if "x < 2 ^ 31" for x :: nat
    using that by simp
  show ?thesis
    using assms small [of a] small [of b] small [of c]
    by (simp add: parse_render_gen int_cast_id long_max_def)
qed

lemma parse_render_witness:
  "parse_release (render_release 0 24 7) = Some (0, 24, 7)"
  using parse_render [of 0 24 7] by simp

section \<open>The order of releases\<close>

text \<open>A release as a value, ordered from the left; the library's order facts apply to it.\<close>

datatype release = Release (major: int) (minor: int) (patch: int)

instantiation release :: linorder
begin

definition less_eq_release :: "release \<Rightarrow> release \<Rightarrow> bool" where
  "r \<le> s \<longleftrightarrow> major r < major s \<or> major r = major s \<and> (minor r < minor s \<or> minor r = minor s \<and> patch r \<le> patch s)"

definition less_release :: "release \<Rightarrow> release \<Rightarrow> bool" where
  "r < s \<longleftrightarrow> r \<le> s \<and> r \<noteq> (s :: release)"

instance
proof
  fix r s t :: release
  show "r < s \<longleftrightarrow> r \<le> s \<and> \<not> s \<le> r"
    by (cases r; cases s) (auto simp: less_eq_release_def less_release_def)
  show "r \<le> r" by (simp add: less_eq_release_def)
  show "r \<le> s \<Longrightarrow> s \<le> t \<Longrightarrow> r \<le> t" by (auto simp: less_eq_release_def)
  show "r \<le> s \<Longrightarrow> s \<le> r \<Longrightarrow> r = s" by (cases r; cases s) (auto simp: less_eq_release_def)
  show "r \<le> s \<or> s \<le> r" by (auto simp: less_eq_release_def)
qed

end

definition release_of :: "string \<Rightarrow> release option" where
  "release_of s = map_option (\<lambda>(a, b, c). Release a b c) (parse_release s)"

lemma releaseAtLeast_order:
  "releaseAtLeast have need = (case release_of have of None \<Rightarrow> None
      | Some h \<Rightarrow> map_option (\<lambda>n. n \<le> h) (release_of need))"
  unfolding releaseAtLeast_def release_of_def
  by (cases "parse_release have"; cases "parse_release need") (auto simp: less_eq_release_def split: if_splits)

text \<open>Whatever the strings, two releases the parser can read are comparable, and the
  comparison is reflexive and transitive: the gate orders releases totally.\<close>

lemma releaseAtLeast_total_preorder:
  assumes "release_of r = Some a" "release_of s = Some b" "release_of t = Some c"
  shows "releaseAtLeast r r = Some True
       \<and> (releaseAtLeast r s = Some True \<or> releaseAtLeast s r = Some True)
       \<and> (releaseAtLeast r s = Some True \<and> releaseAtLeast s t = Some True
            \<longrightarrow> releaseAtLeast r t = Some True)"
  using assms linear [of a b] by (auto simp: releaseAtLeast_order)

section \<open>Releases as the gate's comment allows them\<close>

text \<open>Components between dots; a release lacking some of its three has zeros there.\<close>

fun dotted :: "nat list \<Rightarrow> string" where
  "dotted [] = []"
| "dotted [n] = to_dec n"
| "dotted (n # m # ns) = to_dec n @ ''.'' @ dotted (m # ns)"

definition padded :: "nat list \<Rightarrow> release" where
  "padded ns = (let o3 = take 3 (ns @ [0, 0, 0]) in Release (int (o3 ! 0)) (int (o3 ! 1)) (int (o3 ! 2)))"

definition optional_v :: "string set" where
  "optional_v = {[], ''v'', ''V''}"

lemma parse_loop_dotted:
  assumes "ns \<noteq> []" "idx + length ns \<le> 3" "list_all (\<lambda>n. n < 2 ^ 31) ns"
  shows "parse_loop (dotted ns) 0 idx = Some (map int ns)"
  using assms
proof (induction ns arbitrary: idx rule: dotted.induct)
  case (2 n)
  then have "int n < 2 ^ 31" by simp
  with 2 parse_loop_number [of n idx "[]"] show ?case
    by (simp add: parse_loop_end int_cast_id long_max_def)
next
  case (3 n m ns)
  then have "int n < 2 ^ 31" by simp
  with 3 show ?case
    by (simp add: parse_loop_number parse_loop_dot int_cast_id long_max_def)
qed simp

lemma skip_optional_v:
  assumes "pre \<in> optional_v"
  shows "skip_v (pre @ dotted ns) = dotted ns"
proof -
  have "dotted ns = [] \<or> (\<exists>c r. dotted ns = c # r \<and> is_digit c)"
  proof (cases ns rule: dotted.cases)
    case (2 n)
    then show ?thesis using to_dec_digits [of _ n] by (cases "to_dec n") auto
  next
    case (3 n m ms)
    then show ?thesis using to_dec_digits [of _ n] by (cases "to_dec n") auto
  qed simp
  then show ?thesis using assms
    by (auto simp: optional_v_def skip_v_def is_digit_def less_eq_char_def)
qed

lemma release_of_dotted:
  assumes "pre \<in> optional_v" "length ns \<le> 3" "list_all (\<lambda>n. n < 2 ^ 31) ns"
  shows "release_of (pre @ dotted ns) = Some (padded ns)"
proof (cases "ns = []")
  case True
  with skip_optional_v [OF assms(1), of "[]"] show ?thesis
    by (simp add: release_of_def parse_release_def parse_loop_end padded_def int_cast_def numeral_3_eq_3)
next
  case False
  have "length ns = 1 \<or> length ns = 2 \<or> length ns = 3" using False assms(2) by (auto simp: le_Suc_eq numeral_3_eq_3)
  then show ?thesis
    using parse_loop_dotted [OF False, of 0] assms
    by (auto simp: release_of_def parse_release_def skip_optional_v padded_def numeral_3_eq_3 numeral_2_eq_2 length_Suc_conv)
qed

text \<open>C20: The gate is the linear order of releases on every way of writing one that its comment
  allows: up to three components, a leading v or not, missing components zero.  With
  components that fit an \<open>int\<close> it never fails and answers whether the needed release is at most
  the one at hand, from the left.\<close>

theorem releaseAtLeast_written:
  assumes "v \<in> optional_v" "w \<in> optional_v" "length ns \<le> 3" "length ms \<le> 3"
    and "list_all (\<lambda>n. n < 2 ^ 31) (ns @ ms)"
  shows "releaseAtLeast (v @ dotted ns) (w @ dotted ms) = Some (padded ms \<le> padded ns)"
  using assms by (simp add: releaseAtLeast_order release_of_dotted)

theorem releaseAtLeast_written_witness:
  "releaseAtLeast (''v'' @ dotted [0, 24]) (dotted [0, 24, 0]) = Some True
   \<and> releaseAtLeast (''V'' @ dotted [1]) (''v'' @ dotted [1, 0, 1]) = Some False"
  using releaseAtLeast_written [of "''v''" "[]" "[0, 24]" "[0, 24, 0]"]
    releaseAtLeast_written [of "''V''" "''v''" "[1]" "[1, 0, 1]"]
  by (simp add: optional_v_def padded_def less_eq_release_def del: dotted.simps)

lemma releaseAtLeast_lex:
  assumes "a < 2 ^ 31" "b < 2 ^ 31" "c < 2 ^ 31" "a' < 2 ^ 31" "b' < 2 ^ 31" "c' < 2 ^ 31"
  shows "releaseAtLeast (render_release a b c) (render_release a' b' c') =
           Some (a' < a \<or> a' = a \<and> (b' < b \<or> b' = b \<and> c' \<le> c))"
proof -
  have "parse_release (render_release a b c) = Some (int a, int b, int c)"
    and "parse_release (render_release a' b' c') = Some (int a', int b', int c')"
    using assms parse_render_gen by (simp_all add: int_cast_id long_max_def)
  then show ?thesis by (auto simp: releaseAtLeast_def)
qed

text \<open>Characters that are neither digits nor dots are skipped wherever they stand, so the digit of a
  pre-release suffix joins the patch number: the first candidate of a release counts as its
  successor.\<close>

lemma prerelease_counts_as_newer:
  "releaseAtLeast ''v0.24.0-rc1'' ''v0.24.1'' = Some True"
  by code_simp

text \<open>A component of \<open>2^31\<close> or more does not fit the \<open>int\<close> it is narrowed to, and
  the order breaks: a release with such a major version compares as older than v0.0.0.\<close>

lemma releaseAtLeast_narrowing:
  "releaseAtLeast (render_release (2 ^ 31) 0 0) (render_release 0 0 0) = Some False"
  by (simp add: releaseAtLeast_def parse_render_gen long_max_def int_cast_def)

text \<open>The release gate is dormant at the pinned release: a requirement that applies
  since a release no newer than v0.24.0 is never skipped.\<close>

lemma pinned_release_dormant:
  assumes "b \<le> 24" "b < 24 \<and> c < 2 ^ 31 \<or> c = 0"
  shows "releaseAtLeast kTargetRialtoRelease (render_release 0 b c) = Some True"
proof -
  have k: "kTargetRialtoRelease = render_release 0 24 0"
    by code_simp
  have "int b < 2 ^ 31" "c < 2 ^ 31" using assms by auto
  then have "parse_release (render_release 0 b c) = Some (0, int b, int c)"
    using parse_render_gen [of 0 b c] by (simp add: int_cast_id long_max_def)
  moreover have "parse_release kTargetRialtoRelease = Some (0, 24, 0)"
    unfolding k using parse_render_gen [of 0 24 0] by (simp add: int_cast_id long_max_def)
  ultimately show ?thesis using assms by (auto simp: releaseAtLeast_def)
qed

lemma pinned_release_dormant_witness:
  "releaseAtLeast kTargetRialtoRelease (render_release 0 23 0) = Some True"
  using pinned_release_dormant [of 23 0] by simp

end
