(* ===== verification/Case_Gates.thy ===== *)
theory Case_Gates
  imports Release_Gate
begin

text \<open>
  Which cases run: the scope, tier, capability and release gates
  (\<open>include/conformance/ScopeGate.h\<close>, \<open>TierGate.h\<close>, \<open>CapabilityGate.h\<close>), the registration
  probe (\<open>src/common/RegistrationProbe.cpp\<close>), the surface fixtures
  (\<open>src/common/Surfaces.cpp\<close>) and \<open>main\<close> (\<open>src/main.cpp\<close>).  The environment is an argument
  of every call, since it may change between two calls; what a \<open>static const\<close> keeps of it is
  the state \<open>gates\<close>.  The HFP profile and the GStreamer registry are parameters.
\<close>

section \<open>The gates\<close>

type_synonym env = "string \<Rightarrow> string option"

text \<open>The function-local statics, \<open>None\<close> before their first evaluation.\<close>

record gates =
  tier_static :: "nat option"
  scope_static :: "string option"

definition fresh_gates :: gates where
  "fresh_gates = \<lparr>tier_static = None, scope_static = None\<rparr>"

datatype Tier = Core | Extended

definition tier_selection :: "env \<Rightarrow> nat" where
  "tier_selection env =
     (case env ''RIALTO_CONFORMANCE_TIER'' of
        None \<Rightarrow> 0
      | Some v \<Rightarrow> if v = ''core'' then 1 else if v = ''extended'' then 2 else 0)"

definition tierSelected :: "env \<Rightarrow> gates \<Rightarrow> Tier \<Rightarrow> bool \<times> gates" where
  "tierSelected env g tier =
     (let selection = (case tier_static g of None \<Rightarrow> tier_selection env | Some n \<Rightarrow> n)
      in (if selection = 1 then tier = Core else if selection = 2 then tier = Extended else True,
          g\<lparr>tier_static := Some selection\<rparr>))"

definition scopeName :: "env \<Rightarrow> string" where
  "scopeName env =
     (case env ''RIALTO_CONFORMANCE_SCOPE'' of
        None \<Rightarrow> ''full'' | Some v \<Rightarrow> if v \<noteq> [] then v else ''full'')"

text \<open>\<open>suite\<close> is \<open>current_test_info()->test_suite_name()\<close>, \<open>None\<close> outside a case.\<close>

definition scopeSelected :: "env \<Rightarrow> gates \<Rightarrow> string option \<Rightarrow> bool \<times> gates" where
  "scopeSelected env g suite =
     (let selection = (case scope_static g of None \<Rightarrow> scopeName env | Some s \<Rightarrow> s)
      in (if selection = ''full'' then True
          else case suite of None \<Rightarrow> True | Some suiteName \<Rightarrow> prefix selection suiteName,
          g\<lparr>scope_static := Some selection\<rparr>))"

text \<open>What a gate does to the case: go on, or log, skip and return.\<close>

datatype verdict = Proceed | Skipped string

definition conformance_tier_test :: "Tier \<Rightarrow> env \<Rightarrow> gates \<Rightarrow> string option \<Rightarrow> verdict \<times> gates" where
  "conformance_tier_test tier env g suite =
     (case scopeSelected env g suite of
        (False, g1) \<Rightarrow> (Skipped ''scope-gate'', g1)
      | (True, g1) \<Rightarrow>
          (case tierSelected env g1 tier of
             (False, g2) \<Rightarrow> (Skipped ''tier-gate'', g2)
           | (True, g2) \<Rightarrow> (Proceed, g2)))"

definition CONFORMANCE_CORE_TEST :: "env \<Rightarrow> gates \<Rightarrow> string option \<Rightarrow> verdict \<times> gates" where
  "CONFORMANCE_CORE_TEST = conformance_tier_test Core"

definition CONFORMANCE_EXTENDED_TEST :: "env \<Rightarrow> gates \<Rightarrow> string option \<Rightarrow> verdict \<times> gates" where
  "CONFORMANCE_EXTENDED_TEST = conformance_tier_test Extended"

text \<open>The HFP profile: none loaded, or the boolean \<open>UT_KVP_PROFILE_GET_BOOL\<close> reads at a key
  (false for a key it lacks).\<close>

type_synonym profile = "(string \<Rightarrow> bool) option"

definition kCapabilityRoot :: string where
  "kCapabilityRoot = ''hfp''"

definition readProfileBool :: "profile \<Rightarrow> string \<Rightarrow> bool" where
  "readProfileBool hfp fullKey = (case hfp of None \<Rightarrow> False | Some get \<Rightarrow> get fullKey)"

definition supports :: "profile \<Rightarrow> string \<Rightarrow> bool" where
  "supports hfp featureKey = readProfileBool hfp (kCapabilityRoot @ ''/'' @ featureKey)"

definition CONFORMANCE_REQUIRE_CAP :: "profile \<Rightarrow> string \<Rightarrow> verdict" where
  "CONFORMANCE_REQUIRE_CAP hfp featureKey =
     (if \<not> supports hfp featureKey then Skipped ''capability-gate'' else Proceed)"

definition CONFORMANCE_REQUIRE_SINCE :: "string \<Rightarrow> verdict option" where
  "CONFORMANCE_REQUIRE_SINCE sinceRelease =
     map_option (\<lambda>ok. if \<not> ok then Skipped ''release-gate'' else Proceed)
       (releaseAtLeast kTargetRialtoRelease sinceRelease)"

section \<open>Running the suite\<close>

datatype requirement = Cap string | Since string

record test_case =
  suite :: string
  tier :: Tier
  requirements :: "requirement list"

fun check_requirements :: "profile \<Rightarrow> requirement list \<Rightarrow> verdict option" where
  "check_requirements hfp [] = Some Proceed"
| "check_requirements hfp (Cap k # rs) =
     (case CONFORMANCE_REQUIRE_CAP hfp k of Proceed \<Rightarrow> check_requirements hfp rs | v \<Rightarrow> Some v)"
| "check_requirements hfp (Since r # rs) =
     (case CONFORMANCE_REQUIRE_SINCE r of
        None \<Rightarrow> None | Some Proceed \<Rightarrow> check_requirements hfp rs | Some v \<Rightarrow> Some v)"

definition enter_case :: "profile \<Rightarrow> env \<Rightarrow> gates \<Rightarrow> test_case \<Rightarrow> verdict option \<times> gates" where
  "enter_case hfp env g c =
     (case (case tier c of Core \<Rightarrow> CONFORMANCE_CORE_TEST | Extended \<Rightarrow> CONFORMANCE_EXTENDED_TEST)
             env g (Some (suite c)) of
        (Proceed, g1) \<Rightarrow> (check_requirements hfp (requirements c), g1)
      | (v, g1) \<Rightarrow> (Some v, g1))"

text \<open>The cases in registration order, each with the environment at its start.\<close>

fun run_cases :: "profile \<Rightarrow> gates \<Rightarrow> (env \<times> test_case) list \<Rightarrow> verdict option list" where
  "run_cases hfp g [] = []"
| "run_cases hfp g ((env, c) # rest) =
     (case enter_case hfp env g c of (v, g1) \<Rightarrow> v # run_cases hfp g1 rest)"

section \<open>Probe, fixtures and main\<close>

datatype action =
    GstInit
  | FindFactory string
  | ReportBadScope string
  | UtInit
  | RunTests

text \<open>\<open>registered f\<close>: does \<open>gst_element_factory_find(f)\<close> find a factory in this process.\<close>

definition runRegistrationProbeIfRequested :: "env \<Rightarrow> (string \<Rightarrow> bool) \<Rightarrow> int \<times> action list" where
  "runRegistrationProbeIfRequested env registered =
     (case env ''RIALTO_CONFORMANCE_PROBE_FACTORY'' of
        None \<Rightarrow> (- 1, [])
      | Some factoryName \<Rightarrow>
          (if registered factoryName then 0 else 1, [GstInit, FindFactory factoryName]))"

definition mse_sink_setup :: "bool \<Rightarrow> action list \<times> bool" where
  "mse_sink_setup gst_initialized = (if \<not> gst_initialized then ([GstInit], True) else ([], True))"

definition scopeIsValid :: "env \<Rightarrow> bool \<times> action list" where
  "scopeIsValid env =
     (let scope = scopeName env
      in if list_ex (\<lambda>valid. scope = valid) [''full'', ''L1'', ''L2'', ''L3'', ''L4''] then (True, [])
         else (False, [ReportBadScope scope]))"

text \<open>The exit code with the actions performed; \<open>RunTests\<close> is where the registered cases run.\<close>

definition conformance_main :: "env \<Rightarrow> (string \<Rightarrow> bool) \<Rightarrow> int \<times> action list" where
  "conformance_main env registered =
     (case runRegistrationProbeIfRequested env registered of
        (probeResult, done1) \<Rightarrow>
          if probeResult \<ge> 0 then (probeResult, done1)
          else case scopeIsValid env of
            (False, done2) \<Rightarrow> (2, done1 @ done2)
          | (True, done2) \<Rightarrow> (0, done1 @ done2 @ [UtInit, RunTests]))"

section \<open>What the gates decide\<close>

definition tier_admits :: "nat \<Rightarrow> Tier \<Rightarrow> bool" where
  "tier_admits selection t \<longleftrightarrow> (if selection = 1 then t = Core else if selection = 2 then t = Extended else True)"

definition scope_admits :: "string \<Rightarrow> string \<Rightarrow> bool" where
  "scope_admits selection suiteName \<longleftrightarrow> selection = ''full'' \<or> prefix selection suiteName"

text \<open>The verdict as a function of the two selections.\<close>

definition decide :: "profile \<Rightarrow> string \<Rightarrow> nat \<Rightarrow> test_case \<Rightarrow> verdict option" where
  "decide hfp scope tsel c =
     (if \<not> scope_admits scope (suite c) then Some (Skipped ''scope-gate'')
      else if \<not> tier_admits tsel (tier c) then Some (Skipped ''tier-gate'')
      else check_requirements hfp (requirements c))"

lemma enter_case_decide:
  "enter_case hfp env g c =
     (let sc = (case scope_static g of None \<Rightarrow> scopeName env | Some s \<Rightarrow> s);
          ts = (case tier_static g of None \<Rightarrow> tier_selection env | Some n \<Rightarrow> n)
      in (decide hfp sc ts c,
          g\<lparr>scope_static := Some sc,
            tier_static := (if scope_admits sc (suite c) then Some ts else tier_static g)\<rparr>))"
  by (cases "tier c")
    (simp_all add: enter_case_def CONFORMANCE_CORE_TEST_def CONFORMANCE_EXTENDED_TEST_def
      conformance_tier_test_def scopeSelected_def tierSelected_def decide_def Let_def
      scope_admits_def tier_admits_def)

lemma run_cases_fixed:
  "run_cases hfp \<lparr>tier_static = Some ts, scope_static = Some sc\<rparr> xs = map (decide hfp sc ts \<circ> snd) xs"
proof (induction xs)
  case (Cons x xs)
  then show ?case by (cases x) (simp add: enter_case_decide Let_def)
qed simp

lemma tier_selection_range: "tier_selection env \<le> 2"
  by (auto simp: tier_selection_def split: option.splits)

lemma run_cases_are_decided:
  "run_cases hfp fresh_gates (map (Pair env) cs) =
     map (decide hfp (scopeName env) (tier_selection env)) cs"
proof -
  have "run_cases hfp \<lparr>tier_static = ts, scope_static = sc\<rparr> (map (Pair env) cs) =
     map (decide hfp (scopeName env) (tier_selection env)) cs"
    if "ts \<in> {None, Some (tier_selection env)}" "sc \<in> {None, Some (scopeName env)}" for ts sc
    using that
  proof (induction cs arbitrary: ts sc)
    case (Cons c cs)
    then show ?case
      by (auto simp: enter_case_decide Let_def)
  qed simp
  then show ?thesis by (simp add: fresh_gates_def)
qed

text \<open>In a process whose environment does not change, a case runs exactly when its suite name
  carries the selected level (or the scope is \<open>full\<close>), its tier is selected, and the target
  declares every capability and release it requires; the first gate that fails names the
  skip, and no case is ever dropped silently: every case gets a verdict.\<close>

lemma run_cases_decide:
  "run_cases hfp fresh_gates (map (Pair env) cs) =
     map (decide hfp (scopeName env) (tier_selection env)) cs"
  by (rule run_cases_are_decided)

text \<open>The selections are read once: whatever later cases do to the environment, every case of
  the run is decided by the scope the first case saw and by the tier the first case within
  that scope saw.\<close>

lemma selection_read_once:
  assumes "scope_admits (scopeName env) (suite c)"
  shows "run_cases hfp fresh_gates ((env, c) # later) =
     map (decide hfp (scopeName env) (tier_selection env)) (c # map snd later)"
  using assms by (simp add: fresh_gates_def enter_case_decide Let_def run_cases_fixed)

definition no_env :: env where
  "no_env = (\<lambda>_. None)"

definition core_env :: env where
  "core_env = (\<lambda>_. None)(''RIALTO_CONFORMANCE_TIER'' := Some ''core'', ''RIALTO_CONFORMANCE_SCOPE'' := Some ''L1'')"

lemma selection_read_once_witness:
  "run_cases None fresh_gates [(core_env, \<lparr>suite = ''L1CapsTests'', tier = Core, requirements = []\<rparr>),
      (no_env, \<lparr>suite = ''L4DataTests'', tier = Extended, requirements = []\<rparr>)]
   = [Some Proceed, Some (Skipped ''scope-gate'')]"
  using selection_read_once [of core_env "\<lparr>suite = ''L1CapsTests'', tier = Core, requirements = []\<rparr>" None
      "[(no_env, \<lparr>suite = ''L4DataTests'', tier = Extended, requirements = []\<rparr>)]"]
  by (simp add: core_env_def scopeName_def scope_admits_def decide_def tier_admits_def tier_selection_def)

text \<open>The level runs partition the full run and the tier runs partition each of them: a case of
  level \<open>Li\<close> that runs in the full, untiered suite runs under exactly one of the four scopes and
  under exactly one of the two tiers, and a case that is refused there runs under none.\<close>

lemma scopes_and_tiers_partition:
  assumes "\<exists>i\<in>set [''L1'', ''L2'', ''L3'', ''L4'']. prefix i (suite c)"
  shows "(decide hfp ''full'' 0 c = Some Proceed \<longleftrightarrow>
           (\<exists>!sel. sel \<in> set [''L1'', ''L2'', ''L3'', ''L4''] \<times> {1, 2}
                 \<and> decide hfp (fst sel) (snd sel) c = Some Proceed))"
proof -
  let ?L = "set [''L1'', ''L2'', ''L3'', ''L4'']"
  obtain l where l: "l \<in> ?L" "prefix l (suite c)" using assms by blast
  then have uniq: "l' = l" if "l' \<in> ?L" "prefix l' (suite c)" for l'
    using that by (auto simp: prefix_def)
  define t :: nat where "t = (if tier c = Core then 1 else 2)"
  have notfull: "l' \<noteq> ''full''" if "l' \<in> ?L" for l' using that by auto
  have run: "decide hfp l' t' c = Some Proceed \<longleftrightarrow>
      l' = l \<and> t' = t \<and> check_requirements hfp (requirements c) = Some Proceed"
    if "l' \<in> ?L" "t' \<in> {1, 2}" for l' t'
  proof -
    have "scope_admits l' (suite c) \<longleftrightarrow> l' = l"
      using that(1) l uniq notfull unfolding scope_admits_def by blast
    moreover have "tier_admits t' (tier c) \<longleftrightarrow> t' = t"
      using that(2) by (cases "tier c") (auto simp: tier_admits_def t_def)
    ultimately show ?thesis by (simp add: decide_def)
  qed
  have "t \<in> {1, 2}" by (simp add: t_def)
  have full: "decide hfp ''full'' 0 c = check_requirements hfp (requirements c)"
    by (simp add: decide_def scope_admits_def tier_admits_def)
  show ?thesis
  proof
    assume "decide hfp ''full'' 0 c = Some Proceed"
    then have req: "check_requirements hfp (requirements c) = Some Proceed" using full by simp
    show "\<exists>!sel. sel \<in> ?L \<times> {1, 2} \<and> decide hfp (fst sel) (snd sel) c = Some Proceed"
    proof (rule ex1I [of _ "(l, t)"])
      show "(l, t) \<in> ?L \<times> {1, 2} \<and> decide hfp (fst (l, t)) (snd (l, t)) c = Some Proceed"
        using run [OF l(1) \<open>t \<in> {1, 2}\<close>] req l(1) \<open>t \<in> {1, 2}\<close> unfolding fst_conv snd_conv by blast
    next
      fix sel assume "sel \<in> ?L \<times> {1, 2} \<and> decide hfp (fst sel) (snd sel) c = Some Proceed"
      then show "sel = (l, t)" using run [of "fst sel" "snd sel"] by (metis SigmaE fst_conv snd_conv)
    qed
  next
    assume "\<exists>!sel. sel \<in> ?L \<times> {1, 2} \<and> decide hfp (fst sel) (snd sel) c = Some Proceed"
    then obtain sel where "sel \<in> ?L \<times> {1, 2}" "decide hfp (fst sel) (snd sel) c = Some Proceed" by blast
    then show "decide hfp ''full'' 0 c = Some Proceed"
      using full run [of "fst sel" "snd sel"] by (metis SigmaE fst_conv snd_conv)
  qed
qed

lemma scopes_and_tiers_partition_witness:
  "\<exists>!sel. sel \<in> set [''L1'', ''L2'', ''L3'', ''L4''] \<times> {1, 2}
     \<and> decide None (fst sel) (snd sel) \<lparr>suite = ''L3MemoryUsageTests'', tier = Extended, requirements = []\<rparr>
        = Some Proceed"
  using scopes_and_tiers_partition [of "\<lparr>suite = ''L3MemoryUsageTests'', tier = Extended, requirements = []\<rparr>" None]
  by (simp add: decide_def scope_admits_def tier_admits_def)

text \<open>\<open>main\<close> runs the suite only in an ordinary invocation with a recognised scope: a probe
  invocation answers 0 or 1 by the registry and never starts the framework, and an unknown
  scope is reported and exits with 2 before any case; the recognised values are the five of
  the documentation, with unset and empty read as \<open>full\<close>.\<close>

lemma main_gate:
  "conformance_main env registered =
     (case env ''RIALTO_CONFORMANCE_PROBE_FACTORY'' of
        Some f \<Rightarrow> (if registered f then 0 else 1, [GstInit, FindFactory f])
      | None \<Rightarrow>
          if scopeName env \<in> {''full'', ''L1'', ''L2'', ''L3'', ''L4''}
          then (0, [UtInit, RunTests]) else (2, [ReportBadScope (scopeName env)]))
   \<and> (env ''RIALTO_CONFORMANCE_SCOPE'' \<in> {None, Some []} \<longrightarrow> scopeName env = ''full'')"
  by (auto simp: conformance_main_def runRegistrationProbeIfRequested_def scopeIsValid_def Let_def
      scopeName_def split: option.splits)

lemma main_gate_witness:
  "conformance_main (no_env(''RIALTO_CONFORMANCE_SCOPE'' := Some [])) (\<lambda>_. False) = (0, [UtInit, RunTests])"
  using main_gate [of "no_env(''RIALTO_CONFORMANCE_SCOPE'' := Some [])" "\<lambda>_. False"]
  by (simp add: no_env_def)

text \<open>Nothing runs a capability-gated body without a declaration: with no profile loaded, or
  with the toggle absent, the case is skipped, and its skip does not depend on the gates
  after it.\<close>

lemma undeclared_capability_skips:
  assumes "hfp = None \<or> (\<exists>get. hfp = Some get \<and> \<not> get (''hfp/'' @ k))"
  shows "check_requirements hfp (Cap k # rs) = Some (Skipped ''capability-gate'')"
  using assms
  by (auto simp: CONFORMANCE_REQUIRE_CAP_def supports_def readProfileBool_def kCapabilityRoot_def)

lemma undeclared_capability_skips_witness:
  "check_requirements None [Cap ''drm.widevine'', Since ''v9.0.0''] = Some (Skipped ''capability-gate'')"
  using undeclared_capability_skips [of None "''drm.widevine''" "[Since ''v9.0.0'']"] by simp

end
