(* ===== verification/Ut_Case.thy ===== *)
theory Ut_Case
  imports Case_Gates "HOL-Library.State_Monad"
begin

text \<open>
  The shape of a test case.  A case is a computation in the state monad whose state carries
  the report of the unit-test framework beside whatever the case works on.  The framework
  (ut-core) is not part of this repository; the cases rely on what its names say: an assertion
  records its outcome, a \<open>FATAL\<close> one that fails returns from the case, \<open>UT_IGNORE_TEST\<close> marks the
  case as skipped, and a case passes when it was not skipped and every recorded assertion held.
  Log output is left out.
\<close>

section \<open>Reports and assertions\<close>

record report =
  checks :: "bool list"
  ignored :: bool

definition passed :: "'r report_scheme \<Rightarrow> bool" where
  "passed s \<longleftrightarrow> \<not> ignored s \<and> list_all (\<lambda>b. b) (checks s)"

definition check :: "bool \<Rightarrow> ('r report_scheme, unit) state" where
  "check b = State (\<lambda>s. ((), s\<lparr>checks := checks s @ [b]\<rparr>))"

definition ignore_test :: "('r report_scheme, unit) state" where
  "ignore_test = State (\<lambda>s. ((), s\<lparr>ignored := True\<rparr>))"

text \<open>A fatal assertion with the rest of the case.\<close>

definition fatal :: "bool \<Rightarrow> ('r report_scheme, unit) state \<Rightarrow> ('r report_scheme, unit) state" where
  "fatal b rest = do { check b; if b then rest else State_Monad.return () }"

definition fatal_some :: "'a option \<Rightarrow> ('a \<Rightarrow> ('r report_scheme, unit) state) \<Rightarrow> ('r report_scheme, unit) state" where
  "fatal_some r rest = (case r of None \<Rightarrow> check False | Some x \<Rightarrow> do { check True; rest x })"

text \<open>The gates at the head of a case, and the case's body.\<close>

definition gated :: "verdict \<Rightarrow> ('r report_scheme, unit) state \<Rightarrow> ('r report_scheme, unit) state" where
  "gated v body = (case v of Proceed \<Rightarrow> body | Skipped _ \<Rightarrow> ignore_test)"

section \<open>Running a case\<close>

definition run_case :: "('r report_scheme, unit) state \<Rightarrow> 'r report_scheme \<Rightarrow> 'r report_scheme" where
  "run_case m s = snd (run_state m s)"

named_theorems case_simps

lemma run_case_bind [case_simps]:
  "run_case (State_Monad.bind m f) s = run_case (f (fst (run_state m s))) (snd (run_state m s))"
  by (simp add: run_case_def split: prod.splits)

lemma run_case_return [case_simps]: "run_case (State_Monad.return x) s = s"
  by (simp add: run_case_def)

lemma run_check [simp]: "run_state (check b) s = ((), s\<lparr>checks := checks s @ [b]\<rparr>)"
  by (simp add: check_def)

lemma run_case_check [case_simps]: "run_case (check b) s = s\<lparr>checks := checks s @ [b]\<rparr>"
  by (simp add: run_case_def)

lemma run_ignore_test [case_simps]: "run_case ignore_test s = s\<lparr>ignored := True\<rparr>"
  by (simp add: ignore_test_def run_case_def)

lemma run_case_fatal [case_simps]:
  "run_case (fatal b rest) s =
     (if b then run_case rest (s\<lparr>checks := checks s @ [b]\<rparr>) else s\<lparr>checks := checks s @ [b]\<rparr>)"
  by (simp add: fatal_def run_case_def)

lemma run_case_fatal_some [case_simps]:
  "run_case (fatal_some r rest) s =
     (case r of None \<Rightarrow> s\<lparr>checks := checks s @ [False]\<rparr>
      | Some x \<Rightarrow> run_case (rest x) (s\<lparr>checks := checks s @ [True]\<rparr>))"
  by (simp add: fatal_some_def run_case_def split: option.split)

lemma run_case_gated [case_simps]:
  "run_case (gated v body) s = (case v of Proceed \<Rightarrow> run_case body s | Skipped _ \<Rightarrow> s\<lparr>ignored := True\<rparr>)"
  by (simp add: gated_def run_case_def ignore_test_def split: verdict.split)

lemma run_case_if [case_simps]: "run_case (if b then m else n) s = (if b then run_case m s else run_case n s)"
  by simp

lemma passed_add [simp]: "passed (s\<lparr>checks := checks s @ bs\<rparr>) \<longleftrightarrow> passed s \<and> list_all (\<lambda>b. b) bs"
  by (auto simp: passed_def)

lemma passed_ignored [simp]: "\<not> passed (s\<lparr>ignored := True\<rparr>)"
  by (simp add: passed_def)

text \<open>A loop of the case over a list.\<close>

fun for_each :: "'a list \<Rightarrow> ('a \<Rightarrow> ('r report_scheme, unit) state) \<Rightarrow> ('r report_scheme, unit) state" where
  "for_each [] body = State_Monad.return ()"
| "for_each (x # xs) body = do { body x; for_each xs body }"

lemma run_for_each_checks [simp]:
  "run_state (for_each xs (\<lambda>x. check (P x))) s = ((), s\<lparr>checks := checks s @ map P xs\<rparr>)"
  by (induction xs arbitrary: s) simp_all

text \<open>The verdict of a report is never repaired: whatever a case does after an assertion that
  failed or a skip, it does not pass.  \<open>m\<close> grows reports when it only appends to them.\<close>

definition grows :: "('r report_scheme, 'a) state \<Rightarrow> bool" where
  "grows m \<longleftrightarrow> (\<forall>s. prefix (checks s) (checks (snd (run_state m s))) \<and> (ignored s \<longrightarrow> ignored (snd (run_state m s))))"

lemma grows_bind [intro]: "grows m \<Longrightarrow> (\<And>x. grows (f x)) \<Longrightarrow> grows (State_Monad.bind m f)"
  unfolding grows_def by (auto split: prod.split) (metis prefix_order.trans snd_conv)+

lemma grows_basic [intro]:
  "grows (State_Monad.return x)" "grows (check b)" "grows ignore_test"
  by (auto simp: grows_def ignore_test_def)

lemma grows_blocks [intro]:
  "grows m \<Longrightarrow> grows (fatal b m)" "(\<And>x. grows (f x)) \<Longrightarrow> grows (fatal_some r f)"
  "grows m \<Longrightarrow> grows (gated v m)"
  unfolding fatal_def fatal_some_def gated_def
  by (auto split: option.split verdict.split)

lemma grows_failed: "grows m \<Longrightarrow> \<not> passed s \<Longrightarrow> \<not> passed (run_case m s)"
  unfolding grows_def passed_def run_case_def by (metis list_all_append prefix_def)

end
