(* ===== verification/Playback_Session.thy ===== *)
theory Playback_Session
  imports Complex_Main Ut_Case Feed_Client
begin

text \<open>
  What the end-to-end playback cases share (\<open>src/L4_e2e/playback\<close>): the calls they make on
  the native pipeline interface, the notifications that reach their feeding client meanwhile,
  and the bring-up every case begins with.  The Rialto client library and server are not part
  of this repository: what they answer and which notifications they deliver is the argument
  \<open>rialto\<close>.  Every action of the test thread takes one tick; the notifications delivered since
  the last action run first, through the handlers of \<open>Feed_Client\<close>.
\<close>

section \<open>The interface\<close>

datatype api_call =
    CreateFactory
  | CreateMediaPipeline nat nat
  | Load string bool
  | AttachSource string bool u32 u32
  | AllSourcesAttached
  | Play
  | Pause
  | Stop
  | SetPlaybackRate rat
  | SetPosition int
  | GetPosition
  | GetDuration
  | GetStats int
  | SetVolume rat
  | GetVolume
  | SetMute int bool
  | GetMute int
  | SetVideoWindow nat nat nat nat
  | Flush int bool
  | SetSourcePosition int int bool rat
  | ProcessAudioGap int nat int bool
  | SetBufferingLimit nat
  | GetBufferingLimit
  | SetUseBuffering bool
  | GetUseBuffering
  | RenderFrame
  | SetLowLatency bool
  | SetSync bool
  | GetSync
  | SetSyncOff bool
  | SetStreamSyncMode int int
  | GetStreamSyncMode
  | SwitchSource string bool u32 u32
  | DestroyPipeline

text \<open>The answer to a call: the returned value (non-null or true), the out parameters written, if
  any, and the time the call took, in milliseconds.\<close>

record reply =
  ok :: bool
  out1 :: "int option"
  out2 :: "int option"
  out_level :: "rat option"
  elapsed :: int

text \<open>\<open>answer t c\<close> is the answer to the call \<open>c\<close> made at tick \<open>t\<close>, \<open>notifications t\<close> what is
  delivered before the action at tick \<open>t\<close> (during it, for a wait or a sleep), \<open>clock t\<close> the
  clock a poll begun at tick \<open>t\<close> reads.\<close>

record rialto =
  encoder :: gst
  segment_status :: server
  notifications :: "nat \<Rightarrow> event list"
  answer :: "nat \<Rightarrow> api_call \<Rightarrow> reply"
  source_id :: int
  clock :: "nat \<Rightarrow> nat \<Rightarrow> int"

record session = report +
  client :: "FeedClient \<times> pipeline_call list"
  tick :: nat
  calls :: "api_call list"

definition fresh_session :: session where
  "fresh_session = \<lparr>checks = [], ignored = False, client = (fresh_client, []), tick = 0, calls = []\<rparr>"

lemma fresh_session_fields [simp]:
  "checks fresh_session = []" "\<not> ignored fresh_session" "client fresh_session = (fresh_client, [])"
  "tick fresh_session = 0" "calls fresh_session = []"
  by (simp_all add: fresh_session_def)

section \<open>Actions of the test thread\<close>

definition deliver :: "rialto \<Rightarrow> session \<Rightarrow> session" where
  "deliver env s = s\<lparr>client := run_events (segment_status env) (client s) (notifications env (tick s)),
                     tick := Suc (tick s)\<rparr>"

definition call :: "rialto \<Rightarrow> api_call \<Rightarrow> (session, reply) state" where
  "call env c = State (\<lambda>s. (answer env (tick s) c, (deliver env s)\<lparr>calls := calls s @ [c]\<rparr>))"

definition on_client :: "rialto \<Rightarrow> client_op \<Rightarrow> (session, unit) state" where
  "on_client env op = State (\<lambda>s. let s1 = deliver env s
     in ((), s1\<lparr>client := run_event (segment_status env) (client s1) (Op op)\<rparr>))"

definition observe :: "rialto \<Rightarrow> (FeedClient \<Rightarrow> 'a) \<Rightarrow> (session, 'a) state" where
  "observe env f = State (\<lambda>s. let s1 = deliver env s in (f (fst (client s1)), s1))"

definition sleep_for :: "rialto \<Rightarrow> (session, unit) state" where
  "sleep_for env = State (\<lambda>s. ((), deliver env s))"

text \<open>The client as a wait sees it: on entry and after every notification delivered meanwhile.\<close>

definition wake_states :: "rialto \<Rightarrow> session \<Rightarrow> FeedClient list" where
  "wake_states env s =
     map (\<lambda>k. fst (run_events (segment_status env) (client s) (take k (notifications env (tick s)))))
       [0..<Suc (length (notifications env (tick s)))]"

definition wait_client :: "rialto \<Rightarrow> (FeedClient list \<Rightarrow> bool) \<Rightarrow> (session, bool) state" where
  "wait_client env waited = State (\<lambda>s. (waited (wake_states env s), deliver env s))"

text \<open>A polled read-back of \<open>c\<close>: the verdict with all answers read.  The clock advances by the
  poll gap between reads, so that \<open>pollUntilApplied\<close> returns; the other branch is not taken.\<close>

definition poll :: "rialto \<Rightarrow> api_call \<Rightarrow> (reply \<Rightarrow> bool) \<Rightarrow> (session, bool \<times> reply list) state" where
  "poll env c cond = State (\<lambda>s.
     let (applied, reads) = (case pollUntilApplied (clock env (tick s)) (\<lambda>i. cond (answer env (tick s + i) c)) of
                               Some r \<Rightarrow> r | None \<Rightarrow> (False, 0))
     in ((applied, map (\<lambda>i. answer env (tick s + i) c) [0..<reads]),
         ((deliver env ^^ reads) s)\<lparr>calls := calls s @ replicate reads c\<rparr>))"

text \<open>The variable an out parameter is written to, after a sequence of calls.\<close>

definition written :: "(reply \<Rightarrow> 'a option) \<Rightarrow> 'a \<Rightarrow> reply list \<Rightarrow> 'a" where
  "written out init rs = foldl (\<lambda>x r. case out r of None \<Rightarrow> x | Some y \<Rightarrow> y) init rs"

section \<open>Bring-up and teardown\<close>

definition kMaxWidth :: nat where "kMaxWidth = 1920"
definition kMaxHeight :: nat where "kMaxHeight = 1080"

text \<open>A null return after the pipeline was created destroys it.\<close>

definition give_up :: "rialto \<Rightarrow> (session, 'a option) state" where
  "give_up env = do { _ \<leftarrow> call env DestroyPipeline; State_Monad.return None }"

definition loadAndAttachAudio :: "rialto \<Rightarrow> AacElementaryStream \<Rightarrow> (session, int option) state" where
  "loadAndAttachAudio env s = do {
     factory \<leftarrow> call env CreateFactory;
     if \<not> ok factory then State_Monad.return None else do {
     pipeline \<leftarrow> call env (CreateMediaPipeline kMaxWidth kMaxHeight);
     if \<not> ok pipeline then State_Monad.return None else do {
     on_client env (SetPipeline True);
     loaded \<leftarrow> call env (Load ''mse://1'' False);
     if \<not> ok loaded then give_up env else do {
     attached \<leftarrow> call env (AttachSource ''audio/mp4'' False (channels s) (sampleRate s));
     if \<not> ok attached then give_up env else do {
     on_client env (AddAudioSource (source_id env) s);
     State_Monad.return (Some (source_id env)) }}}}}"

definition driveToPlaying :: "rialto \<Rightarrow> AacElementaryStream \<Rightarrow> (session, int option) state" where
  "driveToPlaying env s = do {
     r \<leftarrow> loadAndAttachAudio env s;
     case r of None \<Rightarrow> State_Monad.return None
     | Some sourceId \<Rightarrow> do {
         attached \<leftarrow> call env AllSourcesAttached;
         if \<not> ok attached then give_up env else do {
         played \<leftarrow> call env Play;
         if \<not> ok played then give_up env else do {
         playing \<leftarrow> wait_client env (waitForPlaybackState PLAYING);
         if \<not> playing then give_up env else State_Monad.return (Some sourceId) }}}}"

definition stop_and_reset :: "rialto \<Rightarrow> (session, unit) state" where
  "stop_and_reset env = do { _ \<leftarrow> call env Stop; _ \<leftarrow> call env DestroyPipeline; State_Monad.return () }"

text \<open>A fatal assertion while the pipeline is live: returning from the case destroys it.\<close>

definition fatal_live :: "rialto \<Rightarrow> bool \<Rightarrow> (session, unit) state \<Rightarrow> (session, unit) state" where
  "fatal_live env b rest = do {
     check b;
     if b then rest else do { _ \<leftarrow> call env DestroyPipeline; State_Monad.return () } }"

text \<open>\<open>addSegment\<close> called by the test thread itself.\<close>

definition add_segment :: "rialto \<Rightarrow> u32 \<Rightarrow> MediaSegmentAudio \<Rightarrow> (session, AddSegmentStatus) state" where
  "add_segment env requestId segment = State (\<lambda>s.
     let s1 = deliver env s; (c, lg) = client s1; status = segment_status env lg requestId segment
     in (status, s1\<lparr>client := (c, lg @ [AddSegment requestId segment status])\<rparr>))"

text \<open>The head of the cases: synthesise the stream, prepare the client, reach the first state.\<close>

definition feeding_case ::
  "rialto \<Rightarrow> verdict \<Rightarrow> int \<Rightarrow> client_op list \<Rightarrow> (AacElementaryStream \<Rightarrow> (session, int option) state)
     \<Rightarrow> (AacElementaryStream \<Rightarrow> int \<Rightarrow> (session, unit) state) \<Rightarrow> (session, unit) state" where
  "feeding_case env v numFrames setup bring_up body = gated v
     (let s = generateAacAdtsStream (encoder env) numFrames
      in fatal (frames s \<noteq> []) (do {
           for_each setup (on_client env);
           r \<leftarrow> bring_up s;
           fatal_some r (body s) }))"

definition playing_case ::
  "rialto \<Rightarrow> verdict \<Rightarrow> int \<Rightarrow> (AacElementaryStream \<Rightarrow> int \<Rightarrow> (session, unit) state) \<Rightarrow> (session, unit) state" where
  "playing_case env v numFrames body = feeding_case env v numFrames [] (driveToPlaying env) body"

section \<open>Running the actions\<close>

abbreviation called :: "rialto \<Rightarrow> api_call \<Rightarrow> session \<Rightarrow> session" where
  "called env c s \<equiv> (deliver env s)\<lparr>calls := calls s @ [c]\<rparr>"

abbreviation operated :: "rialto \<Rightarrow> client_op \<Rightarrow> session \<Rightarrow> session" where
  "operated env op s \<equiv> (deliver env s)\<lparr>client := run_event (segment_status env) (client (deliver env s)) (Op op)\<rparr>"

lemma run_call [simp]: "run_state (call env c) s = (answer env (tick s) c, called env c s)"
  by (simp add: call_def)

lemma run_on_client [simp]: "run_state (on_client env op) s = ((), operated env op s)"
  by (simp add: on_client_def Let_def)

lemma run_observe [simp]: "run_state (observe env f) s = (f (fst (client (deliver env s))), deliver env s)"
  by (simp add: observe_def Let_def)

lemma run_sleep_for [simp]: "run_state (sleep_for env) s = ((), deliver env s)"
  by (simp add: sleep_for_def)

lemma deliver_fields [simp]:
  "checks (deliver env s) = checks s" "ignored (deliver env s) = ignored s"
  "calls (deliver env s) = calls s" "tick (deliver env s) = Suc (tick s)"
  "client (deliver env s) = run_events (segment_status env) (client s) (notifications env (tick s))"
  by (simp_all add: deliver_def)

lemma deliver_checks [simp]: "deliver env (s\<lparr>checks := cs\<rparr>) = (deliver env s)\<lparr>checks := cs\<rparr>"
  by (simp add: deliver_def)

lemma run_case_action [case_simps]:
  "run_case (sleep_for env) s = deliver env s"
  "run_case (on_client env op) s = operated env op s"
  by (simp_all add: run_case_def)

lemma run_events_append: "run_events srv cl (xs @ ys) = run_events srv (run_events srv cl xs) ys"
  by (simp add: run_events_def)

text \<open>A wait on a latched notification answers whether it had arrived when the wait ended.\<close>

lemma wake_states_last: "last (wake_states env s) = fst (client (deliver env s))" "wake_states env s \<noteq> []"
  by (simp_all add: wake_states_def)

lemma wake_states_evolve: "successively client_evolves (wake_states env s)"
proof -
  let ?es = "notifications env (tick s)"
  let ?st = "\<lambda>k. run_events (segment_status env) (client s) (take k ?es)"
  have step: "client_evolves (fst (?st k)) (fst (?st (Suc k)))" if "k < length ?es" for k
  proof -
    have "?st (Suc k) = run_event (segment_status env) (?st k) (?es ! k)"
      using that by (simp add: take_Suc_conv_app_nth run_events_append)
    then show ?thesis unfolding client_evolves_def by (metis prod.collapse)
  qed
  have nth: "wake_states env s ! k = fst (?st k)" if "k \<le> length ?es" for k
    using that unfolding wake_states_def by (simp only: nth_map_upt diff_zero add_0 less_Suc_eq_le)
  show ?thesis unfolding successively_conv_nth
  proof (intro allI impI)
    fix k assume "Suc k < length (wake_states env s)"
    then have "k < length ?es" by (simp add: wake_states_def del: upt_Suc)
    then show "client_evolves (wake_states env s ! k) (wake_states env s ! Suc k)"
      using step [of k] nth [of k] nth [of "Suc k"] by (simp only: less_imp_le Suc_leI)
  qed
qed

lemma run_wait [simp]:
  "run_state (wait_client env (waitForPlaybackState st)) s =
     (st \<in> m_statesSeen (fst (client (deliver env s))), deliver env s)"
  "run_state (wait_client env (waitForSourceFlushed i)) s =
     (i \<in> m_flushedSources (fst (client (deliver env s))), deliver env s)"
  "run_state (wait_client env (waitForBufferUnderflow i)) s =
     (i \<in> m_underflowSources (fst (client (deliver env s))), deliver env s)"
  unfolding wait_client_def waitForPlaybackState_def waitForSourceFlushed_def waitForBufferUnderflow_def
  using state_seen.wait_for_last [OF wake_states_last(2) wake_states_evolve]
    flush_seen.wait_for_last [OF wake_states_last(2) wake_states_evolve]
    underflow_seen.wait_for_last [OF wake_states_last(2) wake_states_evolve]
  by (simp_all add: wake_states_last)

section \<open>The bring-up\<close>

text \<open>The notifications and client operations of the bring-up, in the order they take effect.\<close>

definition bring_up_calls :: "AacElementaryStream \<Rightarrow> api_call list" where
  "bring_up_calls s =
     [CreateFactory, CreateMediaPipeline 1920 1080, Load ''mse://1'' False,
      AttachSource ''audio/mp4'' False (channels s) (sampleRate s), AllSourcesAttached, Play]"

text \<open>The ticks at which the calls of the bring-up are made.\<close>

definition bring_up_ticks :: "nat list" where
  "bring_up_ticks = [0, 1, 3, 4, 6, 7]"

definition attach_events :: "rialto \<Rightarrow> nat \<Rightarrow> AacElementaryStream \<Rightarrow> event list" where
  "attach_events env t s =
     notifications env t @ notifications env (t + 1) @ notifications env (t + 2) @ [Op (SetPipeline True)] @
     notifications env (t + 3) @ notifications env (t + 4) @ notifications env (t + 5) @
     [Op (AddAudioSource (source_id env) s)]"

definition playing_events :: "rialto \<Rightarrow> nat \<Rightarrow> AacElementaryStream \<Rightarrow> event list" where
  "playing_events env t s = attach_events env t s @
     notifications env (t + 6) @ notifications env (t + 7) @ notifications env (t + 8)"

abbreviation granted :: "rialto \<Rightarrow> nat \<Rightarrow> api_call \<Rightarrow> bool" where
  "granted env t c \<equiv> ok (answer env t c)"

lemma run_give_up [simp]: "run_state (give_up env) s = (None, called env DestroyPipeline s)"
  by (simp add: give_up_def)

lemma session_eq_iff: "(s :: session) = s' \<longleftrightarrow> checks s = checks s' \<and> ignored s = ignored s' \<and> client s = client s'
    \<and> tick s = tick s' \<and> calls s = calls s'"
  by (cases s; cases s') auto

definition attached :: "rialto \<Rightarrow> nat \<Rightarrow> AacElementaryStream \<Rightarrow> bool" where
  "attached env t s \<longleftrightarrow> granted env t CreateFactory \<and> granted env (t + 1) (CreateMediaPipeline 1920 1080)
     \<and> granted env (t + 3) (Load ''mse://1'' False)
     \<and> granted env (t + 4) (AttachSource ''audio/mp4'' False (channels s) (sampleRate s))"

lemma loadAndAttachAudio_some:
  assumes "run_state (loadAndAttachAudio env st) s = (Some i, s')"
  shows "attached env (tick s) st \<and> i = source_id env \<and> tick s' = tick s + 6 \<and> checks s' = checks s
     \<and> ignored s' = ignored s \<and> calls s' = calls s @ take 4 (bring_up_calls st)
     \<and> client s' = run_events (segment_status env) (client s) (attach_events env (tick s) st)"
  using assms
  by (auto simp: loadAndAttachAudio_def attached_def bring_up_calls_def attach_events_def run_events_append
      kMaxWidth_def kMaxHeight_def eval_nat_numeral split: if_splits)

lemma loadAndAttachAudio_result:
  "fst (run_state (loadAndAttachAudio env st) s) = (if attached env (tick s) st then Some (source_id env) else None)"
  by (simp add: loadAndAttachAudio_def attached_def kMaxWidth_def kMaxHeight_def eval_nat_numeral)

lemma loadAndAttachAudio_report:
  "run_state (loadAndAttachAudio env st) s = (r, s') \<Longrightarrow> checks s' = checks s \<and> ignored s' = ignored s"
  by (auto simp: loadAndAttachAudio_def split: if_splits)

text \<open>The bring-up from a session \<open>s\<close>: what it needs, and the session it ends in.\<close>

definition reached_playing :: "rialto \<Rightarrow> session \<Rightarrow> AacElementaryStream \<Rightarrow> bool" where
  "reached_playing env s st \<longleftrightarrow> attached env (tick s) st \<and> granted env (tick s + 6) AllSourcesAttached
     \<and> granted env (tick s + 7) Play
     \<and> PLAYING \<in> m_statesSeen (fst (run_events (segment_status env) (client s) (playing_events env (tick s) st)))"

definition attached_session :: "rialto \<Rightarrow> AacElementaryStream \<Rightarrow> session \<Rightarrow> session" where
  "attached_session env st s =
     s\<lparr>client := run_events (segment_status env) (client s) (attach_events env (tick s) st),
       tick := tick s + 6, calls := calls s @ take 4 (bring_up_calls st)\<rparr>"

definition playing_session :: "rialto \<Rightarrow> AacElementaryStream \<Rightarrow> session \<Rightarrow> session" where
  "playing_session env st s =
     s\<lparr>client := run_events (segment_status env) (client s) (playing_events env (tick s) st),
       tick := tick s + 9, calls := calls s @ bring_up_calls st\<rparr>"

lemma loadAndAttachAudio_run:
  "attached env (tick s) st \<Longrightarrow>
     run_state (loadAndAttachAudio env st) s = (Some (source_id env), attached_session env st s)"
proof -
  assume a: "attached env (tick s) st"
  obtain r s' where r: "run_state (loadAndAttachAudio env st) s = (r, s')" by (rule prod.exhaust)
  with loadAndAttachAudio_result [of env st s] a have "r = Some (source_id env)" by simp
  with r loadAndAttachAudio_some [of env st s] show ?thesis
    by (simp add: session_eq_iff attached_session_def)
qed

lemma driveToPlaying_run:
  "reached_playing env s st \<Longrightarrow>
     run_state (driveToPlaying env st) s = (Some (source_id env), playing_session env st s)"
  unfolding reached_playing_def
  by (simp add: driveToPlaying_def loadAndAttachAudio_run attached_session_def playing_session_def session_eq_iff
      bring_up_calls_def playing_events_def run_events_append eval_nat_numeral)

lemma driveToPlaying_result:
  "fst (run_state (driveToPlaying env st) s) = (if reached_playing env s st then Some (source_id env) else None)"
proof (cases "reached_playing env s st")
  case False
  obtain r s' where r: "run_state (loadAndAttachAudio env st) s = (r, s')" by (rule prod.exhaust)
  show ?thesis
  proof (cases "attached env (tick s) st")
    case True
    with False show ?thesis unfolding reached_playing_def
      by (simp add: driveToPlaying_def loadAndAttachAudio_run attached_session_def playing_events_def
          run_events_append eval_nat_numeral)
  next
    case False
    with r loadAndAttachAudio_result [of env st s] have "r = None" by simp
    with r False show ?thesis by (simp add: driveToPlaying_def reached_playing_def)
  qed
qed (simp add: driveToPlaying_run)

lemma driveToPlaying_report:
  "checks (snd (run_state (driveToPlaying env st) s)) = checks s \<and> ignored (snd (run_state (driveToPlaying env st) s)) = ignored s"
proof -
  obtain r s' where r: "run_state (loadAndAttachAudio env st) s = (r, s')" by (rule prod.exhaust)
  with loadAndAttachAudio_report [OF r] show ?thesis
    by (cases r) (simp_all add: driveToPlaying_def)
qed

text \<open>A case that begins with the bring-up passes exactly when the bring-up succeeds and its body passes.\<close>

definition body_session :: "rialto \<Rightarrow> AacElementaryStream \<Rightarrow> session" where
  "body_session env st = (playing_session env st (fresh_session\<lparr>checks := [True]\<rparr>))\<lparr>checks := [True, True]\<rparr>"

lemma playing_case_passed:
  "passed (run_case (playing_case env v n body) fresh_session) \<longleftrightarrow>
     v = Proceed \<and> frames (generateAacAdtsStream (encoder env) n) \<noteq> []
     \<and> reached_playing env (fresh_session\<lparr>checks := [True]\<rparr>) (generateAacAdtsStream (encoder env) n)
     \<and> passed (run_case (body (generateAacAdtsStream (encoder env) n) (source_id env))
                 (body_session env (generateAacAdtsStream (encoder env) n)))"
proof (cases v)
  case Proceed
  let ?st = "generateAacAdtsStream (encoder env) n" and ?s = "fresh_session\<lparr>checks := [True]\<rparr>"
  obtain r s' where r: "run_state (driveToPlaying env ?st) ?s = (r, s')" by (rule prod.exhaust)
  have run: "run_case (playing_case env v n body) fresh_session =
      (if frames ?st \<noteq> [] then run_case (fatal_some r (body ?st)) s' else fresh_session\<lparr>checks := [False]\<rparr>)"
    using r Proceed by (simp add: playing_case_def feeding_case_def case_simps Let_def)
  show ?thesis
  proof (cases "reached_playing env ?s ?st")
    case True
    with r driveToPlaying_run [OF True] have "r = Some (source_id env)" "s' = playing_session env ?st ?s" by simp_all
    with run True Proceed show ?thesis
      by (simp add: case_simps body_session_def passed_def playing_session_def)
  next
    case False
    with r driveToPlaying_result [of env ?st ?s] have "r = None" by simp
    with run False show ?thesis by (simp add: case_simps passed_def)
  qed
qed (simp add: playing_case_def feeding_case_def case_simps)

lemma feeding_case_passed:
  "passed (run_case (feeding_case env v n setup bring_up body) fresh_session) \<longleftrightarrow>
     v = Proceed \<and> frames (generateAacAdtsStream (encoder env) n) \<noteq> []
     \<and> (let st = generateAacAdtsStream (encoder env) n;
            (r, s) = run_state (bring_up st) (run_case (for_each setup (on_client env)) (fresh_session\<lparr>checks := [True]\<rparr>))
        in r \<noteq> None \<and> passed (run_case (body st (the r)) (s\<lparr>checks := checks s @ [True]\<rparr>)))"
proof (cases v)
  case Proceed
  let ?st = "generateAacAdtsStream (encoder env) n"
  let ?s = "run_case (for_each setup (on_client env)) (fresh_session\<lparr>checks := [True]\<rparr>)"
  obtain r s where r: "run_state (bring_up ?st) ?s = (r, s)" by (rule prod.exhaust)
  moreover have "run_case (feeding_case env v n setup bring_up body) fresh_session =
      (if frames ?st \<noteq> [] then run_case (fatal_some r (body ?st)) s else fresh_session\<lparr>checks := [False]\<rparr>)"
    using r Proceed by (simp add: feeding_case_def case_simps Let_def run_case_def [of "for_each setup (on_client env)"])
  ultimately show ?thesis using Proceed
    by (cases r) (simp_all add: case_simps passed_def Let_def)
qed (simp add: feeding_case_def case_simps)

section \<open>What the client has seen\<close>

definition notified :: "PlaybackState \<Rightarrow> event list \<Rightarrow> bool" where
  "notified st es \<longleftrightarrow> Op (NotifyPlaybackState st) \<in> set es"

lemma seen_event:
  "m_statesSeen (fst (run_event srv cl e)) = m_statesSeen (fst cl) \<union> {st. e = Op (NotifyPlaybackState st)}
   \<and> m_networkStatesSeen (fst (run_event srv cl e)) = m_networkStatesSeen (fst cl) \<union> {st. e = Op (NotifyNetworkState st)}
   \<and> m_flushedSources (fst (run_event srv cl e)) = m_flushedSources (fst cl) \<union> {i. e = Op (NotifySourceFlushed i)}"
proof -
  obtain c lg where cl: "cl = (c, lg)" by (rule prod.exhaust)
  show ?thesis
  proof (cases e)
    case (Op op)
    then show ?thesis unfolding cl by (cases op) (auto simp: op_defs split: option.splits)
  next
    case (NeedData i n r shm)
    obtain c1 lg1 where r: "notifyNeedMediaData srv (c, lg) i n r shm = (c1, lg1)" by (rule prod.exhaust)
    from r have "m_statesSeen c1 = m_statesSeen c \<and> m_networkStatesSeen c1 = m_networkStatesSeen c
        \<and> m_flushedSources c1 = m_flushedSources c"
      by (cases rule: round_cases) (simp_all add: offered_client_def record_request_def)
    with NeedData r show ?thesis unfolding cl by simp
  qed
qed

lemma states_seen_run:
  "m_statesSeen (fst (run_events srv cl es)) = m_statesSeen (fst cl) \<union> {st. notified st es}"
  by (induction es arbitrary: cl) (auto simp: seen_event notified_def)

lemma network_states_seen_run:
  "m_networkStatesSeen (fst (run_events srv cl es)) =
     m_networkStatesSeen (fst cl) \<union> {st. Op (NotifyNetworkState st) \<in> set es}"
  by (induction es arbitrary: cl) (auto simp: seen_event)

lemma flushed_run:
  "m_flushedSources (fst (run_events srv cl es)) =
     m_flushedSources (fst cl) \<union> {i. Op (NotifySourceFlushed i) \<in> set es}"
  by (induction es arbitrary: cl) (auto simp: seen_event)

lemma fresh_client_seen [simp]:
  "m_statesSeen fresh_client = {}" "m_networkStatesSeen fresh_client = {}" "m_flushedSources fresh_client = {}"
  by (simp_all add: fresh_client_def)

lemma notified_append [simp]: "notified st (xs @ ys) \<longleftrightarrow> notified st xs \<or> notified st ys"
  by (auto simp: notified_def)

text \<open>All notifications of the ticks from \<open>a\<close> up to, not including, \<open>b\<close>.\<close>

definition between :: "rialto \<Rightarrow> nat \<Rightarrow> nat \<Rightarrow> event list" where
  "between env a b = concat (map (notifications env) [a..<b])"

lemma between_step: "a < b \<Longrightarrow> between env a b = notifications env a @ between env (Suc a) b"
  by (simp add: between_def upt_conv_Cons)

lemma between_empty [simp]: "between env a a = []"
  by (simp add: between_def)

lemma notified_attach: "notified st (attach_events env t s) \<longleftrightarrow> notified st (between env t (t + 6))"
  by (simp add: attach_events_def between_step notified_def eval_nat_numeral)

lemma notified_playing: "notified st (playing_events env t s) \<longleftrightarrow> notified st (between env t (t + 9))"
  by (simp add: playing_events_def attach_events_def between_step notified_def eval_nat_numeral)

lemma network_playing:
  "Op (NotifyNetworkState st) \<in> set (playing_events env t s) \<longleftrightarrow> Op (NotifyNetworkState st) \<in> set (between env t (t + 9))"
  by (simp add: playing_events_def attach_events_def between_step eval_nat_numeral)

text \<open>The bring-up from a fresh session, by the server's answers and notifications alone.\<close>

lemma reached_playing_fresh:
  "reached_playing env (fresh_session\<lparr>checks := cs\<rparr>) st \<longleftrightarrow>
     attached env 0 st \<and> granted env 6 AllSourcesAttached \<and> granted env 7 Play \<and> notified PLAYING (between env 0 9)"
  by (simp add: reached_playing_def states_seen_run notified_playing)

lemma reached_playing_start:
  "reached_playing env fresh_session st \<longleftrightarrow>
     attached env 0 st \<and> granted env 6 AllSourcesAttached \<and> granted env 7 Play \<and> notified PLAYING (between env 0 9)"
  by (simp add: reached_playing_def states_seen_run notified_playing)

lemma body_session_fields [simp]:
  "checks (body_session env st) = [True, True]" "\<not> ignored (body_session env st)" "tick (body_session env st) = 9"
  "calls (body_session env st) = bring_up_calls st"
  "client (body_session env st) = run_events (segment_status env) (fresh_client, []) (playing_events env 0 st)"
  by (simp_all add: body_session_def playing_session_def)

lemma run_fatal_live [case_simps]:
  "run_case (fatal_live env b rest) s =
     (if b then run_case rest (s\<lparr>checks := checks s @ [b]\<rparr>)
      else called env DestroyPipeline (s\<lparr>checks := checks s @ [b]\<rparr>))"
  by (simp add: fatal_live_def run_case_def)

lemma deliver_calls [simp]: "deliver env (s\<lparr>calls := cs\<rparr>) = (deliver env s)\<lparr>calls := cs\<rparr>"
  by (simp add: deliver_def)

lemma run_stop_and_reset [case_simps]:
  "run_case (stop_and_reset env) s =
     (deliver env (deliver env s))\<lparr>calls := calls s @ [Stop, DestroyPipeline]\<rparr>"
  by (simp add: stop_and_reset_def case_simps)

text \<open>The client the body's \<open>k\<close>-th action finds, counted from zero, while the test thread only looks.\<close>

definition client_at :: "rialto \<Rightarrow> AacElementaryStream \<Rightarrow> nat \<Rightarrow> FeedClient \<times> pipeline_call list" where
  "client_at env st k =
     run_events (segment_status env) (fresh_client, []) (playing_events env 0 st @ between env 9 (10 + k))"

lemma between_snoc: "a \<le> b \<Longrightarrow> between env a (Suc b) = between env a b @ notifications env b"
  by (simp add: between_def)

lemma client_at_0: "client (deliver env (body_session env st)) = client_at env st 0"
  by (simp add: client_at_def run_events_append between_step)

lemma client_at_Suc:
  "run_events (segment_status env) (client_at env st k) (notifications env (10 + k)) = client_at env st (Suc k)"
  using between_snoc [of 9 "10 + k" env] by (simp add: client_at_def run_events_append)

text \<open>What every case needs before its body, by the server's answers and notifications alone.\<close>

definition brought_up :: "rialto \<Rightarrow> verdict \<Rightarrow> int \<Rightarrow> bool" where
  "brought_up env v n \<longleftrightarrow> v = Proceed \<and> frames (generateAacAdtsStream (encoder env) n) \<noteq> []
     \<and> attached env 0 (generateAacAdtsStream (encoder env) n)
     \<and> granted env 6 AllSourcesAttached \<and> granted env 7 Play \<and> notified PLAYING (between env 0 9)"

lemma playing_case_verdict:
  "passed (run_case (playing_case env v n body) fresh_session) \<longleftrightarrow>
     brought_up env v n \<and> passed (run_case (body (generateAacAdtsStream (encoder env) n) (source_id env))
                              (body_session env (generateAacAdtsStream (encoder env) n)))"
  by (auto simp: playing_case_passed brought_up_def reached_playing_fresh)

lemma seen_in_body:
  "st \<in> m_statesSeen (fst (run_events srv (run_events srv (fresh_client, []) (playing_events env 0 s)) es)) \<longleftrightarrow>
     notified st (between env 0 9) \<or> notified st es"
  by (simp add: states_seen_run notified_playing)

lemma network_in_body:
  "st \<in> m_networkStatesSeen (fst (run_events srv (run_events srv (fresh_client, []) (playing_events env 0 s)) es)) \<longleftrightarrow>
     Op (NotifyNetworkState st) \<in> set (between env 0 9) \<or> Op (NotifyNetworkState st) \<in> set es"
  by (simp add: network_states_seen_run network_playing)

lemma notified_between_snoc:
  "a \<le> b \<Longrightarrow> notified st (between env a (Suc b)) \<longleftrightarrow> notified st (between env a b) \<or> notified st (notifications env b)"
  by (simp add: between_snoc)

text \<open>Every request is logged, whatever the client does with it.\<close>

fun is_request :: "event \<Rightarrow> bool" where
  "is_request (NeedData i n r shm) = True"
| "is_request (Op op) = False"

lemma request_logged:
  "length (m_needDataLog (fst (run_event srv cl e))) = length (m_needDataLog (fst cl)) + (if is_request e then 1 else 0)"
proof -
  obtain c lg where cl: "cl = (c, lg)" by (rule prod.exhaust)
  show ?thesis
  proof (cases e)
    case (Op op)
    then show ?thesis unfolding cl by (cases op) (auto simp: op_defs split: option.splits)
  next
    case (NeedData i n r shm)
    obtain c1 lg1 where r: "notifyNeedMediaData srv (c, lg) i n r shm = (c1, lg1)" by (rule prod.exhaust)
    then have "length (m_needDataLog c1) = Suc (length (m_needDataLog c))"
      by (cases rule: round_cases) (simp_all add: offered_client_def offering_client_def advance_def record_request_def)
    with NeedData r show ?thesis unfolding cl by simp
  qed
qed

lemma requests_logged:
  "length (m_needDataLog (fst (run_events srv cl es))) = length (m_needDataLog (fst cl)) + length (filter is_request es)"
  by (induction es arbitrary: cl) (simp_all add: request_logged)

lemma between_add: "a \<le> b \<Longrightarrow> b \<le> c \<Longrightarrow> between env a c = between env a b @ between env b c"
  using upt_add_eq_append [of a b "c - b"] by (simp add: between_def)

text \<open>Cases that prepare the client first.\<close>

lemma drive_then:
  "(let (r, s') = run_state (driveToPlaying env st) s
    in r \<noteq> None \<and> passed (run_case (body (the r)) (s'\<lparr>checks := checks s' @ [True]\<rparr>))) \<longleftrightarrow>
   reached_playing env s st
     \<and> passed (run_case (body (source_id env)) ((playing_session env st s)\<lparr>checks := checks s @ [True]\<rparr>))"
proof (cases "reached_playing env s st")
  case True
  then show ?thesis by (simp add: driveToPlaying_run playing_session_def)
next
  case False
  then have "fst (run_state (driveToPlaying env st) s) = None" by (simp add: driveToPlaying_result)
  with False show ?thesis by (cases "run_state (driveToPlaying env st) s") simp
qed

lemma attach_then:
  "(let (r, s') = run_state (loadAndAttachAudio env st) s
    in r \<noteq> None \<and> passed (run_case (body (the r)) (s'\<lparr>checks := checks s' @ [True]\<rparr>))) \<longleftrightarrow>
   attached env (tick s) st
     \<and> passed (run_case (body (source_id env)) ((attached_session env st s)\<lparr>checks := checks s @ [True]\<rparr>))"
proof (cases "attached env (tick s) st")
  case True
  then show ?thesis by (simp add: loadAndAttachAudio_run attached_session_def)
next
  case False
  then have "fst (run_state (loadAndAttachAudio env st) s) = None" by (simp add: loadAndAttachAudio_result)
  with False show ?thesis by (cases "run_state (loadAndAttachAudio env st) s") simp
qed

lemma prepared_case_passed:
  defines "prepared setup env \<equiv> run_case (for_each setup (on_client env)) (fresh_session\<lparr>checks := [True]\<rparr>)"
  shows "passed (run_case (feeding_case env v n setup (driveToPlaying env) body) fresh_session) \<longleftrightarrow>
     v = Proceed \<and> frames (generateAacAdtsStream (encoder env) n) \<noteq> []
     \<and> reached_playing env (prepared setup env) (generateAacAdtsStream (encoder env) n)
     \<and> passed (run_case (body (generateAacAdtsStream (encoder env) n) (source_id env))
          ((playing_session env (generateAacAdtsStream (encoder env) n) (prepared setup env))
             \<lparr>checks := checks (prepared setup env) @ [True]\<rparr>))"
  unfolding feeding_case_passed Let_def prepared_def by (simp only: drive_then [unfolded Let_def])

lemma attached_case_passed:
  "passed (run_case (feeding_case env v n [] (loadAndAttachAudio env) body) fresh_session) \<longleftrightarrow>
     v = Proceed \<and> frames (generateAacAdtsStream (encoder env) n) \<noteq> []
     \<and> attached env 0 (generateAacAdtsStream (encoder env) n)
     \<and> passed (run_case (body (generateAacAdtsStream (encoder env) n) (source_id env))
          ((attached_session env (generateAacAdtsStream (encoder env) n) (fresh_session\<lparr>checks := [True]\<rparr>))
             \<lparr>checks := [True, True]\<rparr>))"
  unfolding feeding_case_passed Let_def attach_then [unfolded Let_def]
  by (simp add: case_simps)

section \<open>A server that grants everything\<close>

text \<open>For concrete runs: every call is granted at once, the getters write \<open>x\<close>, and the only
  notifications are the ones given for each tick.\<close>

definition granting :: "int \<Rightarrow> (nat \<Rightarrow> event list) \<Rightarrow> rialto" where
  "granting x ns =
     \<lparr>encoder = (\<lambda>_. Some sample_run), segment_status = (\<lambda>_ _ _. ADD_OK), notifications = ns,
      answer = (\<lambda>_ _. \<lparr>ok = True, out1 = Some x, out2 = Some x, out_level = Some (1 / 2), elapsed = 1\<rparr>),
      source_id = 7, clock = (\<lambda>_ k. 60 * int k)\<rparr>"

definition playing_at :: "nat \<Rightarrow> nat \<Rightarrow> event list" where
  "playing_at t k = (if k = t then [Op (NotifyPlaybackState PLAYING)] else [])"

lemma granting_stream: "frames (generateAacAdtsStream (encoder (granting x ns)) n) \<noteq> []"
  by (simp add: granting_def generateAacAdtsStream_def sample_run_def)

lemma granting_fields [simp]:
  "ok (answer (granting x ns) t c)" "out1 (answer (granting x ns) t c) = Some x"
  "notifications (granting x ns) = ns" "clock (granting x ns) = (\<lambda>_ k. 60 * int k)"
  "elapsed (answer (granting x ns) t c) = 1" "source_id (granting x ns) = 7"
  by (simp_all add: granting_def)

lemma granting_brought_up: "notified PLAYING (between (granting x ns) 0 9) \<Longrightarrow> brought_up (granting x ns) Proceed n"
  using granting_stream [of x ns n] by (simp add: brought_up_def attached_def)

lemma playing_between: "8 < k \<Longrightarrow> notified PLAYING (between (granting x (playing_at 8)) 0 k)"
  by (auto simp: notified_def between_def playing_at_def intro!: bexI [of _ 8])

section \<open>Polled read-backs\<close>

lemma deliver_times: "tick ((deliver env ^^ n) s) = tick s + n" "checks ((deliver env ^^ n) s) = checks s"
  "ignored ((deliver env ^^ n) s) = ignored s" "calls ((deliver env ^^ n) s) = calls s"
  by (induction n) simp_all

text \<open>A poll against a clock that sleeps between reads ends; its verdict is its last read.\<close>

lemma run_poll:
  assumes "sleeping_clock (clock env (tick s))"
  obtains n where "0 < n" "n \<le> 101"
    "pollUntilApplied (clock env (tick s)) (\<lambda>i. cond (answer env (tick s + i) c)) =
       Some (cond (answer env (tick s + (n - 1)) c), n)"
    "run_state (poll env c cond) s =
       ((cond (answer env (tick s + (n - 1)) c), map (\<lambda>i. answer env (tick s + i) c) [0..<n]),
        ((deliver env ^^ n) s)\<lparr>calls := calls s @ replicate n c\<rparr>)"
  using poll_returns [OF assms, of "\<lambda>i. cond (answer env (tick s + i) c)"] that by (auto simp: poll_def)

lemma written_last: "rs \<noteq> [] \<Longrightarrow> out (last rs) = Some x \<Longrightarrow> written out init rs = x"
  by (cases rs rule: rev_cases) (simp_all add: written_def)

section \<open>The bring-up is all or nothing\<close>

lemma drive_bind:
  "run_state (driveToPlaying env st) s =
     (case run_state (loadAndAttachAudio env st) s of (r, s1) \<Rightarrow>
        run_state (case r of None \<Rightarrow> State_Monad.return None
          | Some sourceId \<Rightarrow> do {
              attached \<leftarrow> call env AllSourcesAttached;
              if \<not> ok attached then give_up env else do {
              played \<leftarrow> call env Play;
              if \<not> ok played then give_up env else do {
              playing \<leftarrow> wait_client env (waitForPlaybackState PLAYING);
              if \<not> playing then give_up env else State_Monad.return (Some sourceId) }}}) s1)"
  by (simp add: driveToPlaying_def)

text \<open>The calls of a bring-up that stops after \<open>k\<close> of its six calls.\<close>

definition broken_off :: "rialto \<Rightarrow> nat \<Rightarrow> AacElementaryStream \<Rightarrow> nat \<Rightarrow> api_call list" where
  "broken_off env t st k = take k (bring_up_calls st)
     @ (if granted env t CreateFactory \<and> granted env (t + 1) (CreateMediaPipeline 1920 1080) then [DestroyPipeline] else [])"

lemma attach_broken_off:
  assumes "\<not> attached env (tick s) st"
  shows "\<exists>k. 0 < k \<and> k \<le> 4 \<and> calls (snd (run_state (loadAndAttachAudio env st) s)) = calls s @ broken_off env (tick s) st k"
proof -
  let ?t = "tick s"
  let ?m = "\<lambda>k. calls (snd (run_state (loadAndAttachAudio env st) s)) = calls s @ broken_off env ?t st k"
  note defs = loadAndAttachAudio_def broken_off_def bring_up_calls_def kMaxWidth_def kMaxHeight_def
  consider "\<not> granted env ?t CreateFactory"
    | "granted env ?t CreateFactory" "\<not> granted env (?t + 1) (CreateMediaPipeline 1920 1080)"
    | "granted env ?t CreateFactory" "granted env (?t + 1) (CreateMediaPipeline 1920 1080)"
      "\<not> granted env (?t + 3) (Load ''mse://1'' False)"
    | "granted env ?t CreateFactory" "granted env (?t + 1) (CreateMediaPipeline 1920 1080)"
      "granted env (?t + 3) (Load ''mse://1'' False)"
      "\<not> granted env (?t + 4) (AttachSource ''audio/mp4'' False (channels st) (sampleRate st))"
    using assms unfolding attached_def by blast
  then show ?thesis
  proof cases
    case 1
    then have "?m 1" by (simp add: defs)
    then show ?thesis by (intro exI [of _ 1]) simp
  next
    case 2
    then have "?m 2" by (simp add: defs eval_nat_numeral)
    then show ?thesis by (intro exI [of _ 2]) simp
  next
    case 3
    then have "?m 3" by (simp add: defs eval_nat_numeral)
    then show ?thesis by (intro exI [of _ 3]) simp
  next
    case 4
    then have "?m 4" by (simp add: defs eval_nat_numeral)
    then show ?thesis by (intro exI [of _ 4]) simp
  qed
qed

lemma drive_broken_off:
  assumes "\<not> reached_playing env s st"
  shows "\<exists>k. 0 < k \<and> k \<le> 6 \<and> calls (snd (run_state (driveToPlaying env st) s)) = calls s @ broken_off env (tick s) st k"
proof (cases "attached env (tick s) st")
  case False
  obtain s1 where "run_state (loadAndAttachAudio env st) s = (None, s1)"
    using loadAndAttachAudio_result [of env st s] False by (cases "run_state (loadAndAttachAudio env st) s") auto
  with attach_broken_off [OF False] show ?thesis by (auto simp: drive_bind intro: le_trans)
next
  case True
  let ?m = "\<lambda>k. calls (snd (run_state (driveToPlaying env st) s)) = calls s @ broken_off env (tick s) st k"
  note defs = drive_bind loadAndAttachAudio_run [OF True] attached_session_def broken_off_def bring_up_calls_def
  have created: "granted env (tick s) CreateFactory" "granted env (Suc (tick s)) (CreateMediaPipeline 1920 1080)"
    using True by (simp_all add: attached_def)
  show ?thesis
  proof (cases "granted env (tick s + 6) AllSourcesAttached")
    case False
    with created have "?m 5" by (simp add: defs eval_nat_numeral)
    then show ?thesis by (intro exI [of _ 5]) simp
  next
    case yes: True
    have "?m 6"
    proof (cases "granted env (tick s + 7) Play")
      case False
      with yes created show ?thesis by (simp add: defs eval_nat_numeral)
    next
      case played: True
      with assms True yes have "PLAYING \<notin> m_statesSeen (fst (run_events (segment_status env)
          (client s) (playing_events env (tick s) st)))"
        by (simp add: reached_playing_def)
      with played yes created show ?thesis
        by (simp add: defs playing_events_def run_events_append eval_nat_numeral)
    qed
    then show ?thesis by (intro exI [of _ 6]) simp
  qed
qed


end
