(* ===== verification/Data_Protocol_Cases.thy ===== *)
theory Data_Protocol_Cases
  imports Playback_Session
begin

text \<open>
  The need-data protocol cases (\<open>src/L4_e2e/playback/DataProtocolTests.cpp\<close>) and what each of
  them decides, in terms of the calls the server saw and the notifications it sent.
\<close>

section \<open>The cases\<close>

definition kShortFrames :: int where "kShortFrames = 50"
definition protocol_kLongFrames :: int where "protocol_kLongFrames = 200"

definition NeedDataProtocolIsWellFormed :: "rialto \<Rightarrow> verdict \<Rightarrow> (session, unit) state" where
  "NeedDataProtocolIsWellFormed env v = playing_case env v protocol_kLongFrames (\<lambda>s sourceId. do {
     log \<leftarrow> observe env needDataLog;
     fatal_live env (log \<noteq> []) (do {
       for_each log (\<lambda>record. do { check (nd_frameCount record > 0); check (nd_source record = sourceId) });
       overlapping \<leftarrow> observe env sawOverlappingNeedData;
       check (\<not> overlapping);
       accepted \<leftarrow> observe env allSegmentsAccepted;
       check accepted;
       stop_and_reset env }) })"

definition HaveDataEosDrivesEndOfStream :: "rialto \<Rightarrow> verdict \<Rightarrow> (session, unit) state" where
  "HaveDataEosDrivesEndOfStream env v = playing_case env v kShortFrames (\<lambda>s sourceId. do {
     ended \<leftarrow> wait_client env (waitForPlaybackState END_OF_STREAM);
     check ended;
     failed \<leftarrow> observe env (\<lambda>c. sawPlaybackState c FAILURE);
     check (\<not> failed);
     stop_and_reset env })"

definition CleanRunNetworkStateVocabulary :: "rialto \<Rightarrow> verdict \<Rightarrow> (session, unit) state" where
  "CleanRunNetworkStateVocabulary env v = playing_case env v kShortFrames (\<lambda>s sourceId. do {
     ended \<leftarrow> wait_client env (waitForPlaybackState END_OF_STREAM);
     check ended;
     states \<leftarrow> observe env networkStatesSeen;
     check (BUFFERING \<in> states);
     check (FORMAT_ERROR \<notin> states);
     check (NETWORK_ERROR \<notin> states);
     check (DECODE_ERROR \<notin> states);
     stop_and_reset env })"

definition StarvationIsToleratedAndEventsObserved :: "rialto \<Rightarrow> verdict \<Rightarrow> (session, unit) state" where
  "StarvationIsToleratedAndEventsObserved env v = playing_case env v protocol_kLongFrames (\<lambda>s sourceId. do {
     on_client env (SetStarve True);
     underflowed \<leftarrow> wait_client env (waitForBufferUnderflow sourceId);
     failed \<leftarrow> observe env (\<lambda>c. sawPlaybackState c FAILURE);
     check (\<not> failed);
     qos \<leftarrow> observe env lastQos;
     updates \<leftarrow> observe env positionUpdateCount;
     if updates > 0 then do {
       position \<leftarrow> observe env lastPosition;
       check (position \<ge> 0);
       stop_and_reset env }
     else stop_and_reset env })"

section \<open>What the cases decide\<close>

lemma run_for_each_pairs [simp]:
  "run_state (for_each xs (\<lambda>x. do { check (P x); check (Q x) })) s =
     ((), s\<lparr>checks := checks s @ concat (map (\<lambda>x. [P x, Q x]) xs)\<rparr>)"
  by (induction xs arbitrary: s) simp_all

lemma all_pairs [simp]:
  "list_all (\<lambda>b. b) (concat (map (\<lambda>x. [P x, Q x]) xs)) = list_all (\<lambda>x. P x \<and> Q x) xs"
  by (induction xs) simp_all

text \<open>The well-formedness case passes exactly when the bring-up is granted and, on the client the
  case then looks at, every request asked for frames of the attached source, no request
  overlapped an unanswered one, and the server refused no segment it was ever offered.\<close>

lemma need_data_case_verdict:
  "passed (run_case (NeedDataProtocolIsWellFormed env v) fresh_session) \<longleftrightarrow>
     (let st = generateAacAdtsStream (encoder env) 200; requests = m_needDataLog (fst (client_at env st 0))
      in brought_up env v 200 \<and> requests \<noteq> []
         \<and> list_all (\<lambda>r. 0 < nd_frameCount r \<and> nd_source r = source_id env) requests
         \<and> \<not> m_overlappingNeedData (fst (client_at env st 1))
         \<and> add_count NO_SPACE (snd (client_at env st 2)) = 0 \<and> add_count ADD_ERROR (snd (client_at env st 2)) = 0)"
proof -
  let ?st = "generateAacAdtsStream (encoder env) 200"
  have c: "client (deliver env (deliver env (body_session env ?st))) = client_at env ?st 1"
    "client (deliver env (deliver env (deliver env (body_session env ?st)))) = client_at env ?st 2"
    using client_at_0 [of env ?st] client_at_Suc [of env ?st 0] client_at_Suc [of env ?st 1]
    by (simp_all add: numeral_2_eq_2)
  have t: "tallied (fst (client_at env ?st 2)) (snd (client_at env ?st 2))"
    using tallied_run [of "segment_status env"] by (metis client_at_def prod.collapse)
  show ?thesis
    unfolding NeedDataProtocolIsWellFormed_def playing_case_verdict protocol_kLongFrames_def
    using t c client_at_0 [of env ?st]
    by (simp add: case_simps passed_def tallied_def Let_def observer_defs del: deliver_fields(5))
qed

text \<open>The clean-run cases decide by the notifications alone: end of stream must be notified before
  the wait is over and failure never before the case looks; for the network states, buffering
  must have been notified and none of the three error states.  The order in which the
  notifications came plays no part.\<close>

lemma clean_run_verdicts:
  "(passed (run_case (HaveDataEosDrivesEndOfStream env v) fresh_session) \<longleftrightarrow>
      brought_up env v 50 \<and> notified END_OF_STREAM (between env 0 10) \<and> \<not> notified FAILURE (between env 0 11))
   \<and> (passed (run_case (CleanRunNetworkStateVocabulary env v) fresh_session) \<longleftrightarrow>
      brought_up env v 50 \<and> notified END_OF_STREAM (between env 0 10)
      \<and> {BUFFERING, FORMAT_ERROR, NETWORK_ERROR, DECODE_ERROR}
          \<inter> {st. Op (NotifyNetworkState st) \<in> set (between env 0 11)} = {BUFFERING})"
proof -
  have "between env 0 10 = between env 0 9 @ notifications env 9"
    "between env 0 11 = between env 0 9 @ notifications env 9 @ notifications env 10"
    using between_snoc [of 0 9 env] between_snoc [of 0 10 env] by (simp_all add: eval_nat_numeral)
  then show ?thesis
    unfolding HaveDataEosDrivesEndOfStream_def CleanRunNetworkStateVocabulary_def playing_case_verdict kShortFrames_def
    by (auto simp: case_simps passed_def observer_defs seen_in_body network_in_body states_seen_run
        network_states_seen_run notified_playing network_playing)
qed

end
