(* ===== verification/Data_Fault_Cases.thy ===== *)
theory Data_Fault_Cases
  imports Playback_Session
begin

text \<open>
  The fault-feeding cases (\<open>src/L4_e2e/playback/DataFaultTests.cpp\<close>) and what each of them
  decides.
\<close>

section \<open>The cases\<close>

text \<open>The bring-up of this file, written out in one piece; it is the shared one.\<close>

definition driveToPlaying_fault :: "rialto \<Rightarrow> AacElementaryStream \<Rightarrow> (session, int option) state" where
  "driveToPlaying_fault env s = do {
     factory \<leftarrow> call env CreateFactory;
     if \<not> ok factory then State_Monad.return None else do {
     pipeline \<leftarrow> call env (CreateMediaPipeline kMaxWidth kMaxHeight);
     if \<not> ok pipeline then State_Monad.return None else do {
     on_client env (SetPipeline True);
     loaded \<leftarrow> call env (Load ''mse://1'' False);
     if \<not> ok loaded then give_up env else do {
     attached \<leftarrow> call env (AttachSource ''audio/mp4'' False (channels s) (sampleRate s));
     if \<not> ok attached then give_up env else do {
     on_client env (AddAudioSource (source_id env) s);
     allAttached \<leftarrow> call env AllSourcesAttached;
     if \<not> ok allAttached then give_up env else do {
     played \<leftarrow> call env Play;
     if \<not> ok played then give_up env else do {
     playing \<leftarrow> wait_client env (waitForPlaybackState PLAYING);
     if \<not> playing then give_up env else State_Monad.return (Some (source_id env)) }}}}}}}"

lemma driveToPlaying_fault_eq: "driveToPlaying_fault = driveToPlaying"
proof (intro ext state.expand)
  fix env s t
  show "run_state (driveToPlaying_fault env s) t = run_state (driveToPlaying env s) t"
    by (simp add: driveToPlaying_fault_def driveToPlaying_def loadAndAttachAudio_def give_up_def wait_client_def)
qed

definition fault_kLongFrames :: int where "fault_kLongFrames = 400"
definition kFillFrames :: int where "kFillFrames = 6000"
definition kFillOversupply :: nat where "kFillOversupply = 6000"
definition kUnissuedRequestId :: u32 where "kUnissuedRequestId = 0x7FFFFFF0"

definition NoSpaceIsNotAnErrorAndTheSegmentIsResent :: "rialto \<Rightarrow> verdict \<Rightarrow> (session, unit) state" where
  "NoSpaceIsNotAnErrorAndTheSegmentIsResent env v =
     feeding_case env v kFillFrames [SetOversupply kFillOversupply] (driveToPlaying env) (\<lambda>s sourceId. do {
       sleep_for env;
       noSpace \<leftarrow> observe env addSegmentNoSpaceCount;
       errors \<leftarrow> observe env addSegmentErrorCount;
       check (errors = 0);
       failed \<leftarrow> observe env (\<lambda>c. sawPlaybackState c FAILURE);
       check (\<not> failed);
       if noSpace > 0 then do {
         resent \<leftarrow> observe env sawNoSpaceSegmentAccepted;
         check resent;
         accepted \<leftarrow> observe env addSegmentOkCount;
         check (accepted > 0);
         stop_and_reset env }
       else stop_and_reset env })"

definition AddSegmentWithAnUnissuedRequestIdIsAnError :: "rialto \<Rightarrow> verdict \<Rightarrow> (session, unit) state" where
  "AddSegmentWithAnUnissuedRequestIdIsAnError env v = playing_case env v fault_kLongFrames (\<lambda>s sourceId. do {
     status \<leftarrow> add_segment env kUnissuedRequestId (segment_of sourceId s False (hd (frames s)));
     check (status \<noteq> ADD_OK);
     check (status = ADD_ERROR);
     failed \<leftarrow> observe env (\<lambda>c. sawPlaybackState c FAILURE);
     check (\<not> failed);
     stop_and_reset env })"

definition CancelledNeedDataIsNotAnError :: "rialto \<Rightarrow> verdict \<Rightarrow> (session, unit) state" where
  "CancelledNeedDataIsNotAnError env v = playing_case env v fault_kLongFrames (\<lambda>s sourceId. do {
     requestsBefore \<leftarrow> observe env (\<lambda>c. length (needDataLog c));
     on_client env (SetWithhold True);
     sleep_for env;
     flushed \<leftarrow> call env (Flush sourceId True);
     sleep_for env;
     failed \<leftarrow> observe env (\<lambda>c. sawPlaybackState c FAILURE);
     check (\<not> failed);
     on_client env (RewindSource sourceId);
     on_client env (SetWithhold False);
     sleep_for env;
     requests \<leftarrow> observe env (\<lambda>c. length (needDataLog c));
     check (requests > requestsBefore);
     failed2 \<leftarrow> observe env (\<lambda>c. sawPlaybackState c FAILURE);
     check (\<not> failed2);
     stop_and_reset env })"

definition NonFatalPlaybackErrorLeavesStateUnchanged :: "rialto \<Rightarrow> verdict \<Rightarrow> (session, unit) state" where
  "NonFatalPlaybackErrorLeavesStateUnchanged env v = playing_case env v fault_kLongFrames (\<lambda>s sourceId. do {
     on_client env (SetCorruptEvery 4);
     sleep_for env;
     errors \<leftarrow> observe env playbackErrorCount;
     failed \<leftarrow> observe env (\<lambda>c. sawPlaybackState c FAILURE);
     check (\<not> failed);
     if errors > 0 then do {
       then_state \<leftarrow> observe env stateAtLastPlaybackError;
       check (then_state = PLAYING);
       stop_and_reset env }
     else stop_and_reset env })"

fun addStatusName :: "AddSegmentStatus \<Rightarrow> string" where
  "addStatusName ADD_OK = ''OK''"
| "addStatusName NO_SPACE = ''NO_SPACE''"
| "addStatusName ADD_ERROR = ''ERROR''"

section \<open>What the cases decide\<close>

lemma run_add_segment [simp]:
  "run_state (add_segment env r seg) s =
     (segment_status env (snd (client (deliver env s))) r seg,
      (deliver env s)\<lparr>client := (fst (client (deliver env s)), snd (client (deliver env s)) @
         [AddSegment r seg (segment_status env (snd (client (deliver env s))) r seg)])\<rparr>)"
  by (simp add: add_segment_def Let_def split: prod.split)

text \<open>The cancellation case passes exactly when the bring-up is granted, no failure is notified
  before it ends, and the server makes at least one request after the case took its count,
  which it does before it begins to withhold.  A request that arrives while the feed withholds
  its answers counts like one that arrives after it resumes: the assertion that the protocol
  carries on does not need any request after the flush.\<close>

lemma cancelled_case_verdict:
  "passed (run_case (CancelledNeedDataIsNotAnError env v) fresh_session) \<longleftrightarrow>
     brought_up env v 400 \<and> list_ex is_request (between env 10 19) \<and> \<not> notified FAILURE (between env 0 20)"
proof -
  have "filter is_request xs = [] \<longleftrightarrow> \<not> list_ex is_request xs" for xs
    by (induction xs) auto
  then show ?thesis
    unfolding CancelledNeedDataIsNotAnError_def playing_case_verdict fault_kLongFrames_def
    by (auto simp: case_simps passed_def observer_defs seen_in_body states_seen_run seen_event notified_playing
        requests_logged request_logged between_step eval_nat_numeral)
qed

text \<open>All that has happened to the client before tick \<open>k\<close> of the oversupplying case.\<close>

definition oversupplied_at :: "rialto \<Rightarrow> nat \<Rightarrow> FeedClient \<times> pipeline_call list" where
  "oversupplied_at env k = run_events (segment_status env) (fresh_client, [])
     (notifications env 0 @ [Op (SetOversupply 6000)]
      @ playing_events env 1 (generateAacAdtsStream (encoder env) 6000) @ between env 10 k)"

definition oversupplied_up :: "rialto \<Rightarrow> verdict \<Rightarrow> bool" where
  "oversupplied_up env v \<longleftrightarrow> v = Proceed \<and> frames (generateAacAdtsStream (encoder env) 6000) \<noteq> []
     \<and> attached env 1 (generateAacAdtsStream (encoder env) 6000)
     \<and> granted env 7 AllSourcesAttached \<and> granted env 8 Play \<and> notified PLAYING (between env 0 10)"

lemma oversupplied_Suc:
  "10 \<le> k \<Longrightarrow> run_events (segment_status env) (oversupplied_at env k) (notifications env k) = oversupplied_at env (Suc k)"
  by (simp add: oversupplied_at_def run_events_append between_snoc)

lemma oversupplied_seen:
  "10 \<le> k \<Longrightarrow> st \<in> m_statesSeen (fst (oversupplied_at env k)) \<longleftrightarrow> notified st (between env 0 k)"
proof -
  assume "10 \<le> k"
  then have "between env 0 k = between env 0 10 @ between env 10 k"
    by (intro between_add) simp_all
  moreover have "between env 0 10 = notifications env 0 @ between env 1 10"
    by (simp add: between_step)
  moreover have "notified st (playing_events env 1 s) \<longleftrightarrow> notified st (between env 1 10)" for s
    by (simp add: notified_playing)
  moreover have "notified st (Op (SetOversupply 6000) # es) = notified st es" for es
    by (simp add: notified_def)
  ultimately show ?thesis
    by (simp add: oversupplied_at_def states_seen_run del: run_events_simps)
qed

text \<open>The session before the bring-up and the one the body starts in.\<close>

definition prepared_session :: "rialto \<Rightarrow> session" where
  "prepared_session env = run_case (for_each [SetOversupply 6000] (on_client env)) (fresh_session\<lparr>checks := [True]\<rparr>)"

definition oversupplied_session :: "rialto \<Rightarrow> session" where
  "oversupplied_session env =
     (playing_session env (generateAacAdtsStream (encoder env) 6000) (prepared_session env))\<lparr>checks := [True, True]\<rparr>"

lemma prepared_session_fields [simp]:
  "client (prepared_session env) = run_events (segment_status env) (fresh_client, []) (notifications env 0 @ [Op (SetOversupply 6000)])"
  "tick (prepared_session env) = 1" "checks (prepared_session env) = [True]" "\<not> ignored (prepared_session env)"
  by (simp_all add: prepared_session_def case_simps run_events_append)

lemma oversupplied_session_fields [simp]:
  "client (oversupplied_session env) = oversupplied_at env 10" "tick (oversupplied_session env) = 10"
  "checks (oversupplied_session env) = [True, True]" "\<not> ignored (oversupplied_session env)"
  by (simp_all add: oversupplied_session_def playing_session_def oversupplied_at_def run_events_append)

lemma oversupplied_case_passed:
  "passed (run_case (feeding_case env v 6000 [SetOversupply 6000] (driveToPlaying env) body) fresh_session) \<longleftrightarrow>
     oversupplied_up env v
     \<and> passed (run_case (body (generateAacAdtsStream (encoder env) 6000) (source_id env)) (oversupplied_session env))"
proof -
  let ?st = "generateAacAdtsStream (encoder env) 6000"
  have "client (playing_session env ?st (prepared_session env)) = oversupplied_at env 10"
    by (simp add: playing_session_def oversupplied_at_def run_events_append)
  moreover have "PLAYING \<in> m_statesSeen (fst (oversupplied_at env 10)) \<longleftrightarrow> notified PLAYING (between env 0 10)"
    by (rule oversupplied_seen) simp
  ultimately have "reached_playing env (prepared_session env) ?st \<longleftrightarrow>
      attached env 1 ?st \<and> granted env 7 AllSourcesAttached \<and> granted env 8 Play \<and> notified PLAYING (between env 0 10)"
    by (simp add: reached_playing_def playing_session_def)
  then show ?thesis
    unfolding prepared_case_passed prepared_session_def [symmetric] oversupplied_session_def oversupplied_up_def
    by simp
qed


end
