(* ===== verification/Transport_Cases.thy ===== *)
theory Transport_Cases
  imports Playback_Session
begin

text \<open>
  The transport cases (\<open>src/L4_e2e/playback/PipelineTransportDataPathTests.cpp\<close>) and the getter
  cases (\<open>src/L4_e2e/playback/PlaybackDataPathTests.cpp\<close>).
\<close>

section \<open>Play, pause, stop, rate and seek\<close>

definition kLifecycleFrames :: int where "kLifecycleFrames = 200"
definition kNonBlockBound :: int where "kNonBlockBound = 5000"

definition PlayPauseStopStateMachine :: "rialto \<Rightarrow> verdict \<Rightarrow> (session, unit) state" where
  "PlayPauseStopStateMachine env v =
     feeding_case env v kLifecycleFrames [] (loadAndAttachAudio env) (\<lambda>s sourceId. do {
       attached \<leftarrow> call env AllSourcesAttached;
       check (ok attached);
       played \<leftarrow> call env Play;
       check (ok played);
       playing \<leftarrow> wait_client env (waitForPlaybackState PLAYING);
       fatal_live env playing (do {
         failed \<leftarrow> observe env (\<lambda>c. sawPlaybackState c FAILURE);
         check (\<not> failed);
         paused \<leftarrow> call env Pause;
         check (ok paused);
         sawPaused \<leftarrow> wait_client env (waitForPlaybackState PAUSED);
         check sawPaused;
         check (elapsed paused < kNonBlockBound);
         stopped \<leftarrow> call env Stop;
         check (ok stopped);
         check (elapsed stopped < kNonBlockBound);
         sawStopped \<leftarrow> wait_client env (waitForPlaybackState STOPPED);
         _ \<leftarrow> call env DestroyPipeline;
         State_Monad.return () }) })"

definition SetPlaybackRateSucceedsWhilePlaying :: "rialto \<Rightarrow> verdict \<Rightarrow> (session, unit) state" where
  "SetPlaybackRateSucceedsWhilePlaying env v =
     feeding_case env v kLifecycleFrames [] (loadAndAttachAudio env) (\<lambda>s sourceId. do {
       attached \<leftarrow> call env AllSourcesAttached;
       check (ok attached);
       played \<leftarrow> call env Play;
       check (ok played);
       playing \<leftarrow> wait_client env (waitForPlaybackState PLAYING);
       fatal_live env playing (do {
         rated \<leftarrow> call env (SetPlaybackRate 2);
         check (ok rated);
         stop_and_reset env }) })"

definition SetPositionSetsStartThenSeeksWhilePlaying :: "rialto \<Rightarrow> verdict \<Rightarrow> (session, unit) state" where
  "SetPositionSetsStartThenSeeksWhilePlaying env v =
     feeding_case env v kLifecycleFrames [] (loadAndAttachAudio env) (\<lambda>s sourceId. do {
       started \<leftarrow> call env (SetPosition 0);
       check (ok started);
       attached \<leftarrow> call env AllSourcesAttached;
       check (ok attached);
       played \<leftarrow> call env Play;
       check (ok played);
       playing \<leftarrow> wait_client env (waitForPlaybackState PLAYING);
       fatal_live env playing (do {
         on_client env (RewindSource sourceId);
         seek \<leftarrow> call env (SetPosition 0);
         check (ok seek);
         check (elapsed seek < kNonBlockBound);
         seeking \<leftarrow> wait_client env (waitForPlaybackState SEEKING);
         check seeking;
         seekDone \<leftarrow> wait_client env (waitForPlaybackState SEEK_DONE);
         check seekDone;
         failed \<leftarrow> observe env (\<lambda>c. sawPlaybackState c FAILURE);
         check (\<not> failed);
         stop_and_reset env }) })"

section \<open>The getters\<close>

definition kAacFrames :: int where "kAacFrames = 50"

text \<open>The getter cases bring the pipeline up with recorded, not fatal, assertions; \<open>fresh\<close> is the
  getter that must fail before the backend is realized.\<close>

definition getter_case ::
  "rialto \<Rightarrow> verdict \<Rightarrow> api_call \<Rightarrow> (int \<Rightarrow> (session, unit) state) \<Rightarrow> (session, unit) state" where
  "getter_case env v fresh_getter body = gated v
     (let s = generateAacAdtsStream (encoder env) kAacFrames
      in fatal (frames s \<noteq> []) (do {
           factory \<leftarrow> call env CreateFactory;
           fatal (ok factory) (do {
             pipeline \<leftarrow> call env (CreateMediaPipeline kMaxWidth kMaxHeight);
             fatal (ok pipeline) (do {
               on_client env (SetPipeline True);
               before \<leftarrow> call env fresh_getter;
               check (\<not> ok before);
               loaded \<leftarrow> call env (Load ''mse://1'' False);
               check (ok loaded);
               attached \<leftarrow> call env (AttachSource ''audio/mp4'' False (channels s) (sampleRate s));
               check (ok attached);
               on_client env (AddAudioSource (source_id env) s);
               all_attached \<leftarrow> call env AllSourcesAttached;
               check (ok all_attached);
               played \<leftarrow> call env Play;
               check (ok played);
               playing \<leftarrow> wait_client env (waitForPlaybackState PLAYING);
               fatal_live env playing (do {
                 failed \<leftarrow> observe env (\<lambda>c. sawPlaybackState c FAILURE);
                 check (\<not> failed);
                 body (source_id env);
                 stop_and_reset env }) }) }) }))"

definition GetPositionSucceedsOncePlaying :: "rialto \<Rightarrow> verdict \<Rightarrow> (session, unit) state" where
  "GetPositionSucceedsOncePlaying env v = getter_case env v GetPosition (\<lambda>sourceId. do {
     position \<leftarrow> call env GetPosition;
     check (ok position);
     check (written out1 (- 1) [position] \<ge> 0) })"

definition GetDurationNotDeterminableForStreamSource :: "rialto \<Rightarrow> verdict \<Rightarrow> (session, unit) state" where
  "GetDurationNotDeterminableForStreamSource env v = getter_case env v GetDuration (\<lambda>sourceId. do {
     position \<leftarrow> call env GetPosition;
     check (ok position);
     duration \<leftarrow> call env GetDuration;
     check (\<not> ok duration) })"

definition GetStatsSucceedsOncePlaying :: "rialto \<Rightarrow> verdict \<Rightarrow> (session, unit) state" where
  "GetStatsSucceedsOncePlaying env v = getter_case env v (GetStats 0) (\<lambda>sourceId. do {
     stats \<leftarrow> call env (GetStats sourceId);
     check (ok stats);
     check (written out2 0 [stats] \<le> written out1 0 [stats]) })"

section \<open>What the transport cases decide\<close>

lemma attached_session_fields [simp]:
  "tick (attached_session env st s) = tick s + 6" "checks (attached_session env st s) = checks s"
  "ignored (attached_session env st s) = ignored s"
  "client (attached_session env st s) = run_events (segment_status env) (client s) (attach_events env (tick s) st)"
  by (simp_all add: attached_session_def)

text \<open>The state-machine case passes exactly when the bring-up is granted, failure is not notified
  before the case looks, pause and stop are accepted within the bound, and \<open>PAUSED\<close> is notified
  at any time before the wait for it is over.  The wait is on a latch, so a \<open>PAUSED\<close> notified
  while the pipeline prerolled, before \<open>pause()\<close> was called, satisfies it.\<close>

lemma play_pause_stop_verdict:
  "passed (run_case (PlayPauseStopStateMachine env v) fresh_session) \<longleftrightarrow>
     brought_up env v 200 \<and> \<not> notified FAILURE (between env 0 10) \<and> notified PAUSED (between env 0 12)
     \<and> granted env 10 Pause \<and> elapsed (answer env 10 Pause) < 5000
     \<and> granted env 12 Stop \<and> elapsed (answer env 12 Stop) < 5000"
  unfolding PlayPauseStopStateMachine_def kLifecycleFrames_def attached_case_passed brought_up_def
  by (auto simp: case_simps passed_def kNonBlockBound_def sawPlaybackState_def states_seen_run notified_attach
      between_step eval_nat_numeral)

text \<open>The seek case passes exactly when both \<open>setPosition\<close> calls are accepted, the second within
  the bound, \<open>SEEKING\<close> and \<open>SEEK_DONE\<close> have both been notified by the end of their waits, and
  failure has not.  Nothing in it depends on the order of the two notifications, nor on their
  coming after the seek.\<close>

lemma seek_verdict:
  "passed (run_case (SetPositionSetsStartThenSeeksWhilePlaying env v) fresh_session) \<longleftrightarrow>
     (let st = generateAacAdtsStream (encoder env) 200
      in v = Proceed \<and> frames st \<noteq> [] \<and> attached env 0 st \<and> granted env 6 (SetPosition 0)
         \<and> granted env 7 AllSourcesAttached \<and> granted env 8 Play \<and> notified PLAYING (between env 0 10)
         \<and> granted env 11 (SetPosition 0) \<and> elapsed (answer env 11 (SetPosition 0)) < 5000
         \<and> notified SEEKING (between env 0 13) \<and> notified SEEK_DONE (between env 0 14)
         \<and> \<not> notified FAILURE (between env 0 15))"
  unfolding SetPositionSetsStartThenSeeksWhilePlaying_def kLifecycleFrames_def attached_case_passed Let_def
  by (auto simp: case_simps passed_def kNonBlockBound_def sawPlaybackState_def states_seen_run seen_event notified_attach
      between_step eval_nat_numeral)

end
