(* ===== verification/Aux_Cases.thy ===== *)
theory Aux_Cases
  imports Playback_Session
begin

text \<open>
  The auxiliary pipeline operations on a playing pipeline
  (\<open>src/L4_e2e/playback/PipelineAuxDataPathTests.cpp\<close>).  Levels and rates are rationals; a getter
  that answers true has written its out parameter, a flag is 0 or 1.
\<close>

section \<open>The cases\<close>

definition kAuxFrames :: int where "kAuxFrames = 200"

text \<open>The bring-up of this file, written out in one piece; it is the shared one.\<close>

definition driveToPlaying_aux :: "rialto \<Rightarrow> AacElementaryStream \<Rightarrow> (session, int option) state" where
  "driveToPlaying_aux env s = do {
     factory \<leftarrow> call env CreateFactory;
     if \<not> ok factory then State_Monad.return None else do {
     pipeline \<leftarrow> call env (CreateMediaPipeline kMaxWidth kMaxHeight);
     if \<not> ok pipeline then State_Monad.return None else do {
     on_client env (SetPipeline True);
     loaded \<leftarrow> call env (Load ''mse://1'' False);
     if \<not> ok loaded then give_up env else do {
     attached \<leftarrow> call env (AttachSource ''audio/mp4'' False (channels s) (sampleRate s));
     if \<not> ok attached then give_up env else do {
     on_client env (AddAudioSource (source_id env) s);
     allAttached \<leftarrow> call env AllSourcesAttached;
     if \<not> ok allAttached then give_up env else do {
     played \<leftarrow> call env Play;
     if \<not> ok played then give_up env else do {
     playing \<leftarrow> wait_client env (waitForPlaybackState PLAYING);
     if \<not> playing then give_up env else State_Monad.return (Some (source_id env)) }}}}}}}"

lemma driveToPlaying_aux_eq: "driveToPlaying_aux = driveToPlaying"
proof (intro ext state.expand)
  fix env s t
  show "run_state (driveToPlaying_aux env s) t = run_state (driveToPlaying env s) t"
    by (simp add: driveToPlaying_aux_def driveToPlaying_def loadAndAttachAudio_def give_up_def wait_client_def)
qed

text \<open>A case that makes one call and asserts that it is accepted.\<close>

definition accepted_case :: "rialto \<Rightarrow> verdict \<Rightarrow> (AacElementaryStream \<Rightarrow> int \<Rightarrow> api_call) \<Rightarrow> (session, unit) state" where
  "accepted_case env v c = playing_case env v kAuxFrames (\<lambda>s sourceId. do {
     r \<leftarrow> call env (c s sourceId);
     check (ok r);
     stop_and_reset env })"

definition VolumeRoundTripsOnRealizedPipeline :: "rialto \<Rightarrow> verdict \<Rightarrow> (session, unit) state" where
  "VolumeRoundTripsOnRealizedPipeline env v = playing_case env v kAuxFrames (\<lambda>s sourceId. do {
     r \<leftarrow> call env (SetVolume (1 / 2));
     check (ok r);
     (applied, reads) \<leftarrow> poll env GetVolume
       (\<lambda>g. ok g \<and> (case out_level g of None \<Rightarrow> False | Some x \<Rightarrow> \<bar>x - 1 / 2\<bar> < 1 / 100));
     check (written out_level (- 1) reads \<ge> 0 \<and> written out_level (- 1) reads \<le> 1);
     check applied;
     stop_and_reset env })"

definition MuteRoundTripsPerSource :: "rialto \<Rightarrow> verdict \<Rightarrow> (session, unit) state" where
  "MuteRoundTripsPerSource env v = playing_case env v kAuxFrames (\<lambda>s sourceId. do {
     r \<leftarrow> call env (SetMute sourceId True);
     check (ok r);
     (muted, reads) \<leftarrow> poll env (GetMute sourceId) (\<lambda>g. ok g \<and> out1 g = Some 1);
     check muted;
     r2 \<leftarrow> call env (SetMute sourceId False);
     check (ok r2);
     (unmuted, reads2) \<leftarrow> poll env (GetMute sourceId) (\<lambda>g. ok g \<and> out1 g = Some 0);
     check unmuted;
     stop_and_reset env })"

definition SetVideoWindowAcceptsGeometry :: "rialto \<Rightarrow> verdict \<Rightarrow> (session, unit) state" where
  "SetVideoWindowAcceptsGeometry env v = accepted_case env v (\<lambda>_ _. SetVideoWindow 0 0 1280 720)"

definition FlushEmitsSourceFlushed :: "rialto \<Rightarrow> verdict \<Rightarrow> (session, unit) state" where
  "FlushEmitsSourceFlushed env v = playing_case env v kAuxFrames (\<lambda>s sourceId. do {
     r \<leftarrow> call env (Flush sourceId True);
     check (ok r);
     flushed \<leftarrow> wait_client env (waitForSourceFlushed sourceId);
     check flushed;
     stop_and_reset env })"

definition SetSourcePositionSucceeds :: "rialto \<Rightarrow> verdict \<Rightarrow> (session, unit) state" where
  "SetSourcePositionSucceeds env v = accepted_case env v (\<lambda>_ sourceId. SetSourcePosition sourceId 0 False 1)"

definition ProcessAudioGapSucceeds :: "rialto \<Rightarrow> verdict \<Rightarrow> (session, unit) state" where
  "ProcessAudioGapSucceeds env v = accepted_case env v (\<lambda>_ _. ProcessAudioGap 0 21333 0 True)"

text \<open>Setters whose getter the platform may not support: a getter that never reads the value back
  must consistently answer false.\<close>

definition conforms_when_supported :: "rialto \<Rightarrow> verdict \<Rightarrow> (int \<Rightarrow> api_call) \<Rightarrow> api_call \<Rightarrow> int \<Rightarrow> int \<Rightarrow> (session, unit) state" where
  "conforms_when_supported env v setter getter value init = playing_case env v kAuxFrames (\<lambda>s sourceId. do {
     r \<leftarrow> call env (setter sourceId);
     check (ok r);
     (supported, reads) \<leftarrow> poll env getter (\<lambda>g. ok g \<and> out1 g = Some value);
     if supported then do {
       check (written out1 init reads = value);
       stop_and_reset env }
     else do {
       unsupported \<leftarrow> call env getter;
       check (\<not> ok unsupported);
       stop_and_reset env } })"

definition BufferingLimitConformsWhenSupported :: "rialto \<Rightarrow> verdict \<Rightarrow> (session, unit) state" where
  "BufferingLimitConformsWhenSupported env v =
     conforms_when_supported env v (\<lambda>_. SetBufferingLimit 5000) GetBufferingLimit 5000 0"

definition UseBufferingRoundTrips :: "rialto \<Rightarrow> verdict \<Rightarrow> (session, unit) state" where
  "UseBufferingRoundTrips env v = playing_case env v kAuxFrames (\<lambda>s sourceId. do {
     r \<leftarrow> call env (SetUseBuffering True);
     check (ok r);
     (applied, reads) \<leftarrow> poll env GetUseBuffering (\<lambda>g. ok g \<and> out1 g = Some 1);
     check applied;
     stop_and_reset env })"

definition RenderFrameSucceedsOnceLoaded :: "rialto \<Rightarrow> verdict \<Rightarrow> (session, unit) state" where
  "RenderFrameSucceedsOnceLoaded env v = playing_case env v kAuxFrames (\<lambda>s sourceId. do {
     paused \<leftarrow> call env Pause;
     check (ok paused);
     sawPaused \<leftarrow> wait_client env (waitForPlaybackState PAUSED);
     check sawPaused;
     rendered \<leftarrow> call env RenderFrame;
     check (ok rendered);
     stop_and_reset env })"

definition SetLowLatencyIsAccepted :: "rialto \<Rightarrow> verdict \<Rightarrow> (session, unit) state" where
  "SetLowLatencyIsAccepted env v = accepted_case env v (\<lambda>_ _. SetLowLatency True)"

definition SyncRoundTrips :: "rialto \<Rightarrow> verdict \<Rightarrow> (session, unit) state" where
  "SyncRoundTrips env v = playing_case env v kAuxFrames (\<lambda>s sourceId. do {
     r \<leftarrow> call env (SetSync True);
     check (ok r);
     (applied, reads) \<leftarrow> poll env GetSync (\<lambda>g. ok g \<and> out1 g = Some 1);
     check applied;
     stop_and_reset env })"

definition SetSyncOffAcceptedBeforePlaying :: "rialto \<Rightarrow> verdict \<Rightarrow> (session, unit) state" where
  "SetSyncOffAcceptedBeforePlaying env v = gated v
     (let s = generateAacAdtsStream (encoder env) kAuxFrames
      in fatal (frames s \<noteq> []) (do {
           factory \<leftarrow> call env CreateFactory;
           fatal (ok factory) (do {
             pipeline \<leftarrow> call env (CreateMediaPipeline kMaxWidth kMaxHeight);
             fatal (ok pipeline) (do {
               on_client env (SetPipeline True);
               loaded \<leftarrow> call env (Load ''mse://1'' False);
               check (ok loaded);
               attached \<leftarrow> call env (AttachSource ''audio/mp4'' False (channels s) (sampleRate s));
               check (ok attached);
               on_client env (AddAudioSource (source_id env) s);
               r \<leftarrow> call env (SetSyncOff True);
               check (ok r);
               _ \<leftarrow> call env DestroyPipeline;
               State_Monad.return () }) }) }))"

definition StreamSyncModeConformsWhenSupported :: "rialto \<Rightarrow> verdict \<Rightarrow> (session, unit) state" where
  "StreamSyncModeConformsWhenSupported env v =
     conforms_when_supported env v (\<lambda>sourceId. SetStreamSyncMode sourceId 1) GetStreamSyncMode 1 (- 1)"

definition SwitchSourceAcceptsNewAudioSource :: "rialto \<Rightarrow> verdict \<Rightarrow> (session, unit) state" where
  "SwitchSourceAcceptsNewAudioSource env v =
     accepted_case env v (\<lambda>s _. SwitchSource ''audio/mp4'' False (channels s) (sampleRate s))"

section \<open>What the polled cases decide\<close>

text \<open>Whether the getter shows the value at some read within the deadline, and how many reads are made.\<close>

definition read_back :: "rialto \<Rightarrow> nat \<Rightarrow> api_call \<Rightarrow> int \<Rightarrow> (bool \<times> nat) option" where
  "read_back env t getter x =
     pollUntilApplied (clock env t) (\<lambda>i. ok (answer env (t + i) getter) \<and> out1 (answer env (t + i) getter) = Some x)"

lemma conforms_verdict:
  assumes "sleeping_clock (clock env 10)"
  shows "passed (run_case (conforms_when_supported env v setter getter x init) fresh_session) \<longleftrightarrow>
     brought_up env v 200 \<and> granted env 9 (setter (source_id env))
     \<and> (\<exists>applied n. read_back env 10 getter x = Some (applied, n) \<and> (applied \<or> \<not> granted env (10 + n) getter))"
proof -
  let ?cond = "\<lambda>g. ok g \<and> out1 g = Some x" and ?st = "generateAacAdtsStream (encoder env) 200"
  let ?s = "called env (setter (source_id env)) (body_session env ?st)
              \<lparr>checks := [True, True, granted env 9 (setter (source_id env))]\<rparr>"
  have t: "tick ?s = 10" by simp
  obtain n where n: "0 < n" "read_back env 10 getter x = Some (?cond (answer env (10 + (n - 1)) getter), n)"
    and run: "run_state (poll env getter ?cond) ?s =
      ((?cond (answer env (10 + (n - 1)) getter), map (\<lambda>i. answer env (10 + i) getter) [0..<n]),
       ((deliver env ^^ n) ?s)\<lparr>calls := calls ?s @ replicate n getter\<rparr>)"
    using run_poll [of env ?s ?cond getter] assms unfolding t read_back_def by blast
  have w: "written out1 init (map (\<lambda>i. answer env (10 + i) getter) [0..<n]) = x"
    if "?cond (answer env (10 + (n - 1)) getter)"
    using that n(1) by (intro written_last) (simp_all add: last_map)
  show ?thesis
    unfolding conforms_when_supported_def playing_case_verdict kAuxFrames_def
    using n run w by (auto simp: case_simps passed_def deliver_times)
qed

text \<open>A setter whose getter a platform may lack: the case passes exactly when the bring-up and the
  setter are granted and either the value is read back within the deadline or, after the
  deadline, the getter answers false.  A getter that answers true with another value fails the
  case.  The buffering limit and the stream-sync mode are such settings.\<close>

lemma conforms_when_supported_verdict:
  assumes "sleeping_clock (clock env 10)"
  shows "(passed (run_case (BufferingLimitConformsWhenSupported env v) fresh_session) \<longleftrightarrow>
      brought_up env v 200 \<and> granted env 9 (SetBufferingLimit 5000)
      \<and> (\<exists>applied n. read_back env 10 GetBufferingLimit 5000 = Some (applied, n)
           \<and> (applied \<or> \<not> granted env (10 + n) GetBufferingLimit)))
   \<and> (passed (run_case (StreamSyncModeConformsWhenSupported env v) fresh_session) \<longleftrightarrow>
      brought_up env v 200 \<and> granted env 9 (SetStreamSyncMode (source_id env) 1)
      \<and> (\<exists>applied n. read_back env 10 GetStreamSyncMode 1 = Some (applied, n)
           \<and> (applied \<or> \<not> granted env (10 + n) GetStreamSyncMode)))"
  unfolding BufferingLimitConformsWhenSupported_def StreamSyncModeConformsWhenSupported_def
  by (simp only: conforms_verdict [OF assms])

lemma granting_read_back: "read_back (granting x ns) t getter x = Some (True, 1)"
  by (simp add: read_back_def pollUntilApplied_def poll_loop.simps kApplyDeadline_def)

lemma conforms_when_supported_verdict_witness:
  "passed (run_case (BufferingLimitConformsWhenSupported (granting 5000 (playing_at 8)) Proceed) fresh_session)"
proof -
  have "sleeping_clock (clock (granting 5000 (playing_at 8)) 10)"
    by (simp add: sleeping_clock_def kApplyPoll_def)
  from conforms_when_supported_verdict [OF this, of Proceed] show ?thesis
    by (auto simp: granting_brought_up playing_between granting_read_back)
qed

end
