(* ===== verification/Playback_Reference.thy ===== *)
theory Playback_Reference
  imports Data_Protocol_Cases Data_Fault_Cases Transport_Cases Aux_Cases
begin

text \<open>
  One server for all the end-to-end playback cases of \<open>src/L4_e2e/playback\<close>.  It grants every call
  at once, answers the getters by their name and the time alone, refuses only a segment for
  the request that was never issued, and delivers everything a case may wait for in one burst
  at a fixed time, with a single request for data later on.
\<close>

section \<open>The server\<close>

definition burst :: "event list" where
  "burst = [Op (NotifyNetworkState BUFFERING), Op (NotifyPlaybackState PAUSED), NeedData 7 1 1 True,
     Op (NotifyPlaybackState SEEK_DONE), Op (NotifyPlaybackState SEEKING), Op (NotifyPlaybackState END_OF_STREAM),
     Op (NotifySourceFlushed 7), Op (NotifyPlaybackState PLAYING)]"

definition burst_at :: "nat \<Rightarrow> event list" where
  "burst_at t = (if t = 8 then burst else if t = 16 then [NeedData 7 1 2 True] else [])"

definition getter_value :: "nat \<Rightarrow> api_call \<Rightarrow> int" where
  "getter_value t c = (case c of
     GetMute _ \<Rightarrow> (if t < 12 then 1 else 0) | GetBufferingLimit \<Rightarrow> 5000 | GetUseBuffering \<Rightarrow> 1
   | GetSync \<Rightarrow> 1 | GetStreamSyncMode \<Rightarrow> 1 | GetStats _ \<Rightarrow> 10 | _ \<Rightarrow> 0)"

definition burst_answer :: "nat \<Rightarrow> api_call \<Rightarrow> reply" where
  "burst_answer t c = \<lparr>ok = (case c of GetDuration \<Rightarrow> False | GetPosition \<Rightarrow> t \<noteq> 3 | GetStats _ \<Rightarrow> t \<noteq> 3 | _ \<Rightarrow> True),
     out1 = Some (getter_value t c), out2 = Some 0, out_level = Some (1 / 2), elapsed = 1\<rparr>"

definition burst_server :: rialto where
  "burst_server = \<lparr>encoder = (\<lambda>_. Some sample_run),
     segment_status = (\<lambda>_ r _. if r = kUnissuedRequestId then ADD_ERROR else ADD_OK),
     notifications = burst_at, answer = burst_answer, source_id = 7, clock = (\<lambda>_ k. 60 * int k)\<rparr>"

definition protocol_cases :: "rialto \<Rightarrow> verdict \<Rightarrow> (session, unit) state list" where
  "protocol_cases env v = [NeedDataProtocolIsWellFormed env v, HaveDataEosDrivesEndOfStream env v,
     CleanRunNetworkStateVocabulary env v, StarvationIsToleratedAndEventsObserved env v]"

definition fault_cases :: "rialto \<Rightarrow> verdict \<Rightarrow> (session, unit) state list" where
  "fault_cases env v = [NoSpaceIsNotAnErrorAndTheSegmentIsResent env v, AddSegmentWithAnUnissuedRequestIdIsAnError env v,
     CancelledNeedDataIsNotAnError env v, NonFatalPlaybackErrorLeavesStateUnchanged env v]"

definition transport_cases :: "rialto \<Rightarrow> verdict \<Rightarrow> (session, unit) state list" where
  "transport_cases env v = [PlayPauseStopStateMachine env v, SetPlaybackRateSucceedsWhilePlaying env v,
     SetPositionSetsStartThenSeeksWhilePlaying env v]"

definition getter_cases :: "rialto \<Rightarrow> verdict \<Rightarrow> (session, unit) state list" where
  "getter_cases env v = [GetPositionSucceedsOncePlaying env v, GetDurationNotDeterminableForStreamSource env v,
     GetStatsSucceedsOncePlaying env v]"

definition aux_cases :: "rialto \<Rightarrow> verdict \<Rightarrow> (session, unit) state list" where
  "aux_cases env v = [VolumeRoundTripsOnRealizedPipeline env v, MuteRoundTripsPerSource env v,
     SetVideoWindowAcceptsGeometry env v, FlushEmitsSourceFlushed env v, SetSourcePositionSucceeds env v,
     ProcessAudioGapSucceeds env v, BufferingLimitConformsWhenSupported env v, UseBufferingRoundTrips env v,
     RenderFrameSucceedsOnceLoaded env v, SetLowLatencyIsAccepted env v, SyncRoundTrips env v,
     SetSyncOffAcceptedBeforePlaying env v, StreamSyncModeConformsWhenSupported env v, SwitchSourceAcceptsNewAudioSource env v]"

abbreviation passes :: "(session, unit) state list \<Rightarrow> bool" where
  "passes ms \<equiv> list_all (\<lambda>m. passed (run_case m fresh_session)) ms"

section \<open>It passes\<close>

lemma burst_fields [simp]:
  "notifications burst_server = burst_at" "source_id burst_server = 7" "answer burst_server = burst_answer"
  "clock burst_server = (\<lambda>_ k. 60 * int k)"
  "segment_status burst_server = (\<lambda>_ r _. if r = kUnissuedRequestId then ADD_ERROR else ADD_OK)"
  by (simp_all add: burst_server_def)

lemma burst_answer_fields [simp]:
  "ok (burst_answer t c) = (case c of GetDuration \<Rightarrow> False | GetPosition \<Rightarrow> t \<noteq> 3 | GetStats _ \<Rightarrow> t \<noteq> 3 | _ \<Rightarrow> True)"
  "out1 (burst_answer t c) = Some (getter_value t c)" "out2 (burst_answer t c) = Some 0"
  "out_level (burst_answer t c) = Some (1 / 2)" "elapsed (burst_answer t c) = 1"
  by (simp_all add: burst_answer_def)

lemma burst_at_8 [simp]: "burst_at 8 = burst"
  by (simp add: burst_at_def)

lemma burst_stream: "frames (generateAacAdtsStream (encoder burst_server) n) \<noteq> []"
  by (simp add: burst_server_def generateAacAdtsStream_def sample_run_def)

lemma burst_between: "8 < k \<Longrightarrow> notified st (between burst_server 0 k) \<longleftrightarrow> notified st burst"
  by (auto simp: notified_def between_def burst_at_def split: if_splits)

lemma burst_between_before: "k \<le> 8 \<Longrightarrow> \<not> notified st (between burst_server 0 k)"
  by (auto simp: notified_def between_def burst_at_def split: if_splits)

lemma notified_burst [simp]:
  "notified PLAYING burst" "notified PAUSED burst" "notified SEEKING burst" "notified SEEK_DONE burst"
  "notified END_OF_STREAM burst" "\<not> notified FAILURE burst"
  by (simp_all add: notified_def burst_def)

lemma burst_brought_up [simp]: "brought_up burst_server Proceed n"
  using burst_stream [of n] by (simp add: brought_up_def attached_def burst_between)

lemma seen_after_burst:
  "notified st es \<or> notified st burst \<Longrightarrow>
     st \<in> m_statesSeen (fst (run_events srv (run_events srv (fresh_client, []) (playing_events burst_server 0 s)) es))"
  by (auto simp: seen_in_body burst_between)

lemma burst_transport: "passes (transport_cases burst_server Proceed)"
proof -
  have "passed (run_case (SetPlaybackRateSucceedsWhilePlaying burst_server Proceed) fresh_session)"
    unfolding SetPlaybackRateSucceedsWhilePlaying_def kLifecycleFrames_def attached_case_passed
    using burst_stream [of 200]
    by (simp add: case_simps passed_def attached_def states_seen_run notified_attach burst_between)
  then show ?thesis
    using burst_stream [of 200]
    by (simp add: transport_cases_def play_pause_stop_verdict seek_verdict burst_between Let_def attached_def)
qed

lemma burst_protocol_clean:
  "passed (run_case (HaveDataEosDrivesEndOfStream burst_server Proceed) fresh_session)"
  "passed (run_case (CleanRunNetworkStateVocabulary burst_server Proceed) fresh_session)"
  by (auto simp: clean_run_verdicts burst_between, auto simp: between_def burst_at_def burst_def)

lemma burst_aux_accepted:
  "passed (run_case (accepted_case burst_server Proceed c) fresh_session)"
  if "\<And>t s i. ok (burst_answer t (c s i))"
  unfolding accepted_case_def playing_case_verdict using that by (simp add: case_simps passed_def)

lemma burst_read_back:
  assumes "getter_value t getter = x" "ok (burst_answer t getter)"
  shows "read_back burst_server t getter x = Some (True, 1)"
  unfolding read_back_def pollUntilApplied_def
  by (subst poll_loop.simps) (simp add: assms kApplyDeadline_def del: burst_answer_fields(1))

lemma burst_conforms:
  assumes "\<And>i. ok (burst_answer 9 (setter i))" "ok (burst_answer 10 getter)" "getter_value 10 getter = x"
  shows "passed (run_case (conforms_when_supported burst_server Proceed setter getter x init) fresh_session)"
proof -
  have "sleeping_clock (clock burst_server 10)" by (simp add: sleeping_clock_def kApplyPoll_def)
  then show ?thesis using assms by (auto simp: conforms_verdict burst_read_back)
qed

lemma run_burst_poll:
  assumes "cond (burst_answer (tick s) c)"
  shows "run_state (poll burst_server c cond) s =
     ((True, [burst_answer (tick s) c]), (deliver burst_server s)\<lparr>calls := calls s @ [c]\<rparr>)"
  using assms by (simp add: poll_def pollUntilApplied_def poll_loop.simps kApplyDeadline_def)

lemma run_written [simp]: "written out init [r] = (case out r of None \<Rightarrow> init | Some y \<Rightarrow> y)"
  by (simp add: written_def)

lemma burst_volume: "passed (run_case (VolumeRoundTripsOnRealizedPipeline burst_server Proceed) fresh_session)"
  unfolding VolumeRoundTripsOnRealizedPipeline_def playing_case_verdict
  by (simp add: case_simps passed_def run_burst_poll del: deliver_fields(5))

lemma burst_mute: "passed (run_case (MuteRoundTripsPerSource burst_server Proceed) fresh_session)"
  unfolding MuteRoundTripsPerSource_def playing_case_verdict
  by (simp add: case_simps passed_def run_burst_poll getter_value_def del: deliver_fields(5))

lemma burst_buffering: "passed (run_case (UseBufferingRoundTrips burst_server Proceed) fresh_session)"
  unfolding UseBufferingRoundTrips_def playing_case_verdict
  by (simp add: case_simps passed_def run_burst_poll getter_value_def del: deliver_fields(5))

lemma burst_sync: "passed (run_case (SyncRoundTrips burst_server Proceed) fresh_session)"
  unfolding SyncRoundTrips_def playing_case_verdict
  by (simp add: case_simps passed_def run_burst_poll getter_value_def del: deliver_fields(5))

lemma burst_flush: "passed (run_case (FlushEmitsSourceFlushed burst_server Proceed) fresh_session)"
proof -
  have "Op (NotifySourceFlushed 7) \<in> set (playing_events burst_server 0 s)" for s
    by (simp add: playing_events_def burst_def)
  then show ?thesis
    unfolding FlushEmitsSourceFlushed_def playing_case_verdict by (simp add: case_simps passed_def flushed_run)
qed

lemma burst_render: "passed (run_case (RenderFrameSucceedsOnceLoaded burst_server Proceed) fresh_session)"
  unfolding RenderFrameSucceedsOnceLoaded_def playing_case_verdict
  by (simp add: case_simps passed_def states_seen_run notified_playing burst_between)

lemma burst_sync_off: "passed (run_case (SetSyncOffAcceptedBeforePlaying burst_server Proceed) fresh_session)"
  using burst_stream [of 200]
  unfolding SetSyncOffAcceptedBeforePlaying_def kAuxFrames_def Let_def by (simp add: case_simps passed_def)

lemma burst_getters: "passes (getter_cases burst_server Proceed)"
  using burst_stream [of 50]
  unfolding getter_cases_def GetPositionSucceedsOncePlaying_def GetDurationNotDeterminableForStreamSource_def
      GetStatsSucceedsOncePlaying_def getter_case_def kAacFrames_def Let_def
  by (simp add: case_simps passed_def getter_value_def written_def states_seen_run seen_event burst_at_def sawPlaybackState_def op_defs)

lemma burst_fault_simple:
  "passed (run_case (CancelledNeedDataIsNotAnError burst_server Proceed) fresh_session)"
  by (simp add: cancelled_case_verdict burst_between) (simp add: between_def burst_at_def)

section \<open>What its notifications leave alone\<close>

text \<open>Requests with a frame budget for the attached source, and notifications of neither a position
  nor an error: nothing that a run over them logs, counts or latches upsets a case.\<close>

fun unremarkable :: "event \<Rightarrow> bool" where
  "unremarkable (Op (NotifyPosition p)) = False"
| "unremarkable (Op (NotifyPlaybackError e)) = False"
| "unremarkable (Op op) = True"
| "unremarkable (NeedData i n r shm) = (i = 7 \<and> 0 < n \<and> r \<noteq> kUnissuedRequestId)"

definition untroubled :: "FeedClient \<times> pipeline_call list \<Rightarrow> bool" where
  "untroubled cl \<longleftrightarrow> add_count NO_SPACE (snd cl) = 0 \<and> add_count ADD_ERROR (snd cl) = 0
     \<and> m_positionUpdates (fst cl) = 0 \<and> m_playbackErrorCount (fst cl) = 0
     \<and> list_all (\<lambda>r. 0 < nd_frameCount r \<and> nd_source r = 7) (m_needDataLog (fst cl))"

lemma untroubled_event:
  assumes "untroubled cl" "unremarkable e"
  shows "untroubled (run_event (segment_status burst_server) cl e)"
proof -
  obtain c lg where cl: "cl = (c, lg)" by (rule prod.exhaust)
  show ?thesis
  proof (cases e)
    case (Op op)
    then show ?thesis using assms unfolding cl
      by (cases op) (auto simp: untroubled_def op_defs split: option.splits)
  next
    case (NeedData i n r shm)
    obtain c1 lg1 where r: "notifyNeedMediaData (segment_status burst_server) (c, lg) i n r shm = (c1, lg1)"
      by (rule prod.exhaust)
    from r have "untroubled (c1, lg1)"
    proof (cases rule: round_cases)
      case (offered feed segs k st)
      then have "\<not> k < length segs" using assms(2) NeedData by auto
      with offered show ?thesis using assms NeedData unfolding cl
        by (simp add: untroubled_def offered_client_def offer_log_def add_count_accepted
            offering_client_def record_request_def advance_def)
    qed (use assms NeedData in \<open>simp_all add: cl untroubled_def offering_client_def record_request_def\<close>)
    with r NeedData show ?thesis by (simp add: cl)
  qed
qed

lemma untroubled_run:
  "list_all unremarkable es \<Longrightarrow> untroubled (run_events (segment_status burst_server) (fresh_client, []) es)"
proof -
  assume "list_all unremarkable es"
  moreover have "untroubled (fresh_client, [])" by (simp add: untroubled_def fresh_client_def)
  ultimately show ?thesis using untroubled_event
    by (intro run_events_induct [where P = untroubled and Q = unremarkable]) (simp_all add: list_all_iff)
qed

lemma unremarkable_between: "list_all unremarkable (between burst_server a b)"
  by (auto simp: list_all_iff between_def burst_at_def burst_def kUnissuedRequestId_def split: if_splits)

lemma unremarkable_notifications: "list_all unremarkable (burst_at t)"
  by (simp add: burst_at_def burst_def kUnissuedRequestId_def)

lemma unremarkable_playing: "list_all unremarkable (playing_events burst_server t st)"
  by (simp add: playing_events_def attach_events_def unremarkable_notifications)

lemma untroubled_at: "untroubled (client_at burst_server st k)"
  unfolding client_at_def by (intro untroubled_run) (simp add: unremarkable_playing unremarkable_between)

lemma notified_Cons: "\<not> notified st []" "notified st (e # es) \<longleftrightarrow> e = Op (NotifyPlaybackState st) \<or> notified st es"
  by (auto simp: notified_def)

lemma burst_playing_events:
  "playing_events burst_server 0 st = [Op (SetPipeline True), Op (AddAudioSource 7 st)] @ burst"
  by (simp add: playing_events_def attach_events_def burst_at_def)

lemma serving_at: "serving {7} (fst (client_at burst_server st k))"
proof -
  let ?srv = "segment_status burst_server" and ?P = "\<lambda>cl. serving {7} (fst cl)"
  define start where "start = run_events ?srv (fresh_client, []) [Op (SetPipeline True), Op (AddAudioSource 7 st)]"
  have step: "?P (run_event ?srv cl e)" if "?P cl" "answered_event {7} e" for cl e
    using serving_event [of "{7}" "fst cl" e ?srv "snd cl" "fst (run_event ?srv cl e)" "snd (run_event ?srv cl e)"] that by simp
  have "?P start" by (simp add: start_def serving_def op_defs fresh_client_def)
  moreover have "\<forall>e\<in>set (burst @ between burst_server 9 (10 + k)). answered_event {7} e"
    by (auto simp: between_def burst_at_def burst_def split: if_splits)
  ultimately have "?P (run_events ?srv start (burst @ between burst_server 9 (10 + k)))"
    using step by (intro run_events_induct [where P = ?P and Q = "answered_event {7}"]) simp_all
  then show ?thesis unfolding start_def by (simp only: client_at_def burst_playing_events append_assoc run_events_append)
qed

section \<open>The remaining cases\<close>

lemma burst_need_data: "passed (run_case (NeedDataProtocolIsWellFormed burst_server Proceed) fresh_session)"
proof -
  have "m_needDataLog (fst (client_at burst_server st 0)) \<noteq> []" for st
  proof -
    have "0 < length (m_needDataLog (fst (client_at burst_server st 0)))"
      unfolding client_at_def requests_logged burst_playing_events burst_def by simp
    then show ?thesis by simp
  qed
  then show ?thesis
    using untroubled_at serving_at by (simp add: need_data_case_verdict untroubled_def serving_def Let_def)
qed

lemma burst_starved: "passed (run_case (StarvationIsToleratedAndEventsObserved burst_server Proceed) fresh_session)"
proof -
  have u: "untroubled (run_events (segment_status burst_server) (fresh_client, [])
      (playing_events burst_server 0 st @ burst_at 9 @ [Op (SetStarve True)] @ burst_at 10 @ burst_at 11 @ burst_at 12 @ burst_at 13))" for st
    by (intro untroubled_run) (simp add: unremarkable_playing unremarkable_notifications)
  have "\<not> notified FAILURE (playing_events burst_server 0 st @ burst_at 9 @ [Op (SetStarve True)] @ burst_at 10 @ burst_at 11)" for st
    by (simp add: notified_playing burst_between notified_Cons burst_at_def)
  then have "FAILURE \<notin> m_statesSeen (fst (run_events (segment_status burst_server) (fresh_client, [])
      (playing_events burst_server 0 st @ burst_at 9 @ [Op (SetStarve True)] @ burst_at 10 @ burst_at 11)))" for st
    by (simp add: states_seen_run del: run_events_simps append.simps)
  with u show ?thesis
    unfolding StarvationIsToleratedAndEventsObserved_def playing_case_verdict
    by (simp add: case_simps passed_def observer_defs run_events_append untroubled_def)
qed

lemma burst_unissued: "passed (run_case (AddSegmentWithAnUnissuedRequestIdIsAnError burst_server Proceed) fresh_session)"
  unfolding AddSegmentWithAnUnissuedRequestIdIsAnError_def playing_case_verdict
  by (simp add: case_simps passed_def observer_defs states_seen_run notified_playing burst_between burst_at_def notified_Cons)

lemma burst_corrupt: "passed (run_case (NonFatalPlaybackErrorLeavesStateUnchanged burst_server Proceed) fresh_session)"
proof -
  have u: "untroubled (run_events (segment_status burst_server) (fresh_client, [])
      (playing_events burst_server 0 st @ burst_at 9 @ [Op (SetCorruptEvery 4)] @ burst_at 10 @ burst_at 11))" for st
    by (intro untroubled_run) (simp add: unremarkable_playing unremarkable_notifications)
  have "\<not> notified FAILURE (playing_events burst_server 0 st @ burst_at 9 @ [Op (SetCorruptEvery 4)] @ burst_at 10 @ burst_at 11 @ burst_at 12)" for st
    by (simp add: notified_playing burst_between notified_Cons burst_at_def)
  then have "FAILURE \<notin> m_statesSeen (fst (run_events (segment_status burst_server) (fresh_client, [])
      (playing_events burst_server 0 st @ burst_at 9 @ [Op (SetCorruptEvery 4)] @ burst_at 10 @ burst_at 11 @ burst_at 12)))" for st
    by (simp add: states_seen_run del: run_events_simps append.simps)
  with u show ?thesis
    unfolding NonFatalPlaybackErrorLeavesStateUnchanged_def playing_case_verdict
    by (simp add: case_simps passed_def observer_defs run_events_append untroubled_def)
qed

lemma burst_resent: "passed (run_case (NoSpaceIsNotAnErrorAndTheSegmentIsResent burst_server Proceed) fresh_session)"
proof -
  have u: "untroubled (oversupplied_at burst_server k)" for k
    unfolding oversupplied_at_def
    by (intro untroubled_run) (simp add: unremarkable_playing unremarkable_between unremarkable_notifications)
  have t: "tallied (fst (oversupplied_at burst_server k)) (snd (oversupplied_at burst_server k))" for k
    using tallied_run [of "segment_status burst_server"] by (metis oversupplied_at_def prod.collapse)
  note run = oversupplied_Suc [of 10 burst_server] oversupplied_Suc [of 11 burst_server]
    oversupplied_Suc [of 12 burst_server] oversupplied_Suc [of 13 burst_server]
  have up: "oversupplied_up burst_server Proceed"
    using burst_stream [of 6000] by (simp add: oversupplied_up_def attached_def burst_between)
  have unseen: "FAILURE \<notin> m_statesSeen (fst (oversupplied_at burst_server 14))"
    by (simp add: oversupplied_seen burst_between)
  have none: "m_addError (fst (oversupplied_at burst_server k)) = 0 \<and> m_addNoSpace (fst (oversupplied_at burst_server k)) = 0" for k
    using u [of k] t [of k] by (simp add: untroubled_def tallied_def)
  show ?thesis
    unfolding NoSpaceIsNotAnErrorAndTheSegmentIsResent_def kFillFrames_def kFillOversupply_def oversupplied_case_passed
    using run up unseen none by (simp add: case_simps passed_def observer_defs)
qed

section \<open>All of them\<close>

lemma burst_protocol: "passes (protocol_cases burst_server Proceed)"
  using burst_need_data burst_protocol_clean burst_starved by (simp add: protocol_cases_def)

lemma burst_fault: "passes (fault_cases burst_server Proceed)"
  using burst_resent burst_unissued burst_fault_simple burst_corrupt by (simp add: fault_cases_def)

lemma burst_aux: "passes (aux_cases burst_server Proceed)"
  unfolding aux_cases_def
  using burst_volume burst_mute burst_flush burst_buffering burst_render burst_sync burst_sync_off
  by (simp add: SetVideoWindowAcceptsGeometry_def SetSourcePositionSucceeds_def ProcessAudioGapSucceeds_def
      SetLowLatencyIsAccepted_def SwitchSourceAcceptsNewAudioSource_def BufferingLimitConformsWhenSupported_def
      StreamSyncModeConformsWhenSupported_def burst_aux_accepted burst_conforms getter_value_def)


end
