(* ===== verification/Keys_Cases.thy ===== *)
theory Keys_Cases
  imports Ut_Case Polling Clearkey_Cdm
begin

text \<open>
  The key-session cases (\<open>src/L1_function/native/KeysSessionTests.cpp\<close>): the recording client and
  the eight cases.  What the Rialto library answers to a call of \<open>IMediaKeys\<close>, and which
  callbacks it delivers to the registered client, is the argument \<open>media_keys\<close>; every action of
  the test thread takes one tick, and the callbacks of a tick run before the action (during it,
  for a wait).  The last section connects the cases with the backend of \<open>Clearkey_Cdm\<close>.
\<close>

section \<open>The interface\<close>

datatype MediaKeyErrorStatus = MK_OK | BAD_SESSION_ID | FAIL | OtherStatus nat
datatype SessionKeyStatus = USABLE | OtherKeyStatus nat
datatype KeySessionType = TEMPORARY | OtherSessionType nat
datatype InitDataType = KEY_IDS | OtherInitData nat

datatype keys_call =
    CreateKeysFactory
  | CreateMediaKeys string
  | CreateKeySession KeySessionType
  | GenerateRequest int InitDataType bytes
  | UpdateSession int bytes
  | ContainsKey int bytes
  | SelectKeyId int bytes
  | CloseKeySession int
  | RemoveKeySession int
  | ReleaseKeySession int
  | GetDrmTime
  | GetCdmKeySessionId int
  | GetDrmStoreHash
  | GetKeyStoreHash
  | GetLdlSessionsLimit
  | GetLastDrmError int
  | GetMetricSystemData
  | DeleteDrmStore
  | DeleteKeyStore

text \<open>The answer to a call: the status, the boolean or non-null result, the out parameters written.\<close>

record keys_reply =
  status :: MediaKeyErrorStatus
  yes :: bool
  session_out :: "int option"
  name_out :: "string option"

datatype key_event =
    LicenseRequest int bytes string
  | LicenseRenewal int bytes
  | KeyStatusesChanged int "(bytes \<times> SessionKeyStatus) list"

text \<open>\<open>retains t\<close>: does the library itself keep the client alive at tick \<open>t\<close>.\<close>

record media_keys =
  key_answer :: "nat \<Rightarrow> keys_call \<Rightarrow> keys_reply"
  key_events :: "nat \<Rightarrow> key_event list"
  retains :: "nat \<Rightarrow> bool"

section \<open>The recording client\<close>

record RecordingMediaKeysClient =
  m_licenseRequestReceived :: bool
  m_keyStatusesReceived :: bool
  m_licenseRequestSessionId :: int
  m_keyStatusesSessionId :: int
  m_licenseRequest :: string
  m_licenseRequestUrl :: string
  m_keyStatuses :: "(bytes \<times> SessionKeyStatus) list"

definition new_listener :: RecordingMediaKeysClient where
  "new_listener = \<lparr>m_licenseRequestReceived = False, m_keyStatusesReceived = False,
     m_licenseRequestSessionId = - 1, m_keyStatusesSessionId = - 1, m_licenseRequest = [],
     m_licenseRequestUrl = [], m_keyStatuses = []\<rparr>"

definition onLicenseRequest :: "int \<Rightarrow> bytes \<Rightarrow> string \<Rightarrow> RecordingMediaKeysClient \<Rightarrow> RecordingMediaKeysClient" where
  "onLicenseRequest keySessionId licenseRequestMessage url c =
     c\<lparr>m_licenseRequestSessionId := keySessionId,
       m_licenseRequest := string_of_bytes licenseRequestMessage,
       m_licenseRequestUrl := url,
       m_licenseRequestReceived := True\<rparr>"

definition onLicenseRenewal :: "int \<Rightarrow> bytes \<Rightarrow> RecordingMediaKeysClient \<Rightarrow> RecordingMediaKeysClient" where
  "onLicenseRenewal keySessionId message c = c"

definition onKeyStatusesChanged ::
  "int \<Rightarrow> (bytes \<times> SessionKeyStatus) list \<Rightarrow> RecordingMediaKeysClient \<Rightarrow> RecordingMediaKeysClient" where
  "onKeyStatusesChanged keySessionId keyStatuses c =
     c\<lparr>m_keyStatusesSessionId := keySessionId, m_keyStatuses := keyStatuses, m_keyStatusesReceived := True\<rparr>"

fun call_back :: "key_event \<Rightarrow> RecordingMediaKeysClient \<Rightarrow> RecordingMediaKeysClient" where
  "call_back (LicenseRequest i msg url) c = onLicenseRequest i msg url c"
| "call_back (LicenseRenewal i msg) c = onLicenseRenewal i msg c"
| "call_back (KeyStatusesChanged i sts) c = onKeyStatusesChanged i sts c"

definition waitForLicenseRequest :: "RecordingMediaKeysClient list \<Rightarrow> bool" where
  "waitForLicenseRequest = wait_for m_licenseRequestReceived"

definition waitForKeyStatuses :: "RecordingMediaKeysClient list \<Rightarrow> bool" where
  "waitForKeyStatuses = wait_for m_keyStatusesReceived"

definition licenseRequestText :: "RecordingMediaKeysClient \<Rightarrow> string" where
  "licenseRequestText c = m_licenseRequest c"

definition licenseRequestSessionId :: "RecordingMediaKeysClient \<Rightarrow> int" where
  "licenseRequestSessionId c = m_licenseRequestSessionId c"

definition keyStatuses :: "RecordingMediaKeysClient \<Rightarrow> (bytes \<times> SessionKeyStatus) list" where
  "keyStatuses c = m_keyStatuses c"

definition keyStatusesSessionId :: "RecordingMediaKeysClient \<Rightarrow> int" where
  "keyStatusesSessionId c = m_keyStatusesSessionId c"

section \<open>Actions of the test thread\<close>

text \<open>The client exists from \<open>make_shared\<close> until its last owner lets go.\<close>

record key_session = report +
  listener :: "RecordingMediaKeysClient option"
  now :: nat
  requested :: "keys_call list"

definition fresh_key_session :: key_session where
  "fresh_key_session = \<lparr>checks = [], ignored = False, listener = None, now = 0, requested = []\<rparr>"

definition hear :: "media_keys \<Rightarrow> key_session \<Rightarrow> key_session" where
  "hear env s = s\<lparr>listener := map_option (fold call_back (key_events env (now s))) (listener s), now := Suc (now s)\<rparr>"

definition ask :: "media_keys \<Rightarrow> keys_call \<Rightarrow> (key_session, keys_reply) state" where
  "ask env c = State (\<lambda>s. (key_answer env (now s) c, (hear env s)\<lparr>requested := requested s @ [c]\<rparr>))"

definition make_client :: "(key_session, unit) state" where
  "make_client = State (\<lambda>s. ((), s\<lparr>listener := Some new_listener\<rparr>))"

text \<open>\<open>client.reset()\<close>, then \<open>weakClient.expired()\<close>.\<close>

definition reset_client :: "media_keys \<Rightarrow> (key_session, unit) state" where
  "reset_client env = State (\<lambda>s. ((), s\<lparr>listener := (if retains env (now s) then listener s else None)\<rparr>))"

definition client_expired :: "(key_session, bool) state" where
  "client_expired = State (\<lambda>s. (listener s = None, s))"

text \<open>Reading or waiting on the client through the test's own pointer; it is not null there.\<close>

definition read_client :: "media_keys \<Rightarrow> (RecordingMediaKeysClient \<Rightarrow> 'a) \<Rightarrow> (key_session, 'a) state" where
  "read_client env f = State (\<lambda>s. let s1 = hear env s in (f (the (listener s1)), s1))"

definition wakes :: "key_event list \<Rightarrow> RecordingMediaKeysClient \<Rightarrow> RecordingMediaKeysClient list" where
  "wakes es c = map (\<lambda>k. fold call_back (take k es) c) [0..<Suc (length es)]"

definition wait_listener :: "media_keys \<Rightarrow> (RecordingMediaKeysClient list \<Rightarrow> bool) \<Rightarrow> (key_session, bool) state" where
  "wait_listener env waited = State (\<lambda>s. (waited (wakes (key_events env (now s)) (the (listener s))), hear env s))"

section \<open>The test data\<close>

definition kClearKey :: string where "kClearKey = ''org.w3.clearkey''"

definition kKeyId :: bytes where
  "kKeyId = [0x30, 0x31, 0x32, 0x33, 0x34, 0x35, 0x36, 0x37, 0x38, 0x39, 0x3A, 0x3B, 0x3C, 0x3D, 0x3E, 0x3F]"

definition kKeyIdB64 :: string where "kKeyIdB64 = ''MDEyMzQ1Njc4OTo7PD0-Pw''"
definition kKeyB64 :: string where "kKeyB64 = ''QUFBQUFBQUFBQUFBQUFBQQ''"

definition kInitDataJson :: string where
  "kInitDataJson = ''{'' @ [dquote] @ ''kids'' @ [dquote] @ '':['' @ [dquote] @ kKeyIdB64 @ [dquote] @ '']}''"

definition kJwkResponse :: string where
  "kJwkResponse = ''{'' @ [dquote] @ ''keys'' @ [dquote] @ '':[{'' @ [dquote] @ ''kty'' @ [dquote] @ '':''
     @ [dquote] @ ''oct'' @ [dquote] @ '','' @ [dquote] @ ''kid'' @ [dquote] @ '':'' @ [dquote] @ kKeyIdB64
     @ [dquote] @ '','' @ [dquote] @ ''k'' @ [dquote] @ '':'' @ [dquote] @ kKeyB64 @ [dquote] @ ''}],''
     @ [dquote] @ ''type'' @ [dquote] @ '':'' @ [dquote] @ ''temporary'' @ [dquote] @ ''}''"

definition toBytes :: "string \<Rightarrow> bytes" where
  "toBytes text = map byte_of_char text"

section \<open>The cases\<close>

definition createClearKeyMediaKeys :: "media_keys \<Rightarrow> (key_session, bool) state" where
  "createClearKeyMediaKeys env = do {
     factory \<leftarrow> ask env CreateKeysFactory;
     if \<not> yes factory then State_Monad.return False
     else do { mediaKeys \<leftarrow> ask env (CreateMediaKeys kClearKey); State_Monad.return (yes mediaKeys) } }"

definition keys_case :: "media_keys \<Rightarrow> verdict \<Rightarrow> (key_session, unit) state \<Rightarrow> (key_session, unit) state" where
  "keys_case env v body = gated v (do {
     mediaKeys \<leftarrow> createClearKeyMediaKeys env;
     fatal mediaKeys body })"

text \<open>The head most cases share: the client, and a session of it.\<close>

definition session_case :: "media_keys \<Rightarrow> verdict \<Rightarrow> (int \<Rightarrow> (key_session, unit) state) \<Rightarrow> (key_session, unit) state" where
  "session_case env v body = keys_case env v (do {
     make_client;
     r \<leftarrow> ask env (CreateKeySession TEMPORARY);
     check (status r = MK_OK);
     body (case session_out r of None \<Rightarrow> - 1 | Some sid \<Rightarrow> sid) })"

definition request_license :: "media_keys \<Rightarrow> int \<Rightarrow> (key_session, unit) state \<Rightarrow> (key_session, unit) state" where
  "request_license env sid rest = do {
     r \<leftarrow> ask env (GenerateRequest sid KEY_IDS (toBytes kInitDataJson));
     check (status r = MK_OK);
     received \<leftarrow> wait_listener env waitForLicenseRequest;
     fatal received rest }"

definition CreateKeySessionWritesValidId :: "media_keys \<Rightarrow> verdict \<Rightarrow> (key_session, unit) state" where
  "CreateKeySessionWritesValidId env v = session_case env v (\<lambda>sid. do {
     check (sid \<ge> 0);
     _ \<leftarrow> ask env (CloseKeySession sid);
     State_Monad.return () })"

definition GenerateRequestDeliversLicenseRequest :: "media_keys \<Rightarrow> verdict \<Rightarrow> (key_session, unit) state" where
  "GenerateRequestDeliversLicenseRequest env v = session_case env v (\<lambda>sid. request_license env sid (do {
     i \<leftarrow> read_client env licenseRequestSessionId;
     check (i = sid);
     request \<leftarrow> read_client env licenseRequestText;
     check (str_find request kKeyIdB64 0 \<noteq> None);
     _ \<leftarrow> ask env (CloseKeySession sid);
     State_Monad.return () }))"

definition sawUsableKid :: "(bytes \<times> SessionKeyStatus) list \<Rightarrow> bool" where
  "sawUsableKid statuses = foldl (\<lambda>saw entry. if fst entry = kKeyId \<and> snd entry = USABLE then True else saw) False statuses"

definition UpdateSessionSurfacesUsableKeyStatus :: "media_keys \<Rightarrow> verdict \<Rightarrow> (key_session, unit) state" where
  "UpdateSessionSurfacesUsableKeyStatus env v = session_case env v (\<lambda>sid. request_license env sid (do {
     updated \<leftarrow> ask env (UpdateSession sid (toBytes kJwkResponse));
     check (status updated = MK_OK);
     received \<leftarrow> wait_listener env waitForKeyStatuses;
     fatal received (do {
       i \<leftarrow> read_client env keyStatusesSessionId;
       check (i = sid);
       statuses \<leftarrow> read_client env keyStatuses;
       fatal (statuses \<noteq> []) (do {
         check (sawUsableKid statuses);
         mine \<leftarrow> ask env (ContainsKey sid kKeyId);
         check (yes mine);
         other \<leftarrow> ask env (ContainsKey sid (replicate 16 0x99));
         check (\<not> yes other);
         _ \<leftarrow> ask env (CloseKeySession sid);
         State_Monad.return () }) }) }))"

definition SessionTeardownReturnsOk :: "media_keys \<Rightarrow> verdict \<Rightarrow> (key_session, unit) state" where
  "SessionTeardownReturnsOk env v = session_case env v (\<lambda>sid. request_license env sid (do {
     updated \<leftarrow> ask env (UpdateSession sid (toBytes kJwkResponse));
     check (status updated = MK_OK);
     removed \<leftarrow> ask env (RemoveKeySession sid);
     check (status removed = MK_OK);
     closing \<leftarrow> ask env (CloseKeySession sid);
     check (status closing = MK_OK);
     released \<leftarrow> ask env (ReleaseKeySession sid);
     check (status released = MK_OK) }))"

definition kUnknownSession :: int where "kUnknownSession = 987654"

definition UnknownSessionIdReturnsBadSessionId :: "media_keys \<Rightarrow> verdict \<Rightarrow> (key_session, unit) state" where
  "UnknownSessionIdReturnsBadSessionId env v = keys_case env v (do {
     generated \<leftarrow> ask env (GenerateRequest kUnknownSession KEY_IDS (toBytes kInitDataJson));
     check (status generated = BAD_SESSION_ID);
     updated \<leftarrow> ask env (UpdateSession kUnknownSession (toBytes kJwkResponse));
     check (status updated = BAD_SESSION_ID);
     closing \<leftarrow> ask env (CloseKeySession kUnknownSession);
     check (status closing = FAIL);
     removed \<leftarrow> ask env (RemoveKeySession kUnknownSession);
     check (status removed = BAD_SESSION_ID);
     contained \<leftarrow> ask env (ContainsKey kUnknownSession kKeyId);
     check (\<not> yes contained) })"

definition StoreAndMaintenanceQueriesAnswer :: "media_keys \<Rightarrow> verdict \<Rightarrow> (key_session, unit) state" where
  "StoreAndMaintenanceQueriesAnswer env v = session_case env v (\<lambda>sid. request_license env sid (do {
     drmTime \<leftarrow> ask env GetDrmTime;
     check (status drmTime = MK_OK);
     cdm_session \<leftarrow> ask env (GetCdmKeySessionId sid);
     check (status cdm_session = MK_OK);
     check ((case name_out cdm_session of None \<Rightarrow> [] | Some cdmSessionId \<Rightarrow> cdmSessionId) \<noteq> []);
     _ \<leftarrow> ask env GetDrmStoreHash;
     _ \<leftarrow> ask env GetKeyStoreHash;
     _ \<leftarrow> ask env GetLdlSessionsLimit;
     _ \<leftarrow> ask env (GetLastDrmError sid);
     _ \<leftarrow> ask env GetMetricSystemData;
     _ \<leftarrow> ask env DeleteDrmStore;
     _ \<leftarrow> ask env DeleteKeyStore;
     _ \<leftarrow> ask env (CloseKeySession sid);
     State_Monad.return () }))"

definition SelectKeyIdAnswersForValidSession :: "media_keys \<Rightarrow> verdict \<Rightarrow> (key_session, unit) state" where
  "SelectKeyIdAnswersForValidSession env v = session_case env v (\<lambda>sid. request_license env sid (do {
     updated \<leftarrow> ask env (UpdateSession sid (toBytes kJwkResponse));
     check (status updated = MK_OK);
     received \<leftarrow> wait_listener env waitForKeyStatuses;
     fatal received (do {
       selected \<leftarrow> ask env (SelectKeyId sid kKeyId);
       check (status selected \<noteq> BAD_SESSION_ID);
       _ \<leftarrow> ask env (CloseKeySession sid);
       State_Monad.return () }) }))"

definition ClientHeldWeaklyAndReleasable :: "media_keys \<Rightarrow> verdict \<Rightarrow> (key_session, unit) state" where
  "ClientHeldWeaklyAndReleasable env v = session_case env v (\<lambda>sid. do {
     reset_client env;
     expired \<leftarrow> client_expired;
     check expired;
     generated \<leftarrow> ask env (GenerateRequest sid KEY_IDS (toBytes kInitDataJson));
     check (status generated = MK_OK);
     closing \<leftarrow> ask env (CloseKeySession sid);
     check (status closing = MK_OK) })"

section \<open>Running the actions\<close>

lemma hear_fields [simp]:
  "checks (hear env s) = checks s" "ignored (hear env s) = ignored s" "now (hear env s) = Suc (now s)"
  "listener (hear env s) = map_option (fold call_back (key_events env (now s))) (listener s)"
  "requested (hear env s) = requested s"
  by (simp_all add: hear_def)

lemma hear_update [simp]:
  "hear env (s\<lparr>checks := cs\<rparr>) = (hear env s)\<lparr>checks := cs\<rparr>"
  by (simp add: hear_def)

lemma run_ask [simp]:
  "run_state (ask env c) s = (key_answer env (now s) c, (hear env s)\<lparr>requested := requested s @ [c]\<rparr>)"
  by (simp add: ask_def)

lemma run_clients [simp]:
  "run_state make_client s = ((), s\<lparr>listener := Some new_listener\<rparr>)"
  "run_state (reset_client env) s = ((), s\<lparr>listener := (if retains env (now s) then listener s else None)\<rparr>)"
  "run_state client_expired s = (listener s = None, s)"
  "run_state (read_client env f) s = (f (the (listener (hear env s))), hear env s)"
  by (simp_all add: make_client_def reset_client_def client_expired_def read_client_def Let_def)

text \<open>What a client has recorded, in terms of the callbacks it got.\<close>

definition licenses :: "key_event list \<Rightarrow> (int \<times> bytes) list" where
  "licenses es = concat (map (\<lambda>e. case e of LicenseRequest i msg url \<Rightarrow> [(i, msg)] | _ \<Rightarrow> []) es)"

definition key_updates :: "key_event list \<Rightarrow> (int \<times> (bytes \<times> SessionKeyStatus) list) list" where
  "key_updates es = concat (map (\<lambda>e. case e of KeyStatusesChanged i sts \<Rightarrow> [(i, sts)] | _ \<Rightarrow> []) es)"

lemma event_lists [simp]:
  "licenses [] = []" "licenses (LicenseRequest i msg url # es) = (i, msg) # licenses es"
  "licenses (LicenseRenewal i msg # es) = licenses es" "licenses (KeyStatusesChanged i sts # es) = licenses es"
  "licenses (es @ fs) = licenses es @ licenses fs"
  "key_updates [] = []" "key_updates (LicenseRequest i msg url # es) = key_updates es"
  "key_updates (LicenseRenewal i msg # es) = key_updates es"
  "key_updates (KeyStatusesChanged i sts # es) = (i, sts) # key_updates es"
  "key_updates (es @ fs) = key_updates es @ key_updates fs"
  by (simp_all add: licenses_def key_updates_def)

lemmas callback_defs = onLicenseRequest_def onLicenseRenewal_def onKeyStatusesChanged_def
lemmas reader_defs = licenseRequestText_def licenseRequestSessionId_def keyStatuses_def keyStatusesSessionId_def

text \<open>The client keeps the last request and the last statuses.\<close>

definition remembers :: "key_event list \<Rightarrow> RecordingMediaKeysClient \<Rightarrow> bool" where
  "remembers es c \<longleftrightarrow>
     m_licenseRequestReceived c = (licenses es \<noteq> []) \<and> m_keyStatusesReceived c = (key_updates es \<noteq> [])
     \<and> (licenses es \<noteq> [] \<longrightarrow> (m_licenseRequestSessionId c, m_licenseRequest c)
            = (fst (last (licenses es)), string_of_bytes (snd (last (licenses es)))))
     \<and> (key_updates es \<noteq> [] \<longrightarrow> (m_keyStatusesSessionId c, m_keyStatuses c) = last (key_updates es))"

lemma remembers_new: "remembers [] new_listener"
  by (simp add: remembers_def new_listener_def)

lemma remembers_fold: "remembers es c \<Longrightarrow> remembers (es @ fs) (fold call_back fs c)"
proof (induction fs arbitrary: es c)
  case (Cons f fs)
  have "remembers (es @ [f]) (call_back f c)"
    using Cons.prems by (cases f) (auto simp: remembers_def callback_defs)
  from Cons.IH [OF this] show ?case by simp
qed simp

text \<open>The waits are on latches.\<close>

definition listener_evolves :: "RecordingMediaKeysClient \<Rightarrow> RecordingMediaKeysClient \<Rightarrow> bool" where
  "listener_evolves c c' \<longleftrightarrow> (\<exists>e. c' = call_back e c)"

interpretation license_seen: latch listener_evolves m_licenseRequestReceived
proof
  fix c c' assume "m_licenseRequestReceived c" "listener_evolves c c'"
  then obtain e where "c' = call_back e c" by (auto simp: listener_evolves_def)
  with \<open>m_licenseRequestReceived c\<close> show "m_licenseRequestReceived c'" by (cases e) (simp_all add: callback_defs)
qed

interpretation statuses_seen: latch listener_evolves m_keyStatusesReceived
proof
  fix c c' assume "m_keyStatusesReceived c" "listener_evolves c c'"
  then obtain e where "c' = call_back e c" by (auto simp: listener_evolves_def)
  with \<open>m_keyStatusesReceived c\<close> show "m_keyStatusesReceived c'" by (cases e) (simp_all add: callback_defs)
qed

lemma wakes_last: "wakes es c \<noteq> []" "last (wakes es c) = fold call_back es c"
  by (simp_all add: wakes_def)

lemma wakes_evolve: "successively listener_evolves (wakes es c)"
proof -
  have nth: "wakes es c ! k = fold call_back (take k es) c" if "k \<le> length es" for k
    using that unfolding wakes_def by (simp only: nth_map_upt diff_zero add_0 less_Suc_eq_le)
  show ?thesis unfolding successively_conv_nth
  proof (intro allI impI)
    fix k assume "Suc k < length (wakes es c)"
    then have k: "k < length es" by (simp add: wakes_def del: upt_Suc)
    then have "wakes es c ! Suc k = call_back (es ! k) (wakes es c ! k)"
      by (simp add: nth take_Suc_conv_app_nth)
    then show "listener_evolves (wakes es c ! k) (wakes es c ! Suc k)"
      unfolding listener_evolves_def by blast
  qed
qed

lemma run_wait_listener [simp]:
  "run_state (wait_listener env waitForLicenseRequest) s =
     (m_licenseRequestReceived (fold call_back (key_events env (now s)) (the (listener s))), hear env s)"
  "run_state (wait_listener env waitForKeyStatuses) s =
     (m_keyStatusesReceived (fold call_back (key_events env (now s)) (the (listener s))), hear env s)"
  unfolding wait_listener_def waitForLicenseRequest_def waitForKeyStatuses_def
  using license_seen.wait_for_last [OF wakes_last(1) wakes_evolve]
    statuses_seen.wait_for_last [OF wakes_last(1) wakes_evolve]
  by (simp_all add: wakes_last)

lemma sawUsableKid_iff: "sawUsableKid sts \<longleftrightarrow> (kKeyId, USABLE) \<in> set sts"
proof -
  have "foldl (\<lambda>saw entry. if fst entry = kKeyId \<and> snd entry = USABLE then True else saw) b sts
     = (b \<or> (kKeyId, USABLE) \<in> set sts)" for b
  proof (induction sts arbitrary: b)
    case (Cons e sts)
    show ?case unfolding foldl_Cons Cons.IH by (cases e) auto
  qed simp
  then show ?thesis unfolding sawUsableKid_def by (simp only: simp_thms)
qed

section \<open>What the cases decide\<close>

text \<open>The library and a session are there: the first three calls, and the session's id.\<close>

abbreviation answers :: "media_keys \<Rightarrow> nat \<Rightarrow> keys_call \<Rightarrow> MediaKeyErrorStatus" where
  "answers env t c \<equiv> status (key_answer env t c)"

definition keys_made :: "media_keys \<Rightarrow> verdict \<Rightarrow> bool" where
  "keys_made env v \<longleftrightarrow> v = Proceed \<and> yes (key_answer env 0 CreateKeysFactory)
     \<and> yes (key_answer env 1 (CreateMediaKeys ''org.w3.clearkey''))"

definition session_made :: "media_keys \<Rightarrow> verdict \<Rightarrow> bool" where
  "session_made env v \<longleftrightarrow> keys_made env v \<and> answers env 2 (CreateKeySession TEMPORARY) = MK_OK"

definition session_of :: "media_keys \<Rightarrow> int" where
  "session_of env = (case session_out (key_answer env 2 (CreateKeySession TEMPORARY)) of None \<Rightarrow> - 1 | Some sid \<Rightarrow> sid)"

text \<open>The callbacks from before tick 2, when the client is there, to before tick \<open>b\<close>.\<close>

definition heard :: "media_keys \<Rightarrow> nat \<Rightarrow> key_event list" where
  "heard env b = concat (map (key_events env) [2..<b])"

definition client_before :: "media_keys \<Rightarrow> nat \<Rightarrow> RecordingMediaKeysClient" where
  "client_before env b = fold call_back (heard env b) new_listener"

lemma client_before_Suc: "2 \<le> b \<Longrightarrow> fold call_back (key_events env b) (client_before env b) = client_before env (Suc b)"
  by (simp add: client_before_def heard_def)

lemma client_before_remembers: "remembers (heard env b) (client_before env b)"
  using remembers_fold [OF remembers_new] by (simp add: client_before_def)

lemma client_before_flags [simp]:
  "m_licenseRequestReceived (client_before env b) \<longleftrightarrow> licenses (heard env b) \<noteq> []"
  "m_keyStatusesReceived (client_before env b) \<longleftrightarrow> key_updates (heard env b) \<noteq> []"
  using client_before_remembers by (simp_all add: remembers_def)

lemma client_before_2: "new_listener = client_before env (Suc (Suc 0))"
  by (simp add: client_before_def heard_def)

lemma hear_client [simp]:
  "map_option (fold call_back (key_events env b)) None = None"
  "Suc (Suc 0) \<le> b \<Longrightarrow> fold call_back (key_events env b) (client_before env b) = client_before env (Suc b)"
  using client_before_Suc [of b env] by simp_all

lemma client_before_ids [simp]:
  "licenses (heard env b) \<noteq> [] \<Longrightarrow> m_licenseRequestSessionId (client_before env b) = fst (last (licenses (heard env b)))"
  "licenses (heard env b) \<noteq> [] \<Longrightarrow> m_licenseRequest (client_before env b) = string_of_bytes (snd (last (licenses (heard env b))))"
  "key_updates (heard env b) \<noteq> [] \<Longrightarrow> m_keyStatusesSessionId (client_before env b) = fst (last (key_updates (heard env b)))"
  "key_updates (heard env b) \<noteq> [] \<Longrightarrow> m_keyStatuses (client_before env b) = snd (last (key_updates (heard env b)))"
  using client_before_remembers [of env b] by (auto simp: remembers_def prod_eq_iff)

lemma heard_Suc: "2 \<le> b \<Longrightarrow> heard env (Suc b) = heard env b @ key_events env b"
  by (simp add: heard_def)

lemma heard_grows [simp]:
  "licenses (heard env b) \<noteq> [] \<Longrightarrow> licenses (heard env (Suc b)) \<noteq> []"
  "key_updates (heard env b) \<noteq> [] \<Longrightarrow> key_updates (heard env (Suc b)) \<noteq> []"
proof -
  have "\<exists>es. heard env (Suc b) = heard env b @ es" by (cases "2 \<le> b") (auto simp: heard_Suc, simp add: heard_def)
  then obtain es where es: "heard env (Suc b) = heard env b @ es" by blast
  show "licenses (heard env b) \<noteq> [] \<Longrightarrow> licenses (heard env (Suc b)) \<noteq> []" unfolding es by simp
  show "key_updates (heard env b) \<noteq> [] \<Longrightarrow> key_updates (heard env (Suc b)) \<noteq> []" unfolding es by simp
qed

lemmas case_defs = keys_case_def session_case_def request_license_def createClearKeyMediaKeys_def
  keys_made_def session_made_def session_of_def kClearKey_def

text \<open>The request case.\<close>

lemma generate_request_verdict:
  "passed (run_case (GenerateRequestDeliversLicenseRequest env v) fresh_key_session) \<longleftrightarrow>
     session_made env v
     \<and> answers env 3 (GenerateRequest (session_of env) KEY_IDS (toBytes kInitDataJson)) = MK_OK
     \<and> licenses (heard env 5) \<noteq> [] \<and> fst (last (licenses (heard env 6))) = session_of env
     \<and> str_find (string_of_bytes (snd (last (licenses (heard env 7))))) kKeyIdB64 0 \<noteq> None"
  unfolding GenerateRequestDeliversLicenseRequest_def case_defs
  by (cases v) (auto simp: case_simps passed_def fresh_key_session_def reader_defs client_before_2 [of env] eval_nat_numeral)

text \<open>The update case passes exactly when the first three calls are granted, the request and the
  response are accepted, a license request has come by the end of its wait and key statuses by
  the end of theirs, the last statuses the client has when it is asked are for this session, not
  empty, with the supplied key id usable, and the two \<open>containsKey\<close> answers tell the two ids apart.\<close>

lemma update_session_verdict:
  "passed (run_case (UpdateSessionSurfacesUsableKeyStatus env v) fresh_key_session) \<longleftrightarrow>
     (let sid = session_of env in session_made env v
     \<and> answers env 3 (GenerateRequest sid KEY_IDS (toBytes kInitDataJson)) = MK_OK
     \<and> licenses (heard env 5) \<noteq> []
     \<and> answers env 5 (UpdateSession sid (toBytes kJwkResponse)) = MK_OK
     \<and> key_updates (heard env 7) \<noteq> [] \<and> fst (last (key_updates (heard env 8))) = sid
     \<and> snd (last (key_updates (heard env 9))) \<noteq> []
     \<and> (kKeyId, USABLE) \<in> set (snd (last (key_updates (heard env 9))))
     \<and> yes (key_answer env 9 (ContainsKey sid kKeyId))
     \<and> \<not> yes (key_answer env 10 (ContainsKey sid (replicate 16 0x99))))"
  unfolding UpdateSessionSurfacesUsableKeyStatus_def case_defs Let_def
  by (cases v) (auto simp: case_simps passed_def fresh_key_session_def reader_defs client_before_2 [of env]
      sawUsableKid_iff eval_nat_numeral)

lemma select_key_verdict:
  "passed (run_case (SelectKeyIdAnswersForValidSession env v) fresh_key_session) \<longleftrightarrow>
     (let sid = session_of env in session_made env v
     \<and> answers env 3 (GenerateRequest sid KEY_IDS (toBytes kInitDataJson)) = MK_OK
     \<and> licenses (heard env 5) \<noteq> []
     \<and> answers env 5 (UpdateSession sid (toBytes kJwkResponse)) = MK_OK
     \<and> key_updates (heard env 7) \<noteq> []
     \<and> answers env 7 (SelectKeyId sid kKeyId) \<noteq> BAD_SESSION_ID)"
  unfolding SelectKeyIdAnswersForValidSession_def case_defs Let_def
  by (cases v) (auto simp: case_simps passed_def fresh_key_session_def client_before_2 [of env] eval_nat_numeral)

lemma teardown_verdict:
  "passed (run_case (SessionTeardownReturnsOk env v) fresh_key_session) \<longleftrightarrow>
     (let sid = session_of env in session_made env v
     \<and> answers env 3 (GenerateRequest sid KEY_IDS (toBytes kInitDataJson)) = MK_OK
     \<and> licenses (heard env 5) \<noteq> []
     \<and> answers env 5 (UpdateSession sid (toBytes kJwkResponse)) = MK_OK
     \<and> answers env 6 (RemoveKeySession sid) = MK_OK \<and> answers env 7 (CloseKeySession sid) = MK_OK
     \<and> answers env 8 (ReleaseKeySession sid) = MK_OK)"
  unfolding SessionTeardownReturnsOk_def case_defs Let_def
  by (cases v) (auto simp: case_simps passed_def fresh_key_session_def client_before_2 [of env] eval_nat_numeral)

lemma unknown_session_verdict:
  "passed (run_case (UnknownSessionIdReturnsBadSessionId env v) fresh_key_session) \<longleftrightarrow>
     keys_made env v
     \<and> answers env 2 (GenerateRequest 987654 KEY_IDS (toBytes kInitDataJson)) = BAD_SESSION_ID
     \<and> answers env 3 (UpdateSession 987654 (toBytes kJwkResponse)) = BAD_SESSION_ID
     \<and> answers env 4 (CloseKeySession 987654) = FAIL
     \<and> answers env 5 (RemoveKeySession 987654) = BAD_SESSION_ID
     \<and> \<not> yes (key_answer env 6 (ContainsKey 987654 kKeyId))"
  unfolding UnknownSessionIdReturnsBadSessionId_def case_defs kUnknownSession_def
  by (cases v) (auto simp: case_simps passed_def fresh_key_session_def numeral_2_eq_2 numeral_3_eq_3 eval_nat_numeral)

lemma store_queries_verdict:
  "passed (run_case (StoreAndMaintenanceQueriesAnswer env v) fresh_key_session) \<longleftrightarrow>
     (let sid = session_of env in session_made env v
     \<and> answers env 3 (GenerateRequest sid KEY_IDS (toBytes kInitDataJson)) = MK_OK
     \<and> licenses (heard env 5) \<noteq> []
     \<and> answers env 5 GetDrmTime = MK_OK \<and> answers env 6 (GetCdmKeySessionId sid) = MK_OK
     \<and> (\<exists>c cs. name_out (key_answer env 6 (GetCdmKeySessionId sid)) = Some (c # cs)))"
  unfolding StoreAndMaintenanceQueriesAnswer_def case_defs Let_def
  by (cases v) (auto simp: case_simps passed_def fresh_key_session_def client_before_2 [of env] eval_nat_numeral
      neq_Nil_conv split: option.splits)

text \<open>The weak-client case observes the release itself: it fails when the library keeps its own
  reference.  That no callback is delivered afterwards is not observed: with no client left
  there is nothing to record one.\<close>

lemma weak_client_verdict:
  "passed (run_case (ClientHeldWeaklyAndReleasable env v) fresh_key_session) \<longleftrightarrow>
     (let sid = session_of env in session_made env v \<and> \<not> retains env 3
     \<and> answers env 3 (GenerateRequest sid KEY_IDS (toBytes kInitDataJson)) = MK_OK
     \<and> answers env 4 (CloseKeySession sid) = MK_OK)"
  unfolding ClientHeldWeaklyAndReleasable_def case_defs Let_def
  by (cases v) (auto simp: case_simps passed_def fresh_key_session_def eval_nat_numeral)

section \<open>The suite's own backend behind the library\<close>

definition kKey :: bytes where "kKey = replicate 16 0x41"

lemma kKeyIdB64_encodes: "kKeyIdB64 = base64UrlEncode kKeyId"
  by code_simp

lemma kKeyB64_encodes: "kKeyB64 = base64UrlEncode kKey"
  by code_simp

text \<open>The test's literals are the init data and the response for its key id and key.\<close>

lemma kInitData_keyids: "toBytes kInitDataJson = keyids_init [kKeyId]"
  by (simp add: toBytes_def kInitDataJson_def keyids_init_def kids_json_def quoted_def kKeyIdB64_encodes bytes_of_string_def)

lemma kJwkResponse_license: "toBytes kJwkResponse = license_response [(kKeyId, kKey)]"
  by (simp add: toBytes_def kJwkResponse_def license_response_def jwk_json_def jwk_entry_def enc_pair_def quoted_def
      kKeyIdB64_encodes kKeyB64_encodes bytes_of_string_def)

text \<open>How a library that is driven through OpenCDM hands the backend's callbacks on: a challenge is
  a license request of the length given, and the end of a batch of key updates is one list of
  statuses, each as the backend answers for it.\<close>

definition status_as :: "KeyStatus option \<Rightarrow> SessionKeyStatus" where
  "status_as st = (case st of Some Usable \<Rightarrow> USABLE | Some StatusPending \<Rightarrow> OtherKeyStatus 1 | _ \<Rightarrow> OtherKeyStatus 2)"

fun forwarded :: "int \<Rightarrow> (bytes \<Rightarrow> SessionKeyStatus) \<Rightarrow> bytes list \<Rightarrow> cdm_event list \<Rightarrow> key_event list" where
  "forwarded sid st kids [] = []"
| "forwarded sid st kids (ProcessChallenge a ud url msg len # es) =
     LicenseRequest sid (take (unat len) msg) url # forwarded sid st kids es"
| "forwarded sid st kids (KeyUpdate a ud kid len # es) = forwarded sid st (kids @ [kid]) es"
| "forwarded sid st kids (KeysUpdated a ud # es) =
     KeyStatusesChanged sid (map (\<lambda>kid. (kid, st kid)) kids) # forwarded sid st [] es"

definition all_callbacks :: OpenCDMSessionCallbacks where
  "all_callbacks = \<lparr>process_challenge_callback = True, key_update_callback = True, keys_updated_callback = True\<rparr>"

text \<open>\<open>forwards env c0 sys a\<close>: the library passes the request of tick 3 and the response of tick 5
  on to the backend in state \<open>c0\<close>, reports success when the backend does, delivers the
  callbacks by the wait that follows and nothing else, and answers \<open>containsKey\<close> as the backend.\<close>

definition forwards :: "media_keys \<Rightarrow> cdm \<Rightarrow> addr \<Rightarrow> addr \<Rightarrow> bool" where
  "forwards env c0 sys a \<longleftrightarrow>
     (let sid = session_of env; init = toBytes kInitDataJson; response = toBytes kJwkResponse in
      (\<forall>k. k \<noteq> 4 \<and> k \<noteq> 6 \<longrightarrow> key_events env k = [])
      \<and> (case opencdm_construct_session c0 (Some sys) (Some ''keyids'') (Some init) (word_of_nat (length init))
                (Some all_callbacks) 0 (Some None) (Some a) of
          None \<Rightarrow> False
        | Some (c1, _, e1) \<Rightarrow>
            (answers env 3 (GenerateRequest sid KEY_IDS init) = MK_OK \<longleftrightarrow> e1 = ERROR_NONE)
            \<and> key_events env 4 = forwarded sid (\<lambda>_. USABLE) [] (drop (length (events c0)) (events c1))
            \<and> (case opencdm_session_update c1 (Some a) (Some response) (word_of_nat (length response)) of
                None \<Rightarrow> False
              | Some (c2, e2) \<Rightarrow>
                  (answers env 5 (UpdateSession sid response) = MK_OK \<longleftrightarrow> e2 = ERROR_NONE)
                  \<and> key_events env 6 = forwarded sid
                      (\<lambda>kid. status_as (opencdm_session_status c2 (Some a) (Some kid) (word_of_nat (length kid))))
                      [] (drop (length (events c1)) (events c2))
                  \<and> (\<forall>t kid. kid \<in> {kKeyId, replicate 16 0x99} \<and> t \<in> {9, 10} \<longrightarrow>
                        yes (key_answer env t (ContainsKey sid kid))
                          = (opencdm_session_has_key_id c2 (Some a) (word_of_nat (length kid)) (Some kid) = Some 1)))))"

lemma kKeyId_sizes: "kKeyId \<noteq> []" "kKey \<noteq> []" "length kKeyId = 16" "kKeyId \<noteq> replicate 16 0x99"
proof -
  have "hd kKeyId \<noteq> hd (replicate 16 0x99)" by (simp add: kKeyId_def)
  then show "kKeyId \<noteq> replicate 16 0x99" by metis
qed (simp_all add: kKeyId_def kKey_def)

lemma test_data_sizes: "length (keyids_init [kKeyId]) < 65536" "length (license_response [(kKeyId, kKey)]) < 65536"
  by (simp_all add: keyids_init_def kids_json_def quoted_def length_encode license_response_def
      jwk_json_def jwk_entry_def enc_pair_def kKeyId_sizes kKey_def)

text \<open>The request the backend sends names the key id.\<close>

lemma request_names_key:
  "take (unat (word_of_nat (length (license_request [kKeyId])) :: u16)) (bytes_of_string (license_request [kKeyId]))
     = bytes_of_string (license_request [kKeyId])"
  "str_find (license_request [kKeyId]) kKeyIdB64 0 \<noteq> None"
proof -
  have "length (license_request [kKeyId]) < 65536"
    by (simp add: license_request_def length_encode kKeyId_sizes)
  then show "take (unat (word_of_nat (length (license_request [kKeyId])) :: u16)) (bytes_of_string (license_request [kKeyId]))
     = bytes_of_string (license_request [kKeyId])" by simp
  have "license_request [kKeyId] = (''{'' @ [dquote] @ ''kids'' @ [dquote] @ '':['' @ [dquote]) @ kKeyIdB64
      @ ([dquote] @ ''],'' @ [dquote] @ ''type'' @ [dquote] @ '':'' @ [dquote] @ ''temporary'' @ [dquote] @ ''}'')"
    by (simp add: license_request_def kKeyIdB64_encodes)
  then have "sublist kKeyIdB64 (license_request [kKeyId])" unfolding sublist_def by blast
  then have "find_sub kKeyIdB64 (license_request [kKeyId]) \<noteq> None" by (simp add: find_sub_None)
  then show "str_find (license_request [kKeyId]) kKeyIdB64 0 \<noteq> None" by (simp add: str_find_def)
qed

definition after_request :: "cdm \<Rightarrow> addr \<Rightarrow> cdm" where
  "after_request c0 a = construct_ok c0 a (Some all_callbacks) 0 [kKeyId]"

lemma request_outcome:
  "opencdm_construct_session c0 (Some sys) (Some ''keyids'') (Some (toBytes kInitDataJson))
      (word_of_nat (length (toBytes kInitDataJson))) (Some all_callbacks) 0 (Some None) (Some a)
    = Some (after_request c0 a, Some (Some a), ERROR_NONE)"
  "events (after_request c0 a) = events c0 @ [challenge_event a 0 [kKeyId]]"
  unfolding kInitData_keyids after_request_def
  using construct_keyids [of "[kKeyId]"] kKeyId_sizes test_data_sizes(1)
  by (simp_all add: construct_ok_def all_callbacks_def)

lemma response_outcome:
  obtains c2 where
    "opencdm_session_update (after_request c0 a) (Some a) (Some (toBytes kJwkResponse))
        (word_of_nat (length (toBytes kJwkResponse))) = Some (c2, ERROR_NONE)"
    "events c2 = events (after_request c0 a) @ [KeyUpdate a 0 kKeyId 16, KeysUpdated a 0]"
    "opencdm_session_status c2 (Some a) (Some kKeyId) (word_of_nat (length kKeyId)) = Some Usable"
    "opencdm_session_has_key_id c2 (Some a) (word_of_nat (length kKeyId)) (Some kKeyId) = Some 1"
    "opencdm_session_has_key_id c2 (Some a) (word_of_nat (length (replicate 16 0x99 :: bytes))) (Some (replicate 16 0x99)) = Some 0"
proof -
  obtain x where x: "sessions (after_request c0 a) a = Some x" "\<not> closed x" "keys x = Map.empty"
    "callbacks x = Some all_callbacks" "userData x = 0"
    by (simp add: after_request_def construct_ok_def)
  let ?x2 = "store.put_all x [(kKeyId, kKey)]"
  let ?c2 = "(after_request c0 a)\<lparr>sessions := (sessions (after_request c0 a))(a \<mapsto> ?x2),
      events := events (after_request c0 a) @ update_events a x (map fst [(kKeyId, kKey)])\<rparr>"
  have keys: "has_key ?x2 q \<longleftrightarrow> q = kKeyId" for q using x by (simp add: put_key_def has_key_def)
  have "opencdm_session_update (after_request c0 a) (Some a) (Some (toBytes kJwkResponse))
      (word_of_nat (length (toBytes kJwkResponse))) = Some (?c2, ERROR_NONE)"
    unfolding kJwkResponse_license using x kKeyId_sizes test_data_sizes(2)
    by (intro update_response) simp_all
  moreover have "events ?c2 = events (after_request c0 a) @ [KeyUpdate a 0 kKeyId 16, KeysUpdated a 0]"
    using x by (simp add: update_events_def all_callbacks_def kKeyId_sizes)
  moreover have "opencdm_session_status ?c2 (Some a) (Some kKeyId) (word_of_nat (length kKeyId)) = Some Usable"
    using keys kKeyId_sizes status_result [of ?c2 a ?x2 kKeyId] by simp
  moreover have "opencdm_session_has_key_id ?c2 (Some a) (word_of_nat (length kKeyId)) (Some kKeyId) = Some 1"
    using keys kKeyId_sizes by (simp add: opencdm_session_has_key_id_def read_buffer_def)
  moreover have "opencdm_session_has_key_id ?c2 (Some a) (word_of_nat (length (replicate 16 0x99 :: bytes)))
      (Some (replicate 16 0x99)) = Some 0"
    using keys kKeyId_sizes(4) [symmetric] by (simp add: opencdm_session_has_key_id_def read_buffer_def)
  ultimately show ?thesis by (rule that)
qed

text \<open>C30: The positive key cases pass against the suite's own backend.  When the library is made, gives
  a session and forwards to the ClearKey backend in whatever state, then the case that asks for
  a license and the case that applies the response both pass, and so does the selection case
  when its call does not report an unknown session: the literals of the test are the key id and
  key they stand for, the backend's request names that id, and its response makes it usable.\<close>

theorem backend_passes_key_cases:
  assumes "session_made env v" "forwards env c0 sys a"
  shows "passed (run_case (GenerateRequestDeliversLicenseRequest env v) fresh_key_session)
     \<and> passed (run_case (UpdateSessionSurfacesUsableKeyStatus env v) fresh_key_session)
     \<and> (passed (run_case (SelectKeyIdAnswersForValidSession env v) fresh_key_session)
          \<longleftrightarrow> answers env 7 (SelectKeyId (session_of env) kKeyId) \<noteq> BAD_SESSION_ID)"
proof -
  obtain c2 where c2:
    "opencdm_session_update (after_request c0 a) (Some a) (Some (toBytes kJwkResponse))
        (word_of_nat (length (toBytes kJwkResponse))) = Some (c2, ERROR_NONE)"
    "events c2 = events (after_request c0 a) @ [KeyUpdate a 0 kKeyId 16, KeysUpdated a 0]"
    "opencdm_session_status c2 (Some a) (Some kKeyId) (word_of_nat (length kKeyId)) = Some Usable"
    "opencdm_session_has_key_id c2 (Some a) (word_of_nat (length kKeyId)) (Some kKeyId) = Some 1"
    "opencdm_session_has_key_id c2 (Some a) (word_of_nat (length (replicate 16 0x99 :: bytes))) (Some (replicate 16 0x99)) = Some 0"
    by (rule response_outcome)
  let ?sid = "session_of env"
  have quiet: "key_events env k = []" if "k \<noteq> 4" "k \<noteq> 6" for k
    using assms(2) that by (simp add: forwards_def Let_def)
  have four: "key_events env 4 = [LicenseRequest ?sid (bytes_of_string (license_request [kKeyId])) '''']"
    using assms(2) by (simp add: forwards_def Let_def request_outcome challenge_event_def request_names_key)
  have six: "key_events env 6 = [KeyStatusesChanged ?sid [(kKeyId, USABLE)]]"
    using assms(2) c2 by (simp add: forwards_def Let_def request_outcome status_as_def)
  have answered: "answers env 3 (GenerateRequest ?sid KEY_IDS (toBytes kInitDataJson)) = MK_OK"
    "answers env 5 (UpdateSession ?sid (toBytes kJwkResponse)) = MK_OK"
    "yes (key_answer env 9 (ContainsKey ?sid kKeyId))" "\<not> yes (key_answer env 10 (ContainsKey ?sid (replicate 16 0x99)))"
    using assms(2) c2 by (simp_all add: forwards_def Let_def request_outcome)
  have heard: "licenses (heard env k) = (if k \<le> 4 then [] else [(?sid, bytes_of_string (license_request [kKeyId]))])"
    "key_updates (heard env k) = (if k \<le> 6 then [] else [(?sid, [(kKeyId, USABLE)])])" for k
  proof (induction k)
    case (Suc k)
    have step: "licenses (heard env (Suc k)) = licenses (heard env k)
        @ (if k = 4 then [(?sid, bytes_of_string (license_request [kKeyId]))] else [])"
      "key_updates (heard env (Suc k)) = key_updates (heard env k)
        @ (if k = 6 then [(?sid, [(kKeyId, USABLE)])] else [])" if "2 \<le> k"
      unfolding heard_Suc [OF that] using four six quiet [of k] by (cases "k = 4"; cases "k = 6"; simp)+
    have none: "heard env (Suc k) = []" if "k < 2" using that by (simp add: heard_def)
    { case 1 show ?case using step(1) none Suc.IH(1) by (cases "2 \<le> k") auto }
    { case 2 show ?case using step(2) none Suc.IH(2) by (cases "2 \<le> k") auto }
  qed (simp_all add: heard_def)
  show ?thesis
    unfolding generate_request_verdict update_session_verdict select_key_verdict Let_def
    using assms(1) answered by (simp add: heard request_names_key(2))
qed

text \<open>A library that forwards to the backend, with the session called 3.\<close>

definition forwarding_library :: media_keys where
  "forwarding_library =
     \<lparr>key_answer = (\<lambda>t c. \<lparr>status = MK_OK, yes = (c \<noteq> ContainsKey 3 (replicate 16 0x99)), session_out = Some 3, name_out = Some ''s''\<rparr>),
      key_events = (\<lambda>t. if t = 4 then [LicenseRequest 3 (bytes_of_string (license_request [kKeyId])) '''']
                       else if t = 6 then [KeyStatusesChanged 3 [(kKeyId, USABLE)]] else []),
      retains = (\<lambda>_. False)\<rparr>"

theorem backend_passes_key_cases_witness:
  "passed (run_case (UpdateSessionSurfacesUsableKeyStatus forwarding_library Proceed) fresh_key_session)"
proof -
  obtain c2 where c2:
    "opencdm_session_update (after_request sample_cdm 5) (Some 5) (Some (toBytes kJwkResponse))
        (word_of_nat (length (toBytes kJwkResponse))) = Some (c2, ERROR_NONE)"
    "events c2 = events (after_request sample_cdm 5) @ [KeyUpdate 5 0 kKeyId 16, KeysUpdated 5 0]"
    "opencdm_session_status c2 (Some 5) (Some kKeyId) (word_of_nat (length kKeyId)) = Some Usable"
    "opencdm_session_has_key_id c2 (Some 5) (word_of_nat (length kKeyId)) (Some kKeyId) = Some 1"
    "opencdm_session_has_key_id c2 (Some 5) (word_of_nat (length (replicate 16 0x99 :: bytes))) (Some (replicate 16 0x99)) = Some 0"
    by (rule response_outcome)
  have made: "session_made forwarding_library Proceed" "session_of forwarding_library = 3"
    by (simp_all add: session_made_def keys_made_def session_of_def forwarding_library_def)
  have "yes (key_answer forwarding_library t (ContainsKey 3 kid)) \<longleftrightarrow> kid \<noteq> replicate 16 0x99"
    "answers forwarding_library t c = MK_OK" for t kid c
    by (simp_all add: forwarding_library_def)
  moreover have "key_events forwarding_library k = (if k = 4 then [LicenseRequest 3 (bytes_of_string (license_request [kKeyId])) '''']
      else if k = 6 then [KeyStatusesChanged 3 [(kKeyId, USABLE)]] else [])" for k
    by (simp add: forwarding_library_def)
  ultimately have "forwards forwarding_library sample_cdm 1 5"
    unfolding forwards_def Let_def made(2) request_outcome
    using c2 kKeyId_sizes(4) by (auto simp: request_outcome challenge_event_def request_names_key status_as_def)
  from backend_passes_key_cases [OF made(1) this] show ?thesis by blast
qed

end
