(* ===== verification/Memory_Usage.thy ===== *)
theory Memory_Usage
  imports Ut_Case
begin

text \<open>
  The memory-growth guard (\<open>src/L3_group/native/MemoryUsageTests.cpp\<close>): the two readers of
  \<open>/proc\<close> and the case.  The directory listing and the file contents are parameters, by the time
  they are read; a reading of \<open>-1\<close> means the figure is unavailable.
\<close>

section \<open>Reading numbers as the C library does\<close>

definition newline :: char where "newline = CHR 0x0A"

definition is_space :: "char \<Rightarrow> bool" where
  "is_space c \<longleftrightarrow> of_char c = (32 :: nat) \<or> (9 :: nat) \<le> of_char c \<and> of_char c \<le> (13 :: nat)"

text \<open>\<open>strtol(s, &end, 10)\<close>: the value, clamped to the range of \<open>long\<close>, and the text from \<open>end\<close>;
  \<open>None\<close> where no conversion is made.\<close>

definition strtol :: "string \<Rightarrow> (int \<times> string) option" where
  "strtol s =
     (let s1 = dropWhile is_space s;
          negative = (s1 \<noteq> [] \<and> hd s1 = CHR ''-'');
          s2 = (if s1 \<noteq> [] \<and> (hd s1 = CHR ''-'' \<or> hd s1 = CHR ''+'') then tl s1 else s1);
          digits = takeWhile is_digit s2;
          n = int (dec_val 0 digits)
      in if digits = [] then None
         else Some (max (- (2 ^ 63)) (min (2 ^ 63 - 1) (if negative then - n else n)), dropWhile is_digit s2))"

section \<open>The readers\<close>

type_synonym files = "string \<Rightarrow> string option"

definition proc_path :: "int \<Rightarrow> string \<Rightarrow> string" where
  "proc_path pid leaf =
     ''/proc/'' @ (if pid < 0 then ''-'' @ to_dec (nat (- pid)) else to_dec (nat pid)) @ ''/'' @ leaf"

text \<open>The \<open>getline\<close> loop over what is left of the file.\<close>

function read_field :: "string \<Rightarrow> string \<Rightarrow> int" where
  "read_field field s =
     (if s = [] then - 1
      else let line = takeWhile (\<lambda>c. c \<noteq> newline) s
           in if take (length field) line = field
              then (case strtol (drop (length field) line) of None \<Rightarrow> - 1 | Some (kb, _) \<Rightarrow> kb)
              else read_field field (drop 1 (dropWhile (\<lambda>c. c \<noteq> newline) s)))"
  by pat_completeness auto
termination
proof (relation "measure (\<lambda>(_, s). length s)")
  fix field s :: string
  assume "s \<noteq> []"
  then have "0 < length s" by simp
  moreover have "length (dropWhile (\<lambda>c. c \<noteq> newline) s) \<le> length s" by (rule length_dropWhile_le)
  ultimately have "length (drop 1 (dropWhile (\<lambda>c. c \<noteq> newline) s)) < length s"
    unfolding length_drop by linarith
  then show "((field, drop 1 (dropWhile (\<lambda>c. c \<noteq> newline) s)), field, s) \<in> measure (\<lambda>(_, s). length s)" by simp
qed simp

declare read_field.simps [simp del]

definition readStatusKb :: "files \<Rightarrow> int \<Rightarrow> string \<Rightarrow> int" where
  "readStatusKb fs pid field =
     (case fs (proc_path pid ''status'') of None \<Rightarrow> - 1 | Some content \<Rightarrow> read_field field content)"

definition readSelfRssKb :: "files \<Rightarrow> int \<Rightarrow> int" where
  "readSelfRssKb fs self = readStatusKb fs self ''VmRSS:''"

definition kServerComm :: string where "kServerComm = ''RialtoServer''"

text \<open>The \<open>readdir\<close> loop; \<open>None\<close> is a directory that cannot be opened.\<close>

fun scan_entries :: "files \<Rightarrow> string list \<Rightarrow> int" where
  "scan_entries fs [] = - 1"
| "scan_entries fs (name # names) =
     (case strtol name of
        None \<Rightarrow> scan_entries fs names
      | Some (pid, rest) \<Rightarrow>
          if rest \<noteq> [] \<or> pid \<le> 0 then scan_entries fs names
          else case fs (proc_path pid ''comm'') of
            None \<Rightarrow> scan_entries fs names
          | Some content \<Rightarrow>
              if takeWhile (\<lambda>c. c \<noteq> newline) content = kServerComm then pid else scan_entries fs names)"

definition findServerPid :: "files \<Rightarrow> string list option \<Rightarrow> int" where
  "findServerPid fs dir = (case dir of None \<Rightarrow> - 1 | Some names \<Rightarrow> scan_entries fs names)"

section \<open>The case\<close>

definition kWarmupCycles :: nat where "kWarmupCycles = 25"
definition kMeasureCycles :: nat where "kMeasureCycles = 250"
definition kTolerancePercent :: int where "kTolerancePercent = 10"
definition kMinToleranceKb :: int where "kMinToleranceKb = 4096"

text \<open>\<open>has_caps i\<close>: is the \<open>i\<close>-th capabilities object created; \<open>at_base\<close> and \<open>at_end\<close> are the files
  at the two samples.\<close>

record proc_env =
  has_factory :: bool
  has_caps :: "nat \<Rightarrow> bool"
  at_base :: files
  at_end :: files
  self_pid :: int

record churn_session = report +
  created :: nat
  queried :: nat

definition fresh_churn :: churn_session where
  "fresh_churn = \<lparr>checks = [], ignored = False, created = 0, queried = 0\<rparr>"

definition churn_once :: "proc_env \<Rightarrow> (churn_session, unit) state" where
  "churn_once env = State (\<lambda>s. ((), s\<lparr>created := created s + 1,
     queried := (if has_caps env (created s) then queried s + 1 else queried s)\<rparr>))"

primrec churn :: "proc_env \<Rightarrow> nat \<Rightarrow> (churn_session, unit) state" where
  "churn env 0 = State_Monad.return ()"
| "churn env (Suc cycles) = do { churn_once env; churn env cycles }"

definition CapabilitiesLifecycleChurnDoesNotLeak :: "proc_env \<Rightarrow> verdict \<Rightarrow> (churn_session, unit) state" where
  "CapabilitiesLifecycleChurnDoesNotLeak env v = gated v (fatal (has_factory env) (do {
     churn env kWarmupCycles;
     let selfBaseKb = readSelfRssKb (at_base env) (self_pid env);
     if selfBaseKb \<le> 0 then ignore_test
     else do {
       churn env kMeasureCycles;
       let selfEndKb = readSelfRssKb (at_end env) (self_pid env);
       let selfGrowthKb = selfEndKb - selfBaseKb;
       let toleranceKb = max kMinToleranceKb (selfBaseKb * kTolerancePercent div 100);
       check (selfGrowthKb \<le> toleranceKb) } }))"

section \<open>Correctness\<close>

lemma takeWhile_line: "newline \<notin> set l \<Longrightarrow> takeWhile (\<lambda>c. c \<noteq> newline) (l @ newline # r) = l"
  by (induction l) auto

lemma dropWhile_line: "newline \<notin> set l \<Longrightarrow> dropWhile (\<lambda>c. c \<noteq> newline) (l @ newline # r) = newline # r"
  by (induction l) auto

lemma space_no_digit: "is_digit c \<Longrightarrow> \<not> is_space c \<and> c \<noteq> CHR ''-'' \<and> c \<noteq> CHR ''+'' \<and> c \<noteq> newline"
  by (auto simp: is_digit_def is_space_def newline_def less_eq_char_def)

lemma strtol_decimal:
  assumes "\<forall>c\<in>set ws. is_space c" "int n < 2 ^ 63" "r = [] \<or> \<not> is_digit (hd r)"
  shows "strtol (ws @ to_dec n @ r) = Some (int n, r)"
proof -
  have d: "\<forall>c\<in>set (to_dec n). is_digit c" using to_dec_digits by blast
  then have h: "is_digit (hd (to_dec n))" by simp
  have ws: "dropWhile is_space (ws @ to_dec n @ r) = to_dec n @ r"
    using assms(1) h space_no_digit by (cases "to_dec n") (auto simp: dropWhile_append)
  have "takeWhile is_digit (to_dec n @ r) = to_dec n" "dropWhile is_digit (to_dec n @ r) = r"
    using d assms(3) by (cases r; simp)+
  then show ?thesis
    using ws h space_no_digit [OF h] assms(2) by (simp add: strtol_def Let_def hd_append)
qed

lemma read_field_skip:
  "newline \<notin> set l \<Longrightarrow> take (length field) l \<noteq> field \<Longrightarrow> read_field field (l @ newline # r) = read_field field r"
  by (subst read_field.simps) (simp add: takeWhile_line dropWhile_line Let_def)

text \<open>The reader finds the figure of a status file as the kernel writes it: past any lines that do
  not begin with the field, it reads the number after the field, whatever blanks precede it.\<close>

lemma readStatusKb_reads:
  assumes "fs (proc_path pid ''status'') =
      Some (concat (map (\<lambda>l. l @ [newline]) ls) @ field @ ws @ to_dec n @ '' kB'' @ [newline] @ rest)"
    and "\<forall>l\<in>set ls. newline \<notin> set l \<and> take (length field) l \<noteq> field" "newline \<notin> set field"
    and "\<forall>c\<in>set ws. is_space c \<and> c \<noteq> newline" "int n < 2 ^ 63"
  shows "readStatusKb fs pid field = int n"
proof -
  let ?line = "field @ ws @ to_dec n @ '' kB''"
  have digits: "newline \<notin> set (to_dec n)" using to_dec_digits space_no_digit by blast
  have line: "newline \<notin> set ?line" using assms(3,4) digits by (auto simp: newline_def)
  have "strtol (ws @ to_dec n @ '' kB'') = Some (int n, '' kB'')"
    using assms(4,5) by (intro strtol_decimal) (auto simp: is_digit_def less_eq_char_def)
  then have hit: "read_field field (?line @ newline # rest) = int n"
    by (subst read_field.simps) (simp only: takeWhile_line [OF line], simp add: Let_def)
  have "read_field field (concat (map (\<lambda>l. l @ [newline]) ls) @ ?line @ newline # rest) = int n"
    using assms(2)
  proof (induction ls)
    case Nil
    show ?case using hit by simp
  next
    case (Cons l ls)
    then show ?case using read_field_skip [of l field] by simp
  qed
  with assms(1) show ?thesis by (simp add: readStatusKb_def)
qed

lemma readStatusKb_reads_witness:
  "readStatusKb (\<lambda>_. Some (''Name:x'' @ [newline] @ ''VmRSS:  1234 kB'' @ [newline])) 1 ''VmRSS:'' = 1234"
proof -
  have d: "to_dec 1234 = ''1234''" by code_simp
  have "readStatusKb (\<lambda>_. Some (''Name:x'' @ [newline] @ ''VmRSS:  1234 kB'' @ [newline])) 1 ''VmRSS:'' = int 1234"
    by (rule readStatusKb_reads [where ls = "[''Name:x'']" and ws = "''  ''" and n = 1234 and rest = "[]"])
      (simp_all add: d newline_def is_space_def)
  then show ?thesis by simp
qed

text \<open>A directory entry that is the server's process.\<close>

definition server_entry :: "files \<Rightarrow> string \<Rightarrow> bool" where
  "server_entry fs name \<longleftrightarrow>
     (\<exists>pid content. strtol name = Some (pid, []) \<and> 0 < pid \<and> fs (proc_path pid ''comm'') = Some content
        \<and> takeWhile (\<lambda>c. c \<noteq> newline) content = ''RialtoServer'')"

lemma scan_entries_find:
  "scan_entries fs names = (case find (server_entry fs) names of None \<Rightarrow> - 1 | Some name \<Rightarrow> fst (the (strtol name)))"
proof (induction names)
  case (Cons name names)
  then show ?case
    by (auto simp: server_entry_def kServerComm_def split: option.splits)
qed simp

text \<open>The server's process is the first entry of the listing that is a positive number and whose
  process is called \<open>RialtoServer\<close>; the answer is \<open>-1\<close> exactly when there is none, so a pid
  that is found is positive.\<close>

lemma findServerPid_first:
  "findServerPid fs dir = (case dir of None \<Rightarrow> - 1
     | Some names \<Rightarrow> (case find (server_entry fs) names of None \<Rightarrow> - 1 | Some name \<Rightarrow> fst (the (strtol name))))"
  by (simp add: findServerPid_def scan_entries_find split: option.split)

text \<open>How many of the objects from the \<open>a\<close>-th to before the \<open>b\<close>-th could be created.\<close>

definition caps_in :: "proc_env \<Rightarrow> nat \<Rightarrow> nat \<Rightarrow> nat" where
  "caps_in env a b = length (filter (has_caps env) [a..<b])"

lemma caps_in_add: "a \<le> b \<Longrightarrow> b \<le> c \<Longrightarrow> caps_in env a b + caps_in env b c = caps_in env a c"
  using upt_add_eq_append [of a b "c - b"] by (simp add: caps_in_def)

lemma caps_in_empty [simp]: "caps_in env a a = 0"
  by (simp add: caps_in_def)

lemma run_churn [simp]:
  "run_state (churn env n) s =
     ((), s\<lparr>created := created s + n, queried := queried s + caps_in env (created s) (created s + n)\<rparr>)"
proof (induction n arbitrary: s)
  case (Suc n)
  have "caps_in env k (k + Suc n) = (if has_caps env k then 1 else 0) + caps_in env (Suc k) (Suc k + n)" for k
    using caps_in_add [of k "Suc k" "k + Suc n" env] by (simp add: caps_in_def split: if_splits)
  with Suc show ?case by (simp add: churn_once_def)
qed simp


end
