(* ===== verification/Sink_Registry.thy ===== *)
theory Sink_Registry
  imports Complex_Main Ut_Case
begin

text \<open>
  What the sink cases see of GStreamer and of the native capabilities interface: the element
  factories by name (\<open>include/conformance/Surfaces.h\<close>), an element's pad-template caps, its
  installed properties and their values.  GStreamer, the sink plugin and the Rialto library are
  not part of this repository: what they answer is the argument \<open>platform\<close>.
\<close>

definition kAudioSink :: string where "kAudioSink = ''rialtomseaudiosink''"
definition kVideoSink :: string where "kVideoSink = ''rialtomsevideosink''"
definition kSubtitleSink :: string where "kSubtitleSink = ''rialtomsesubtitlesink''"

text \<open>An installed property: its specification, with default, minimum and maximum where it has them.\<close>

datatype param_spec =
    ParamDouble real real real
  | ParamBoolean bool
  | ParamOther

text \<open>\<open>template_caps\<close> says of a caps string whether it is a subset of what the sink's \<open>"sink"\<close> pad
  template advertises (\<open>None\<close>: there is no such template or it has no caps); \<open>property\<close> is what
  \<open>g_object_class_find_property\<close> finds, the values are what \<open>g_object_get\<close> writes, if anything.\<close>

record sink_element =
  template_caps :: "(string \<Rightarrow> bool) option"
  property :: "string \<Rightarrow> param_spec option"
  boolean_value :: "string \<Rightarrow> bool option"
  double_value :: "string \<Rightarrow> real option"

datatype MediaSourceType = AUDIO | VIDEO | SUBTITLE | UNKNOWN

record platform =
  capabilities_factory :: bool
  capabilities_object :: bool
  supported_mimes :: "MediaSourceType \<Rightarrow> string list"
  supported_properties :: "MediaSourceType \<Rightarrow> string list \<Rightarrow> string list"
  video_master :: "bool \<times> bool"
  factory_make :: "string \<Rightarrow> sink_element option"

text \<open>A case that uses a property through the wrong cast has crashed.\<close>

record sink_case = report +
  crashed :: bool

definition fresh_sink_case :: sink_case where
  "fresh_sink_case = \<lparr>checks = [], ignored = False, crashed = False\<rparr>"

definition crash :: "('c sink_case_scheme, unit) state" where
  "crash = State (\<lambda>s. ((), s\<lparr>crashed := True\<rparr>))"

definition sink_passed :: "'c sink_case_scheme \<Rightarrow> bool" where
  "sink_passed s \<longleftrightarrow> passed s \<and> \<not> crashed s"

text \<open>A loop whose body may return from the case: \<open>body x k\<close> goes on with \<open>k\<close>.\<close>

fun each_then :: "'a list \<Rightarrow> ('a \<Rightarrow> ('s, unit) state \<Rightarrow> ('s, unit) state) \<Rightarrow> ('s, unit) state \<Rightarrow> ('s, unit) state" where
  "each_then [] body k = k"
| "each_then (x # xs) body k = body x (each_then xs body k)"

definition with_capabilities :: "platform \<Rightarrow> (sink_case, unit) state \<Rightarrow> (sink_case, unit) state" where
  "with_capabilities p rest = fatal (capabilities_factory p) (fatal (capabilities_object p) rest)"

lemma run_crash [case_simps]: "run_case crash s = s\<lparr>crashed := True\<rparr>"
  by (simp add: crash_def run_case_def)

lemma sink_passed_simps [simp]:
  "sink_passed fresh_sink_case" "\<not> sink_passed (s\<lparr>crashed := True\<rparr>)" "\<not> sink_passed (s\<lparr>ignored := True\<rparr>)"
  "sink_passed (s\<lparr>checks := checks s @ bs\<rparr>) \<longleftrightarrow> sink_passed s \<and> list_all (\<lambda>b. b) bs"
  by (auto simp: sink_passed_def passed_def fresh_sink_case_def)

section \<open>Verdicts of computations\<close>

text \<open>\<open>decides m P\<close>: the computation \<open>m\<close> leaves a case as good as it was exactly when \<open>P\<close> holds,
  whatever was recorded before it.\<close>

definition decides :: "('c sink_case_scheme, 'a) state \<Rightarrow> bool \<Rightarrow> bool" where
  "decides m P \<longleftrightarrow> (\<forall>s. sink_passed (snd (run_state m s)) \<longleftrightarrow> sink_passed s \<and> P)"

named_theorems decide_rules

lemma decides_eq: "decides m P \<Longrightarrow> (P \<longleftrightarrow> Q) \<Longrightarrow> decides m Q"
  by simp

lemma decides_run_case: "decides m P \<Longrightarrow> sink_passed s \<Longrightarrow> sink_passed (run_case m s) \<longleftrightarrow> P"
  by (simp add: decides_def run_case_def)

lemma decides_return [decide_rules]: "decides (State_Monad.return x) True"
  by (simp add: decides_def)

lemma decides_check [decide_rules]: "decides (check b) b"
  by (simp add: decides_def check_def)

lemma decides_crash [decide_rules]: "decides crash False"
  by (simp add: decides_def crash_def)

lemma decides_ignore_test [decide_rules]: "decides ignore_test False"
  by (simp add: decides_def ignore_test_def sink_passed_def)

text \<open>Sequencing, for steps without a result and for results that do not depend on the report.\<close>

lemma decides_then [decide_rules]: "decides m P \<Longrightarrow> decides n Q \<Longrightarrow> decides (State_Monad.bind m (\<lambda>_. n)) (P \<and> Q)"
  by (simp add: decides_def split_beta conj_assoc)

lemma decides_fatal [decide_rules]: "(b \<Longrightarrow> decides m P) \<Longrightarrow> decides (fatal b m) (b \<and> P)"
  by (cases b) (auto simp: decides_def fatal_def)

lemma decides_fatal_some [decide_rules]:
  "(\<And>x. r = Some x \<Longrightarrow> decides (m x) (P x)) \<Longrightarrow> decides (fatal_some r m) (case r of None \<Rightarrow> False | Some x \<Rightarrow> P x)"
  by (cases r) (auto simp: decides_def fatal_some_def)

lemma decides_gated [decide_rules]: "decides m P \<Longrightarrow> decides (gated v m) (v = Proceed \<and> P)"
  by (cases v) (auto simp: gated_def decides_def ignore_test_def sink_passed_def)

lemma decides_if [decide_rules]:
  "(b \<Longrightarrow> decides m P) \<Longrightarrow> (\<not> b \<Longrightarrow> decides n Q) \<Longrightarrow> decides (if b then m else n) (if b then P else Q)"
  by simp

lemma decides_let [decide_rules]: "decides (m x) (P x) \<Longrightarrow> decides (let y = x in m y) (let y = x in P y)"
  by simp

lemma decides_prod [decide_rules]:
  "(\<And>a b. p = (a, b) \<Longrightarrow> decides (m a b) (P a b)) \<Longrightarrow> decides (case p of (a, b) \<Rightarrow> m a b) (case p of (a, b) \<Rightarrow> P a b)"
  by (cases p) simp

lemma decides_for_each [decide_rules]:
  "(\<And>x. x \<in> set xs \<Longrightarrow> decides (m x) (P x)) \<Longrightarrow> decides (for_each xs m) (list_all P xs)"
proof (induction xs)
  case (Cons x xs)
  then show ?case using decides_then [of "m x" "P x" "for_each xs m"] by simp
qed (simp add: decides_return)

end
