(* ===== verification/Consistency_Cases.thy ===== *)
theory Consistency_Cases
  imports Sink_Registry
begin

text \<open>
  The cross-surface cases (\<open>src/L2_module/both/CapabilityConsistencyTests.cpp\<close>): the facts that the
  native interface and the sinks both answer are compared.
\<close>

section \<open>Caps\<close>

definition kMimeToCaps :: "(string \<times> string list) list" where
  "kMimeToCaps = [
     (''audio/mp4'', [''audio/mpeg, mpegversion=1'', ''audio/mpeg, mpegversion=2'', ''audio/mpeg, mpegversion=4'']),
     (''audio/mp3'', [''audio/mpeg, mpegversion=1'', ''audio/mpeg, mpegversion=2'']),
     (''audio/aac'', [''audio/mpeg, mpegversion=2'', ''audio/mpeg, mpegversion=4'']),
     (''audio/x-eac3'', [''audio/x-ac3'', ''audio/x-eac3'']),
     (''audio/x-opus'', [''audio/x-opus'']),
     (''audio/b-wav'', [''audio/b-wav'']),
     (''audio/x-flac'', [''audio/x-flac'']),
     (''audio/x-raw'', [''audio/x-raw'']),
     (''video/h264'', [''video/x-h264'']),
     (''video/h265'', [''video/x-h265'']),
     (''video/x-av1'', [''video/x-av1'']),
     (''video/x-vp9'', [''video/x-vp9''])]"

definition sinkTemplateCaps :: "platform \<Rightarrow> string \<Rightarrow> (string \<Rightarrow> bool) option" where
  "sinkTemplateCaps p factoryName =
     (case factory_make p factoryName of None \<Rightarrow> None | Some sink \<Rightarrow> template_caps sink)"

definition advertises :: "(string \<Rightarrow> bool) \<Rightarrow> string \<Rightarrow> bool" where
  "advertises advertised capsStr = advertised capsStr"

text \<open>The loop over the native MIME types, with the running count \<open>checked\<close>.\<close>

fun check_mimes :: "(string \<Rightarrow> bool) \<Rightarrow> string list \<Rightarrow> nat \<Rightarrow> (sink_case, nat) state" where
  "check_mimes advertised [] checked = State_Monad.return checked"
| "check_mimes advertised (mime # mimes) checked =
     (case map_of kMimeToCaps mime of
        None \<Rightarrow> check_mimes advertised mimes checked
      | Some mapping \<Rightarrow> do {
          for_each mapping (\<lambda>capsStr. check (advertises advertised capsStr));
          check_mimes advertised mimes (checked + length mapping) })"

definition kSurfacePairs :: "(MediaSourceType \<times> string) list" where
  "kSurfacePairs = [(AUDIO, kAudioSink), (VIDEO, kVideoSink)]"

definition SupportedMimesMatchSinkCaps :: "platform \<Rightarrow> verdict \<Rightarrow> (sink_case, unit) state" where
  "SupportedMimesMatchSinkCaps p v = gated v (with_capabilities p
     (each_then kSurfacePairs (\<lambda>(type, sinkFactory) k.
        fatal_some (sinkTemplateCaps p sinkFactory) (\<lambda>advertised. do {
          checked \<leftarrow> check_mimes advertised (supported_mimes p type) 0;
          check (checked > 0);
          k })) (State_Monad.return ())))"

section \<open>Property contracts\<close>

definition VideoMasterNativeMatchesMse :: "platform \<Rightarrow> verdict \<Rightarrow> (sink_case, unit) state" where
  "VideoMasterNativeMatchesMse p v = gated v (with_capabilities p
     (let (answered, nativeIsMaster) = video_master p in
      fatal answered (fatal_some (factory_make p kVideoSink) (\<lambda>sink.
        let sinkIsMaster = (case boolean_value sink ''is-master'' of None \<Rightarrow> False | Some b \<Rightarrow> b)
        in check (nativeIsMaster = sinkIsMaster)))))"

definition VolumeContractAgreesAcrossSurfaces :: "platform \<Rightarrow> verdict \<Rightarrow> (sink_case, unit) state" where
  "VolumeContractAgreesAcrossSurfaces p v = gated v
     (fatal_some (factory_make p kAudioSink) (\<lambda>sink.
        fatal_some (property sink ''volume'') (\<lambda>spec.
          case spec of
            ParamDouble default_value minimum maximum \<Rightarrow> do {
              check (default_value = 1);
              check (minimum = 0);
              check (maximum = 1);
              check ((case double_value sink ''volume'' of None \<Rightarrow> - 1 | Some x \<Rightarrow> x) = 1) }
          | _ \<Rightarrow> crash)))"

definition MuteContractAgreesAcrossSurfaces :: "platform \<Rightarrow> verdict \<Rightarrow> (sink_case, unit) state" where
  "MuteContractAgreesAcrossSurfaces p v = gated v
     (each_then [kAudioSink, kSubtitleSink] (\<lambda>factoryName k.
        fatal_some (factory_make p factoryName) (\<lambda>sink.
          fatal_some (property sink ''mute'') (\<lambda>spec.
            case spec of
              ParamBoolean default_value \<Rightarrow> do {
                check True;
                check (\<not> default_value);
                check (\<not> (case boolean_value sink ''mute'' of None \<Rightarrow> True | Some b \<Rightarrow> b));
                k }
            | _ \<Rightarrow> check False))) (State_Monad.return ()))"

section \<open>Optional properties\<close>

definition kSurfaces :: "(MediaSourceType \<times> string \<times> string list) list" where
  "kSurfaces =
     [(AUDIO, kAudioSink, [''low-latency'', ''sync'', ''sync-off'', ''stream-sync-mode'', ''limit-buffering-ms'',
         ''audio-fade'', ''fade-volume'']),
      (VIDEO, kVideoSink, [''immediate-output'', ''syncmode-streaming''])]"

text \<open>A sink must not install a gated property the native interface denies.\<close>

definition check_gated :: "sink_element \<Rightarrow> string set \<Rightarrow> string \<Rightarrow> (sink_case, unit) state" where
  "check_gated klass supportedSet name =
     (let nativeSupports = name \<in> supportedSet; sinkInstalls = property klass name \<noteq> None
      in if sinkInstalls then check nativeSupports else State_Monad.return ())"

fun check_surface ::
  "platform \<Rightarrow> MediaSourceType \<times> string \<times> string list \<Rightarrow> (sink_case, unit) state \<Rightarrow> (sink_case, unit) state" where
  "check_surface p (type, sinkFactory, gatedNames) k =
     fatal_some (factory_make p sinkFactory) (\<lambda>klass. do {
       for_each gatedNames (check_gated klass (set (supported_properties p type gatedNames)));
       k })"

definition InstalledOptionalPropertiesAreNativeSupported :: "platform \<Rightarrow> verdict \<Rightarrow> (sink_case, unit) state" where
  "InstalledOptionalPropertiesAreNativeSupported p v = gated v (with_capabilities p
     (each_then kSurfaces (check_surface p) (State_Monad.return ())))"

section \<open>What the cases decide\<close>

definition mapped_caps :: "string \<Rightarrow> string list" where
  "mapped_caps mime = (case map_of kMimeToCaps mime of None \<Rightarrow> [] | Some mapping \<Rightarrow> mapping)"

lemma run_check_mimes:
  "run_state (check_mimes adv mimes n) s =
     (n + length (concat (map mapped_caps mimes)), s\<lparr>checks := checks s @ map adv (concat (map mapped_caps mimes))\<rparr>)"
proof (induction mimes arbitrary: n s)
  case (Cons mime mimes)
  then show ?case by (cases "map_of kMimeToCaps mime") (simp_all add: mapped_caps_def advertises_def)
qed simp

lemma mapping_nonempty: "mapped_caps mime \<noteq> [] \<longleftrightarrow> mime \<in> fst ` set kMimeToCaps"
proof -
  have ne: "\<forall>cs\<in>snd ` set kMimeToCaps. cs \<noteq> []" by (simp add: kMimeToCaps_def)
  then show ?thesis
  proof (cases "map_of kMimeToCaps mime")
    case None
    then have "mime \<notin> fst ` set kMimeToCaps" by (simp add: map_of_eq_None_iff)
    with None show ?thesis by (simp add: mapped_caps_def)
  next
    case (Some cs)
    then have "(mime, cs) \<in> set kMimeToCaps" by (rule map_of_SomeD)
    then have "cs \<noteq> []" "mime \<in> fst ` set kMimeToCaps"
      using ne by force+
    with Some show ?thesis by (simp add: mapped_caps_def)
  qed
qed

text \<open>A surface agrees when its sink is there, every documented translation of a native MIME type is
  advertised, and there is one.\<close>

definition surface_agrees :: "platform \<Rightarrow> MediaSourceType \<Rightarrow> string \<Rightarrow> bool" where
  "surface_agrees p type factoryName \<longleftrightarrow>
     (\<exists>sink adv. factory_make p factoryName = Some sink \<and> template_caps sink = Some adv
        \<and> (\<forall>mime\<in>set (supported_mimes p type). \<forall>caps\<in>set (mapped_caps mime). adv caps)
        \<and> (\<exists>mime\<in>set (supported_mimes p type). mime \<in> fst ` set kMimeToCaps))"

lemma surface_agrees_iff:
  "surface_agrees p type f \<longleftrightarrow>
     (case sinkTemplateCaps p f of None \<Rightarrow> False
      | Some adv \<Rightarrow> list_all adv (concat (map mapped_caps (supported_mimes p type)))
                    \<and> concat (map mapped_caps (supported_mimes p type)) \<noteq> [])"
proof (cases "sinkTemplateCaps p f")
  case None
  then show ?thesis by (auto simp: surface_agrees_def sinkTemplateCaps_def split: option.splits)
next
  case (Some adv)
  then have "surface_agrees p type f \<longleftrightarrow>
      (\<forall>mime\<in>set (supported_mimes p type). \<forall>caps\<in>set (mapped_caps mime). adv caps)
      \<and> (\<exists>mime\<in>set (supported_mimes p type). mapped_caps mime \<noteq> [])"
    by (auto simp: surface_agrees_def sinkTemplateCaps_def mapping_nonempty split: option.splits)
  with Some show ?thesis by (auto simp: list_all_iff)
qed

text \<open>The MIME case decides the agreement of the two surfaces: it passes exactly when the
  capabilities object is made and, for audio and for video, the sink advertises every caps the
  documented table gives for a MIME type the native interface reports, and at least one reported
  type has an entry.\<close>

lemma mime_case_verdict:
  "sink_passed (run_case (SupportedMimesMatchSinkCaps p v) fresh_sink_case) \<longleftrightarrow>
     v = Proceed \<and> capabilities_factory p \<and> capabilities_object p
     \<and> surface_agrees p AUDIO ''rialtomseaudiosink'' \<and> surface_agrees p VIDEO ''rialtomsevideosink''"
  unfolding surface_agrees_iff kAudioSink_def [symmetric] kVideoSink_def [symmetric]
  by (cases v; cases "sinkTemplateCaps p kAudioSink"; cases "sinkTemplateCaps p kVideoSink")
    (auto simp: SupportedMimesMatchSinkCaps_def with_capabilities_def kSurfacePairs_def case_simps run_check_mimes
      list.pred_map comp_def sink_passed_def passed_def fresh_sink_case_def)

lemma run_check_gated:
  "run_state (for_each names (check_gated klass N)) s
     = ((), s\<lparr>checks := checks s @ map (\<lambda>name. name \<in> N) (filter (\<lambda>name. property klass name \<noteq> None) names)\<rparr>)"
  by (induction names arbitrary: s) (simp_all add: check_gated_def Let_def)

lemma run_surfaces:
  "sink_passed (run_case (each_then ls (check_surface p) (State_Monad.return ())) s) \<longleftrightarrow>
     sink_passed s \<and> list_all (\<lambda>(type, f, names). case factory_make p f of None \<Rightarrow> False
       | Some sink \<Rightarrow> set names \<inter> {name. property sink name \<noteq> None} \<subseteq> set (supported_properties p type names)) ls"
proof (induction ls arbitrary: s)
  case (Cons l ls)
  obtain type f names where l: "l = (type, f, names)" by (rule prod_cases3)
  show ?case
  proof (cases "factory_make p f")
    case (Some sink)
    then show ?thesis
      by (simp add: l case_simps run_check_gated Cons.IH) (auto simp: list_all_iff sink_passed_def passed_def)
  qed (simp add: l case_simps)
qed (simp add: case_simps)

text \<open>The optional-property case passes exactly when both sinks exist and neither installs a gated
  property the native interface denies: installed is a subset of supported, and properties the
  native interface reports and the sink lacks do not matter.\<close>

lemma optional_property_verdict:
  "sink_passed (run_case (InstalledOptionalPropertiesAreNativeSupported p v) fresh_sink_case) \<longleftrightarrow>
     v = Proceed \<and> capabilities_factory p \<and> capabilities_object p
     \<and> list_all (\<lambda>(type, f, names). case factory_make p f of None \<Rightarrow> False
          | Some sink \<Rightarrow> set names \<inter> {name. property sink name \<noteq> None} \<subseteq> set (supported_properties p type names)) kSurfaces"
  by (cases v) (simp_all add: InstalledOptionalPropertiesAreNativeSupported_def with_capabilities_def case_simps
    run_surfaces)

lemma contract_verdicts:
  "sink_passed (run_case (VideoMasterNativeMatchesMse p v) fresh_sink_case) \<longleftrightarrow>
     v = Proceed \<and> capabilities_factory p \<and> capabilities_object p \<and> fst (video_master p)
     \<and> (\<exists>sink. factory_make p kVideoSink = Some sink
          \<and> snd (video_master p) = (boolean_value sink ''is-master'' = Some True))"
  "sink_passed (run_case (VolumeContractAgreesAcrossSurfaces p v) fresh_sink_case) \<longleftrightarrow>
     v = Proceed \<and> (\<exists>sink. factory_make p kAudioSink = Some sink
        \<and> property sink ''volume'' = Some (ParamDouble 1 0 1) \<and> double_value sink ''volume'' = Some 1)"
  "sink_passed (run_case (MuteContractAgreesAcrossSurfaces p v) fresh_sink_case) \<longleftrightarrow>
     v = Proceed \<and> (\<forall>f\<in>{kAudioSink, kSubtitleSink}. \<exists>sink. factory_make p f = Some sink
        \<and> property sink ''mute'' = Some (ParamBoolean False) \<and> boolean_value sink ''mute'' = Some False)"
  by (cases v; auto simp: VideoMasterNativeMatchesMse_def VolumeContractAgreesAcrossSurfaces_def
      MuteContractAgreesAcrossSurfaces_def with_capabilities_def case_simps sink_passed_def passed_def fresh_sink_case_def
      Let_def split: option.splits param_spec.splits prod.splits bool.splits)+

end
