(* ===== verification/Listening_Session.thy ===== *)
theory Listening_Session
  imports Ut_Case Polling
begin

text \<open>
  Cases whose client object only records what it is notified of: the control, web-audio and
  log-handler cases.  Every action of the test thread takes one tick; \<open>ev t\<close> is what the library
  delivers to the recorder before the action of tick \<open>t\<close>, or during it for a wait.  \<open>hung\<close> says that
  an operation of the case did not return.
\<close>

record 'e listening = report +
  heard :: "'e list"
  now :: nat
  hung :: bool

definition fresh_listening :: "'e listening" where
  "fresh_listening = \<lparr>checks = [], ignored = False, heard = [], now = 0, hung = False\<rparr>"

definition listening_passed :: "('e, 'r) listening_scheme \<Rightarrow> bool" where
  "listening_passed s \<longleftrightarrow> passed s \<and> \<not> hung s"

definition listen :: "(nat \<Rightarrow> 'e list) \<Rightarrow> ('e, 'r) listening_scheme \<Rightarrow> ('e, 'r) listening_scheme" where
  "listen ev s = s\<lparr>heard := heard s @ ev (now s), now := Suc (now s)\<rparr>"

text \<open>A call answered by \<open>f\<close> at its tick; a look at the recorder; a sleep; a wait.\<close>

definition act :: "(nat \<Rightarrow> 'e list) \<Rightarrow> (nat \<Rightarrow> 'a) \<Rightarrow> (('e, 'r) listening_scheme, 'a) state" where
  "act ev f = State (\<lambda>s. (f (now s), listen ev s))"

definition look :: "(nat \<Rightarrow> 'e list) \<Rightarrow> ('e list \<Rightarrow> 'a) \<Rightarrow> (('e, 'r) listening_scheme, 'a) state" where
  "look ev f = State (\<lambda>s. let s1 = listen ev s in (f (heard s1), s1))"

definition pause :: "(nat \<Rightarrow> 'e list) \<Rightarrow> (('e, 'r) listening_scheme, unit) state" where
  "pause ev = State (\<lambda>s. ((), listen ev s))"

definition wait_heard :: "(nat \<Rightarrow> 'e list) \<Rightarrow> ('e list \<Rightarrow> bool) \<Rightarrow> (('e, 'r) listening_scheme, bool) state" where
  "wait_heard ev cond = State (\<lambda>s.
     (wait_for cond (map (\<lambda>k. heard s @ take k (ev (now s))) [0..<Suc (length (ev (now s)))]), listen ev s))"

definition hang :: "(('e, 'r) listening_scheme, unit) state" where
  "hang = State (\<lambda>s. ((), s\<lparr>hung := True\<rparr>))"

text \<open>The rest of the case after an operation that may not return.\<close>

definition returned :: "'a option \<Rightarrow> ('a \<Rightarrow> (('e, 'r) listening_scheme, unit) state) \<Rightarrow> (('e, 'r) listening_scheme, unit) state" where
  "returned r rest = (case r of None \<Rightarrow> hang | Some x \<Rightarrow> rest x)"

section \<open>Running the actions\<close>

lemma listen_fields [simp]:
  "checks (listen ev s) = checks s" "ignored (listen ev s) = ignored s" "hung (listen ev s) = hung s"
  "heard (listen ev s) = heard s @ ev (now s)" "now (listen ev s) = Suc (now s)"
  "listening.more (listen ev s) = listening.more s"
  by (simp_all add: listen_def)

lemma listen_update [simp]: "listen ev (s\<lparr>checks := cs\<rparr>) = (listen ev s)\<lparr>checks := cs\<rparr>"
  by (simp add: listen_def)

lemma run_actions [simp]:
  "run_state (act ev f) s = (f (now s), listen ev s)"
  "run_state (look ev g) s = (g (heard s @ ev (now s)), listen ev s)"
  "run_state (pause ev) s = ((), listen ev s)"
  by (simp_all add: act_def look_def pause_def Let_def)

lemma listen_times [simp]:
  "now ((listen ev ^^ n) s) = now s + n" "checks ((listen ev ^^ n) s) = checks s"
  "ignored ((listen ev ^^ n) s) = ignored s" "hung ((listen ev ^^ n) s) = hung s"
  by (induction n) simp_all

lemma run_hang [case_simps]: "run_case hang s = s\<lparr>hung := True\<rparr>"
  by (simp add: hang_def run_case_def)

lemma run_returned [case_simps]:
  "run_case (returned r rest) s = (case r of None \<Rightarrow> s\<lparr>hung := True\<rparr> | Some x \<Rightarrow> run_case (rest x) s)"
  by (simp add: returned_def case_simps split: option.split)

section \<open>Waits on a growing record\<close>

definition one_more :: "'e list \<Rightarrow> 'e list \<Rightarrow> bool" where
  "one_more xs ys \<longleftrightarrow> (\<exists>e. ys = xs @ [e])"

interpretation enough: latch one_more "\<lambda>xs. n \<le> length xs" for n
  by unfold_locales (auto simp: one_more_def)

interpretation since: latch one_more "\<lambda>xs. \<exists>e\<in>set (drop n xs). p e" for n p
  by unfold_locales (auto simp: one_more_def)

lemma wakes_one_more: "successively one_more (map (\<lambda>k. xs @ take k ys) [0..<Suc (length ys)])"
  unfolding successively_conv_nth
  by (auto simp: one_more_def take_Suc_conv_app_nth simp del: upt_Suc)

lemma run_waits [simp]:
  "run_state (wait_heard ev (\<lambda>xs. n \<le> length xs)) s = (n \<le> length (heard s @ ev (now s)), listen ev s)"
  "run_state (wait_heard ev (\<lambda>xs. \<exists>e\<in>set (drop n xs). p e)) s =
     ((\<exists>e\<in>set (drop n (heard s @ ev (now s))). p e), listen ev s)"
  unfolding wait_heard_def
  using enough.wait_for_last [OF _ wakes_one_more, of "heard s" "ev (now s)"]
    since.wait_for_last [OF _ wakes_one_more, of "heard s" "ev (now s)"]
  by simp_all

lemma run_wait_member [simp]:
  "run_state (wait_heard ev (\<lambda>xs. e \<in> set (drop n xs))) s = (e \<in> set (drop n (heard s @ ev (now s))), listen ev s)"
  "run_state (wait_heard ev (\<lambda>xs. e \<in> set xs)) s = (e \<in> set (heard s @ ev (now s)), listen ev s)"
  using run_waits(2) [of ev n "\<lambda>x. x = e" s] run_waits(2) [of ev 0 "\<lambda>x. x = e" s] by simp_all

end
