(* ===== verification/Native_Cases.thy ===== *)
theory Native_Cases
  imports Listening_Session
begin

text \<open>
  The cases that query the native client interface without a data path: the factories
  (\<open>FactoryTests.cpp\<close>), creating a pipeline (\<open>PipelineTests.cpp\<close>) and the media capabilities
  (\<open>CapabilitiesTests.cpp\<close>) of \<open>src/L1_function/native\<close>, and setting a pipeline up
  (\<open>src/L2_module/native/PipelineLifecycleTests.cpp\<close>).  The answer to the call made at each tick is
  the argument \<open>native_env\<close>.
\<close>

section \<open>The interface\<close>

datatype MediaSourceType = AUDIO | VIDEO | SUBTITLE | UNKNOWN

datatype native_call =
    ControlFactory
  | PipelineFactory
  | CapabilitiesFactory
  | KeysFactory
  | KeysCapabilitiesFactory
  | WebAudioFactory
  | MakeKeys string
  | MakePipeline u32 u32
  | PipelineClient
  | MakeCapabilities
  | SupportedMimeTypes MediaSourceType
  | MimeTypeSupported string
  | IsVideoMaster
  | SupportedProperties MediaSourceType "string list"
  | LoadMse string bool
  | AttachAudioSource string bool u32 u32
  | AttachVideoSource string bool int int
  | RemoveSource int
  | SourcesAttached
  | ResetPipeline

text \<open>The returned value (true, non-null, or the client supplied), the list returned, and the id the
  source carries afterwards.\<close>

record native_reply =
  granted :: bool
  listed :: "string list"
  source_id :: int

type_synonym native_env = "nat \<Rightarrow> native_call \<Rightarrow> native_reply"
type_synonym native_session = "unit listening"

definition invoke :: "native_env \<Rightarrow> native_call \<Rightarrow> (native_session, native_reply) state" where
  "invoke env c = act (\<lambda>_. []) (\<lambda>t. env t c)"

section \<open>Factories\<close>

definition EveryPublicFactoryIsNonNull :: "native_env \<Rightarrow> verdict \<Rightarrow> (native_session, unit) state" where
  "EveryPublicFactoryIsNonNull env v = gated v
     (for_each [ControlFactory, PipelineFactory, CapabilitiesFactory, KeysFactory, KeysCapabilitiesFactory, WebAudioFactory]
        (\<lambda>c. do { factory \<leftarrow> invoke env c; check (granted factory) }))"

definition kUnsupportedKeySystem :: string where
  "kUnsupportedKeySystem = ''com.example.nonexistent.keysystem''"

definition CreateMediaKeysReturnsNullForUnsupportedKeySystem :: "native_env \<Rightarrow> verdict \<Rightarrow> (native_session, unit) state" where
  "CreateMediaKeysReturnsNullForUnsupportedKeySystem env v = gated v (do {
     factory \<leftarrow> invoke env KeysFactory;
     fatal (granted factory) (do {
       mediaKeys \<leftarrow> invoke env (MakeKeys kUnsupportedKeySystem);
       check (\<not> granted mediaKeys) }) })"

section \<open>Pipelines\<close>

definition kMaxWidth :: u32 where "kMaxWidth = 1920"
definition kMaxHeight :: u32 where "kMaxHeight = 1080"

definition makePipeline :: "native_env \<Rightarrow> (native_session, bool) state" where
  "makePipeline env = do {
     factory \<leftarrow> invoke env PipelineFactory;
     if \<not> granted factory then State_Monad.return False
     else do { pipeline \<leftarrow> invoke env (MakePipeline kMaxWidth kMaxHeight); State_Monad.return (granted pipeline) } }"

definition CreateReturnsInstance :: "native_env \<Rightarrow> verdict \<Rightarrow> (native_session, unit) state" where
  "CreateReturnsInstance env v = gated v (do {
     pipeline \<leftarrow> makePipeline env;
     fatal pipeline (State_Monad.return ()) })"

definition GetClientReturnsSuppliedClient :: "native_env \<Rightarrow> verdict \<Rightarrow> (native_session, unit) state" where
  "GetClientReturnsSuppliedClient env v = gated v (do {
     pipeline \<leftarrow> makePipeline env;
     fatal pipeline (do { returned \<leftarrow> invoke env PipelineClient; check (granted returned) }) })"

section \<open>Capabilities\<close>

definition caps_case :: "native_env \<Rightarrow> verdict \<Rightarrow> (native_session, unit) state \<Rightarrow> (native_session, unit) state" where
  "caps_case env v body = gated v (do {
     factory \<leftarrow> invoke env CapabilitiesFactory;
     fatal (granted factory) (do {
       caps \<leftarrow> invoke env MakeCapabilities;
       fatal (granted caps) body }) })"

definition CreateFactoryAndObject :: "native_env \<Rightarrow> verdict \<Rightarrow> (native_session, unit) state" where
  "CreateFactoryAndObject env v = caps_case env v (State_Monad.return ())"

definition BaselineVideoMimeTypeSupportIsConsistent :: "native_env \<Rightarrow> verdict \<Rightarrow> (native_session, unit) state" where
  "BaselineVideoMimeTypeSupportIsConsistent env v = caps_case env v (do {
     videoMimes \<leftarrow> invoke env (SupportedMimeTypes VIDEO);
     check (listed videoMimes \<noteq> []);
     let inList = (''video/h264'' \<in> set (listed videoMimes));
     first \<leftarrow> invoke env (MimeTypeSupported ''video/h264'');
     check (granted first = inList);
     second \<leftarrow> invoke env (MimeTypeSupported ''video/h264'');
     check (granted second) })"

definition Av1MimeTypeSupportedWhenDeclared :: "native_env \<Rightarrow> verdict \<Rightarrow> (native_session, unit) state" where
  "Av1MimeTypeSupportedWhenDeclared env v = caps_case env v (do {
     av1 \<leftarrow> invoke env (MimeTypeSupported ''video/x-av1'');
     check (granted av1) })"

definition IsVideoMasterReportsStatus :: "native_env \<Rightarrow> verdict \<Rightarrow> (native_session, unit) state" where
  "IsVideoMasterReportsStatus env v = caps_case env v (do {
     master \<leftarrow> invoke env IsVideoMaster;
     check (granted master) })"

definition SupportedMimeTypesPerSourceType :: "native_env \<Rightarrow> verdict \<Rightarrow> (native_session, unit) state" where
  "SupportedMimeTypesPerSourceType env v = caps_case env v (do {
     video \<leftarrow> invoke env (SupportedMimeTypes VIDEO);
     check (listed video \<noteq> []);
     audio \<leftarrow> invoke env (SupportedMimeTypes AUDIO);
     check (listed audio \<noteq> []);
     _ \<leftarrow> invoke env (SupportedMimeTypes SUBTITLE);
     State_Monad.return () })"

definition bogus :: string where "bogus = ''rc-core-nonexistent-property''"

definition queried :: "string list" where
  "queried = [''low-latency'', ''sync'', ''audio-fade'', ''immediate-output'', bogus]"

fun isSubsetOfQuery :: "string list \<Rightarrow> bool" where
  "isSubsetOfQuery [] = True"
| "isSubsetOfQuery (name # names) = (if name \<notin> set queried then False else isSubsetOfQuery names)"

definition SupportedPropertiesContract :: "native_env \<Rightarrow> verdict \<Rightarrow> (native_session, unit) state" where
  "SupportedPropertiesContract env v = caps_case env v (do {
     audio \<leftarrow> invoke env (SupportedProperties AUDIO queried);
     video \<leftarrow> invoke env (SupportedProperties VIDEO queried);
     unknown \<leftarrow> invoke env (SupportedProperties UNKNOWN queried);
     check (isSubsetOfQuery (listed audio));
     check (isSubsetOfQuery (listed video));
     check (isSubsetOfQuery (listed unknown));
     check (bogus \<notin> set (listed unknown));
     for_each (listed audio) (\<lambda>name. check (name \<in> set (listed unknown)));
     for_each (listed video) (\<lambda>name. check (name \<in> set (listed unknown))) })"

section \<open>Setting a pipeline up\<close>

definition kNominalChannels :: u32 where "kNominalChannels = 2"
definition kNominalSampleRate :: u32 where "kNominalSampleRate = 48000"
definition kNominalVideoWidth :: int where "kNominalVideoWidth = 640"
definition kNominalVideoHeight :: int where "kNominalVideoHeight = 360"

definition createAndLoad :: "native_env \<Rightarrow> (native_session, bool) state" where
  "createAndLoad env = do {
     factory \<leftarrow> invoke env PipelineFactory;
     if \<not> granted factory then State_Monad.return False else do {
     pipeline \<leftarrow> invoke env (MakePipeline kMaxWidth kMaxHeight);
     if \<not> granted pipeline then State_Monad.return False else do {
     loaded \<leftarrow> invoke env (LoadMse ''mse://1'' False);
     State_Monad.return (granted loaded) }}}"

definition makeAudioSource :: native_call where
  "makeAudioSource = AttachAudioSource ''audio/mp4'' False kNominalChannels kNominalSampleRate"

definition LoadAttachRemoveSource :: "native_env \<Rightarrow> verdict \<Rightarrow> (native_session, unit) state" where
  "LoadAttachRemoveSource env v = gated v (do {
     pipeline \<leftarrow> createAndLoad env;
     fatal pipeline (do {
       attached \<leftarrow> invoke env makeAudioSource;
       check (granted attached);
       let sourceId = source_id attached;
       check (sourceId \<ge> 0);
       removed \<leftarrow> invoke env (RemoveSource sourceId);
       check (granted removed);
       _ \<leftarrow> invoke env ResetPipeline;
       State_Monad.return () }) })"

definition AllSourcesAttachedIsLegalOnlyOnce :: "native_env \<Rightarrow> verdict \<Rightarrow> (native_session, unit) state" where
  "AllSourcesAttachedIsLegalOnlyOnce env v = gated v (do {
     pipeline \<leftarrow> createAndLoad env;
     fatal pipeline (do {
       attached \<leftarrow> invoke env makeAudioSource;
       check (granted attached);
       first \<leftarrow> invoke env SourcesAttached;
       check (granted first);
       second \<leftarrow> invoke env SourcesAttached;
       check (\<not> granted second);
       _ \<leftarrow> invoke env ResetPipeline;
       State_Monad.return () }) })"

definition MultiSourceAttachComposition :: "native_env \<Rightarrow> verdict \<Rightarrow> (native_session, unit) state" where
  "MultiSourceAttachComposition env v = gated v (do {
     pipeline \<leftarrow> createAndLoad env;
     fatal pipeline (do {
       audio \<leftarrow> invoke env makeAudioSource;
       check (granted audio);
       check (source_id audio \<ge> 0);
       video \<leftarrow> invoke env (AttachVideoSource ''video/h264'' False kNominalVideoWidth kNominalVideoHeight);
       check (granted video);
       check (source_id video \<ge> 0);
       check (source_id audio \<noteq> source_id video);
       first \<leftarrow> invoke env SourcesAttached;
       check (granted first);
       second \<leftarrow> invoke env SourcesAttached;
       check (\<not> granted second);
       _ \<leftarrow> invoke env ResetPipeline;
       State_Monad.return () }) })"

section \<open>What the cases decide\<close>

abbreviation native_passed :: "(native_session, unit) state \<Rightarrow> bool" where
  "native_passed m \<equiv> listening_passed (run_case m fresh_listening)"

lemma run_invoke [simp]: "run_state (invoke env c) s = (env (now s) c, listen (\<lambda>_. []) s)"
  by (simp add: invoke_def)

lemma run_case_invoke [case_simps]: "run_case (do { r \<leftarrow> invoke env c; f r }) s = run_case (f (env (now s) c)) (listen (\<lambda>_. []) s)"
  by (simp add: case_simps)

lemma run_for_each_member [simp]:
  "run_case (for_each xs (\<lambda>x. check (P x))) s = s\<lparr>checks := checks s @ map P xs\<rparr>"
  by (simp add: run_case_def)

definition caps_made :: "native_env \<Rightarrow> verdict \<Rightarrow> bool" where
  "caps_made env v \<longleftrightarrow> v = Proceed \<and> granted (env 0 CapabilitiesFactory) \<and> granted (env 1 MakeCapabilities)"

definition with_caps :: native_session where
  "with_caps = \<lparr>checks = [True, True], ignored = False, heard = [], now = 2, hung = False\<rparr>"

lemma caps_case_verdict: "native_passed (caps_case env v body) \<longleftrightarrow> caps_made env v \<and> listening_passed (run_case body with_caps)"
  by (cases v) (auto simp: caps_case_def case_simps caps_made_def fresh_listening_def listening_passed_def passed_def
    with_caps_def listen_def numeral_2_eq_2)

lemma isSubsetOfQuery_iff: "isSubsetOfQuery names \<longleftrightarrow> set names \<subseteq> set queried"
  by (induction names) auto

text \<open>The property case passes exactly when no query returned a name that was not asked for, the
  impossible name is not among those returned for \<open>UNKNOWN\<close>, and these include everything returned
  for audio and for video.  It does not ask that they include nothing else.\<close>

lemma properties_contract_verdict:
  "native_passed (SupportedPropertiesContract env v) \<longleftrightarrow>
     caps_made env v
     \<and> (let audio = set (listed (env 2 (SupportedProperties AUDIO queried)));
            video = set (listed (env 3 (SupportedProperties VIDEO queried)));
            unknown = set (listed (env 4 (SupportedProperties UNKNOWN queried)))
        in audio \<union> video \<subseteq> unknown \<and> unknown \<subseteq> set queried - {bogus})"
  unfolding SupportedPropertiesContract_def caps_case_verdict isSubsetOfQuery_iff Let_def
  by (auto simp: case_simps listening_passed_def passed_def with_caps_def list_all_iff eval_nat_numeral)

lemma capability_verdicts:
  "native_passed (BaselineVideoMimeTypeSupportIsConsistent env v) \<longleftrightarrow>
     caps_made env v \<and> ''video/h264'' \<in> set (listed (env 2 (SupportedMimeTypes VIDEO)))
     \<and> granted (env 3 (MimeTypeSupported ''video/h264'')) \<and> granted (env 4 (MimeTypeSupported ''video/h264''))
   \<or> caps_made env v \<and> listed (env 2 (SupportedMimeTypes VIDEO)) \<noteq> []
     \<and> ''video/h264'' \<notin> set (listed (env 2 (SupportedMimeTypes VIDEO)))
     \<and> \<not> granted (env 3 (MimeTypeSupported ''video/h264'')) \<and> granted (env 4 (MimeTypeSupported ''video/h264''))"
  "native_passed (SupportedMimeTypesPerSourceType env v) \<longleftrightarrow>
     caps_made env v \<and> listed (env 2 (SupportedMimeTypes VIDEO)) \<noteq> [] \<and> listed (env 3 (SupportedMimeTypes AUDIO)) \<noteq> []"
  unfolding BaselineVideoMimeTypeSupportIsConsistent_def SupportedMimeTypesPerSourceType_def caps_case_verdict Let_def
  by (auto simp: case_simps listening_passed_def passed_def with_caps_def eval_nat_numeral)

text \<open>The set-up cases: what is needed of the library up to \<open>load\<close>, and then of the sources.\<close>

definition loaded :: "native_env \<Rightarrow> verdict \<Rightarrow> bool" where
  "loaded env v \<longleftrightarrow> v = Proceed \<and> granted (env 0 PipelineFactory) \<and> granted (env 1 (MakePipeline 1920 1080))
     \<and> granted (env 2 (LoadMse ''mse://1'' False))"

lemma lifecycle_verdicts:
  "native_passed (LoadAttachRemoveSource env v) \<longleftrightarrow>
     loaded env v \<and> granted (env 3 makeAudioSource) \<and> 0 \<le> source_id (env 3 makeAudioSource)
     \<and> granted (env 4 (RemoveSource (source_id (env 3 makeAudioSource))))"
  "native_passed (AllSourcesAttachedIsLegalOnlyOnce env v) \<longleftrightarrow>
     loaded env v \<and> granted (env 3 makeAudioSource) \<and> granted (env 4 SourcesAttached) \<and> \<not> granted (env 5 SourcesAttached)"
  "native_passed (MultiSourceAttachComposition env v) \<longleftrightarrow>
     (let audio = env 3 makeAudioSource; video = env 4 (AttachVideoSource ''video/h264'' False 640 360) in
      loaded env v \<and> granted audio \<and> granted video \<and> 0 \<le> source_id audio \<and> 0 \<le> source_id video
      \<and> source_id audio \<noteq> source_id video \<and> granted (env 5 SourcesAttached) \<and> \<not> granted (env 6 SourcesAttached))"
  unfolding LoadAttachRemoveSource_def AllSourcesAttachedIsLegalOnlyOnce_def MultiSourceAttachComposition_def
    createAndLoad_def Let_def
  by (cases v; auto simp: case_simps loaded_def kMaxWidth_def kMaxHeight_def kNominalVideoWidth_def
      kNominalVideoHeight_def listening_passed_def passed_def fresh_listening_def eval_nat_numeral)+

end
