(* ===== verification/Keys_Capabilities_Cases.thy ===== *)
theory Keys_Capabilities_Cases
  imports Listening_Session Clearkey_Cdm
begin

text \<open>
  The key-system capability cases (\<open>src/L1_function/native/KeysCapabilitiesTests.cpp\<close>), and what they
  say of a library that answers from the backend of \<open>Clearkey_Cdm\<close>.  The answer to the call made
  at each tick is the argument.
\<close>

datatype keyscap_call =
    KeysCapabilitiesFactory
  | GetKeysCapabilities
  | SupportedKeySystems
  | SupportsKeySystem string
  | SupportedKeySystemVersion string
  | ServerCertificateSupported string

text \<open>The returned value (true or non-null), the list returned, and the text written, if any.\<close>

record keyscap_reply =
  confirmed :: bool
  systems_listed :: "string list"
  version_out :: "string option"

type_synonym keyscap_env = "nat \<Rightarrow> keyscap_call \<Rightarrow> keyscap_reply"
type_synonym keyscap_session = "unit listening"

definition query :: "keyscap_env \<Rightarrow> keyscap_call \<Rightarrow> (keyscap_session, keyscap_reply) state" where
  "query env c = act (\<lambda>_. []) (\<lambda>t. env t c)"

definition kWidevine :: string where "kWidevine = ''com.widevine.alpha''"
definition kPlayReady :: string where "kPlayReady = ''com.microsoft.playready''"
definition kClearKey :: string where "kClearKey = ''org.w3.clearkey''"
definition kUnsupported :: string where "kUnsupported = ''com.example.nonexistent.keysystem''"

definition obtainCapabilities :: "keyscap_env \<Rightarrow> (keyscap_session, bool) state" where
  "obtainCapabilities env = do {
     factory \<leftarrow> query env KeysCapabilitiesFactory;
     if confirmed factory then do { caps \<leftarrow> query env GetKeysCapabilities; State_Monad.return (confirmed caps) }
     else State_Monad.return False }"

definition keyscap_case :: "keyscap_env \<Rightarrow> verdict \<Rightarrow> (keyscap_session, unit) state \<Rightarrow> (keyscap_session, unit) state" where
  "keyscap_case env v body = gated v (do { caps \<leftarrow> obtainCapabilities env; fatal caps body })"

definition written_version :: "keyscap_reply \<Rightarrow> string" where
  "written_version r = (case version_out r of None \<Rightarrow> [] | Some version \<Rightarrow> version)"

definition CapabilitiesObtainable :: "keyscap_env \<Rightarrow> verdict \<Rightarrow> (keyscap_session, unit) state" where
  "CapabilitiesObtainable env v = keyscap_case env v (do {
     _ \<leftarrow> query env SupportedKeySystems; State_Monad.return () })"

definition SupportsKeySystemConsistentWithList :: "keyscap_env \<Rightarrow> verdict \<Rightarrow> (keyscap_session, unit) state" where
  "SupportsKeySystemConsistentWithList env v = keyscap_case env v (do {
     advertised \<leftarrow> query env SupportedKeySystems;
     for_each (systems_listed advertised) (\<lambda>system. do {
       r \<leftarrow> query env (SupportsKeySystem system);
       check (confirmed r) });
     r \<leftarrow> query env (SupportsKeySystem kUnsupported);
     check (\<not> confirmed r) })"

definition SupportedKeySystemVersionContract :: "keyscap_env \<Rightarrow> verdict \<Rightarrow> (keyscap_session, unit) state" where
  "SupportedKeySystemVersionContract env v = keyscap_case env v (do {
     advertised \<leftarrow> query env SupportedKeySystems;
     for_each (systems_listed advertised) (\<lambda>system. do {
       r \<leftarrow> query env (SupportedKeySystemVersion system);
       check (confirmed r);
       check (written_version r \<noteq> []) });
     r \<leftarrow> query env (SupportedKeySystemVersion kUnsupported);
     check (\<not> confirmed r) })"

definition ServerCertificateQueryIsLegal :: "keyscap_env \<Rightarrow> verdict \<Rightarrow> (keyscap_session, unit) state" where
  "ServerCertificateQueryIsLegal env v = keyscap_case env v (do {
     r \<leftarrow> query env (ServerCertificateSupported kUnsupported);
     check (\<not> confirmed r) })"

definition system_supported_case :: "keyscap_env \<Rightarrow> verdict \<Rightarrow> string \<Rightarrow> (keyscap_session, unit) state" where
  "system_supported_case env v system = keyscap_case env v (do {
     r \<leftarrow> query env (SupportsKeySystem system);
     check (confirmed r) })"

definition WidevineSupportedWhenDeclared :: "keyscap_env \<Rightarrow> verdict \<Rightarrow> (keyscap_session, unit) state" where
  "WidevineSupportedWhenDeclared env v = system_supported_case env v kWidevine"

definition PlayReadySupportedWhenDeclared :: "keyscap_env \<Rightarrow> verdict \<Rightarrow> (keyscap_session, unit) state" where
  "PlayReadySupportedWhenDeclared env v = system_supported_case env v kPlayReady"

definition ClearKeySupportedWhenDeclared :: "keyscap_env \<Rightarrow> verdict \<Rightarrow> (keyscap_session, unit) state" where
  "ClearKeySupportedWhenDeclared env v = system_supported_case env v kClearKey"

definition ClearKeyReportsVersion :: "keyscap_env \<Rightarrow> verdict \<Rightarrow> (keyscap_session, unit) state" where
  "ClearKeyReportsVersion env v = keyscap_case env v (do {
     r \<leftarrow> query env (SupportedKeySystemVersion kClearKey);
     check (confirmed r);
     check (written_version r \<noteq> []) })"

definition ClearKeyHasNoServerCertificate :: "keyscap_env \<Rightarrow> verdict \<Rightarrow> (keyscap_session, unit) state" where
  "ClearKeyHasNoServerCertificate env v = keyscap_case env v (do {
     r \<leftarrow> query env (ServerCertificateSupported kClearKey);
     check (\<not> confirmed r) })"

section \<open>What the cases decide\<close>

abbreviation keyscap_passed :: "(keyscap_session, unit) state \<Rightarrow> bool" where
  "keyscap_passed m \<equiv> listening_passed (run_case m fresh_listening)"

lemma run_query [simp]: "run_state (query env c) s = (env (now s) c, listen (\<lambda>_. []) s)"
  by (simp add: query_def)

definition caps_obtained :: "keyscap_env \<Rightarrow> verdict \<Rightarrow> bool" where
  "caps_obtained env v \<longleftrightarrow> v = Proceed \<and> confirmed (env 0 KeysCapabilitiesFactory) \<and> confirmed (env 1 GetKeysCapabilities)"

definition with_keyscap :: keyscap_session where
  "with_keyscap = \<lparr>checks = [True], ignored = False, heard = [], now = 2, hung = False\<rparr>"

lemma keyscap_case_verdict:
  "keyscap_passed (keyscap_case env v body) \<longleftrightarrow> caps_obtained env v \<and> listening_passed (run_case body with_keyscap)"
  by (cases v) (auto simp: keyscap_case_def obtainCapabilities_def case_simps caps_obtained_def fresh_listening_def
    listening_passed_def passed_def with_keyscap_def listen_def numeral_2_eq_2)

text \<open>The loops over the advertised systems: system \<open>i\<close> is asked for at tick \<open>now s + i\<close>.\<close>

lemma run_query_loop:
  "run_state (for_each ss (\<lambda>system. do { r \<leftarrow> query env (SupportsKeySystem system); check (confirmed r) })) s =
     ((), s\<lparr>checks := checks s @ map (\<lambda>(i, system). confirmed (env (now s + i) (SupportsKeySystem system))) (enumerate 0 ss),
        now := now s + length ss\<rparr>)"
proof (induction ss arbitrary: s)
  case (Cons system ss)
  have "map (\<lambda>(i, x). confirmed (env (Suc (now s) + i) (SupportsKeySystem x))) (enumerate 0 ss)
      = map (\<lambda>(i, x). confirmed (env (now s + i) (SupportsKeySystem x))) (enumerate (Suc 0) ss)"
    by (rule nth_equalityI) (simp_all add: nth_enumerate_eq)
  with Cons show ?case by (simp add: listen_def)
qed simp

lemma run_version_loop:
  "run_state (for_each ss (\<lambda>system. do { r \<leftarrow> query env (SupportedKeySystemVersion system);
        check (confirmed r); check (written_version r \<noteq> []) })) s =
     ((), s\<lparr>checks := checks s @ concat (map (\<lambda>(i, system). let r = env (now s + i) (SupportedKeySystemVersion system)
          in [confirmed r, written_version r \<noteq> []]) (enumerate 0 ss)),
        now := now s + length ss\<rparr>)"
proof (induction ss arbitrary: s)
  case (Cons system ss)
  have "map (\<lambda>(i, x). let r = env (Suc (now s) + i) (SupportedKeySystemVersion x) in [confirmed r, written_version r \<noteq> []]) (enumerate 0 ss)
      = map (\<lambda>(i, x). let r = env (now s + i) (SupportedKeySystemVersion x) in [confirmed r, written_version r \<noteq> []]) (enumerate (Suc 0) ss)"
    by (rule nth_equalityI) (simp_all add: nth_enumerate_eq)
  with Cons show ?case by (simp add: listen_def Let_def)
qed simp

text \<open>A library that answers from the backend: a system is supported when the backend supports its
  type, its version is the text the backend writes for a system it creates, read up to the
  terminating zero, and certificates are asked of that system.\<close>

definition c_text :: "string \<Rightarrow> string" where
  "c_text buffer = takeWhile (\<lambda>c. c \<noteq> CHR 0x00) buffer"

definition backend_version :: "string \<Rightarrow> string option" where
  "backend_version system =
     (case snd (opencdm_create_system \<lparr>systems = Map.empty, sessions = Map.empty, sessionCounter = 0, events = []\<rparr> (Some system) (Some 1)) of
        None \<Rightarrow> None
      | Some a \<Rightarrow>
          (case opencdm_system_get_version (Some a) (Some (replicate 64 (CHR 0x00))) of
             Some (Some buffer, ERROR_NONE) \<Rightarrow> Some (c_text buffer)
           | _ \<Rightarrow> None))"

definition answers_from_backend :: "keyscap_env \<Rightarrow> bool" where
  "answers_from_backend env \<longleftrightarrow> (\<forall>t system.
     confirmed (env t KeysCapabilitiesFactory) \<and> confirmed (env t GetKeysCapabilities)
     \<and> confirmed (env t (SupportsKeySystem system)) = (opencdm_is_type_supported (Some system) None = ERROR_NONE)
     \<and> (system \<in> set (systems_listed (env t SupportedKeySystems)))
         = (opencdm_is_type_supported (Some system) None = ERROR_NONE)
     \<and> confirmed (env t (SupportedKeySystemVersion system)) = (backend_version system \<noteq> None)
     \<and> version_out (env t (SupportedKeySystemVersion system)) = backend_version system
     \<and> confirmed (env t (ServerCertificateSupported system))
         = (backend_version system \<noteq> None \<and> opencdm_system_supports_server_certificate (Some 1)))"

lemma backend_supports: "opencdm_is_type_supported (Some system) mime = ERROR_NONE \<longleftrightarrow> system = kClearKey"
  by (simp add: opencdm_is_type_supported_def isClearKeySystem_def kClearKeySystem_def kClearKey_def)

lemma backend_version_clearkey: "backend_version system = (if system = kClearKey then Some ''ClearKey-1.0'' else None)"
proof (cases "system = kClearKey")
  case True
  have "backend_version kClearKey = Some ''ClearKey-1.0''" by code_simp
  with True show ?thesis by simp
next
  case False
  then show ?thesis
    by (simp add: backend_version_def opencdm_create_system_def isClearKeySystem_def kClearKeySystem_def kClearKey_def)
qed

text \<open>On a library that answers from the suite's backend every key-system case that proceeds passes,
  except the Widevine and PlayReady ones, which then fail: so only a platform that does not
  declare those systems is conformant with this backend alone.\<close>

lemma backend_passes_keyscap_cases:
  assumes "answers_from_backend env"
  shows "keyscap_passed (CapabilitiesObtainable env Proceed)
     \<and> keyscap_passed (SupportsKeySystemConsistentWithList env Proceed)
     \<and> keyscap_passed (SupportedKeySystemVersionContract env Proceed)
     \<and> keyscap_passed (ServerCertificateQueryIsLegal env Proceed)
     \<and> keyscap_passed (ClearKeySupportedWhenDeclared env Proceed)
     \<and> keyscap_passed (ClearKeyReportsVersion env Proceed)
     \<and> keyscap_passed (ClearKeyHasNoServerCertificate env Proceed)
     \<and> \<not> keyscap_passed (WidevineSupportedWhenDeclared env Proceed)
     \<and> \<not> keyscap_passed (PlayReadySupportedWhenDeclared env Proceed)"
proof -
  have env: "confirmed (env t KeysCapabilitiesFactory)" "confirmed (env t GetKeysCapabilities)"
    "confirmed (env t (SupportsKeySystem system)) \<longleftrightarrow> system = kClearKey"
    "set (systems_listed (env t SupportedKeySystems)) = {kClearKey}"
    "confirmed (env t (SupportedKeySystemVersion system)) \<longleftrightarrow> system = kClearKey"
    "written_version (env t (SupportedKeySystemVersion kClearKey)) = ''ClearKey-1.0''"
    "\<not> confirmed (env t (ServerCertificateSupported system))" for t system
    using assms by (auto simp: answers_from_backend_def backend_supports backend_version_clearkey written_version_def
        opencdm_system_supports_server_certificate_def)
  have listed: "x = kClearKey" if "(i, x) \<in> set (enumerate 0 (systems_listed (env t SupportedKeySystems)))" for i x t
    using that env(4) [of t] by (auto simp: enumerate_eq_zip dest: set_zip_rightD)
  have other: "kUnsupported \<noteq> kClearKey" "kWidevine \<noteq> kClearKey" "kPlayReady \<noteq> kClearKey"
    by (simp_all add: kUnsupported_def kWidevine_def kPlayReady_def kClearKey_def)
  note defs = caps_obtained_def case_simps listening_passed_def passed_def with_keyscap_def
    run_query_loop run_version_loop Let_def env other list_all_iff
  have "keyscap_passed (SupportsKeySystemConsistentWithList env Proceed)"
    unfolding SupportsKeySystemConsistentWithList_def keyscap_case_verdict using listed by (auto simp: defs)
  moreover have "keyscap_passed (SupportedKeySystemVersionContract env Proceed)"
    unfolding SupportedKeySystemVersionContract_def keyscap_case_verdict by (auto simp: defs dest!: listed)
  moreover have "keyscap_passed (CapabilitiesObtainable env Proceed)" "keyscap_passed (ServerCertificateQueryIsLegal env Proceed)"
    "keyscap_passed (ClearKeySupportedWhenDeclared env Proceed)" "keyscap_passed (ClearKeyReportsVersion env Proceed)"
    "keyscap_passed (ClearKeyHasNoServerCertificate env Proceed)"
    "\<not> keyscap_passed (WidevineSupportedWhenDeclared env Proceed)" "\<not> keyscap_passed (PlayReadySupportedWhenDeclared env Proceed)"
    unfolding CapabilitiesObtainable_def ServerCertificateQueryIsLegal_def ClearKeySupportedWhenDeclared_def
      ClearKeyReportsVersion_def ClearKeyHasNoServerCertificate_def WidevineSupportedWhenDeclared_def
      PlayReadySupportedWhenDeclared_def system_supported_case_def keyscap_case_verdict
    by (simp_all add: defs)
  ultimately show ?thesis by blast
qed

lemma backend_passes_keyscap_cases_witness:
  "keyscap_passed (ClearKeyReportsVersion (\<lambda>t c. \<lparr>confirmed = (case c of SupportsKeySystem s \<Rightarrow> s = kClearKey
       | SupportedKeySystemVersion s \<Rightarrow> s = kClearKey | ServerCertificateSupported s \<Rightarrow> False | _ \<Rightarrow> True),
     systems_listed = [kClearKey],
     version_out = (case c of SupportedKeySystemVersion s \<Rightarrow> if s = kClearKey then Some ''ClearKey-1.0'' else None | _ \<Rightarrow> None)\<rparr>) Proceed)"
  (is "keyscap_passed (ClearKeyReportsVersion ?env Proceed)")
proof -
  have "answers_from_backend ?env"
    by (auto simp: answers_from_backend_def backend_supports backend_version_clearkey opencdm_system_supports_server_certificate_def)
  from backend_passes_keyscap_cases [OF this] show ?thesis by blast
qed

end
