(* ===== verification/Control_Cases.thy ===== *)
theory Control_Cases
  imports Listening_Session Sim_Control
begin

text \<open>
  The control cases (\<open>src/L1_function/native/ControlTests.cpp\<close>).  What \<open>IControl\<close> answers and
  notifies is the argument \<open>control_env\<close>; the transition case drives the server through the
  client of \<open>Sim_Control\<close>, over the network it finds at each tick.
\<close>

section \<open>The interface\<close>

datatype ApplicationState = UNKNOWN | RUNNING | INACTIVE | OtherState nat

definition isDefinedState :: "ApplicationState \<Rightarrow> bool" where
  "isDefinedState state = (case state of UNKNOWN \<Rightarrow> True | RUNNING \<Rightarrow> True | INACTIVE \<Rightarrow> True | _ \<Rightarrow> False)"

text \<open>\<open>registered\<close> is the answer of \<open>registerClient\<close> with what it writes to the out parameter;
  \<open>holds_client\<close> and \<open>holds_after\<close> say whether something keeps the client alive once the test let
  go of it, before and after the control object is destroyed.\<close>

record control_env =
  control_factory :: bool
  control_object :: bool
  registered :: "bool \<times> ApplicationState option"
  notified_states :: "nat \<Rightarrow> ApplicationState list"
  network_at :: "nat \<Rightarrow> network"
  process_env :: "string \<Rightarrow> string option"
  holds_client :: bool
  holds_after :: bool

datatype sim_request = AskState | SetTo string

record control_session = "ApplicationState listening" +
  requests :: "sim_request list"

definition fresh_control :: control_session where
  "fresh_control = \<lparr>checks = [], ignored = False, heard = [], now = 0, hung = False, requests = []\<rparr>"

text \<open>The recording client appends what it is notified of; its states are what the session heard.\<close>

definition notifyApplicationState :: "ApplicationState list \<Rightarrow> ApplicationState \<Rightarrow> ApplicationState list" where
  "notifyApplicationState states state = states @ [state]"

lemma heard_notifyApplicationState:
  "heard (listen ev s) = foldl notifyApplicationState (heard s) (ev (now s))"
proof -
  have "foldl notifyApplicationState xs ys = xs @ ys" for xs ys
    by (induction ys arbitrary: xs) (simp_all add: notifyApplicationState_def)
  then show ?thesis by simp
qed

definition count_states :: "ApplicationState list \<Rightarrow> nat" where
  "count_states states = length states"

definition waitForStateSince ::
  "control_env \<Rightarrow> nat \<Rightarrow> ApplicationState \<Rightarrow> (control_session, bool) state" where
  "waitForStateSince env since state =
     wait_heard (notified_states env) (\<lambda>states. \<exists>s\<in>set (drop since states). s = state)"

section \<open>The sim, as the case uses it\<close>

definition sim_request :: "sim_request \<Rightarrow> (control_session, unit) state" where
  "sim_request r = State (\<lambda>s. ((), s\<lparr>requests := requests s @ [r]\<rparr>))"

definition sim_getState :: "control_env \<Rightarrow> SimControl \<Rightarrow> (control_session, string option) state" where
  "sim_getState env sim = do {
     sim_request AskState;
     act (notified_states env) (\<lambda>t. getState (network_at env t) sim) }"

definition sim_setActive :: "control_env \<Rightarrow> SimControl \<Rightarrow> (control_session, bool option) state" where
  "sim_setActive env sim = do {
     sim_request (SetTo ''Active'');
     act (notified_states env) (\<lambda>t. setActive (network_at env t) sim) }"

definition sim_setInactive :: "control_env \<Rightarrow> SimControl \<Rightarrow> (control_session, bool option) state" where
  "sim_setInactive env sim = do {
     sim_request (SetTo ''Inactive'');
     act (notified_states env) (\<lambda>t. setInactive (network_at env t) sim) }"

text \<open>The destructor of \<open>RestoreActive\<close>, with the rounds left.\<close>

fun restore_loop :: "control_env \<Rightarrow> SimControl \<Rightarrow> nat \<Rightarrow> (control_session, unit) state" where
  "restore_loop env sim 0 = State_Monad.return ()"
| "restore_loop env sim (Suc rounds) = do {
     state \<leftarrow> sim_getState env sim;
     returned state (\<lambda>state.
       if state = ''Active'' then State_Monad.return ()
       else do {
         r \<leftarrow> sim_setActive env sim;
         returned r (\<lambda>_. do {
           pause (notified_states env);
           restore_loop env sim rounds }) }) }"

definition restore_active :: "control_env \<Rightarrow> SimControl \<Rightarrow> (control_session, unit) state" where
  "restore_active env sim = restore_loop env sim 25"

section \<open>The cases\<close>

definition with_control :: "control_env \<Rightarrow> (control_session, unit) state \<Rightarrow> (control_session, unit) state" where
  "with_control env rest = fatal (control_factory env) (fatal (control_object env) rest)"

definition registered_state :: "control_env \<Rightarrow> ApplicationState" where
  "registered_state env = (case snd (registered env) of None \<Rightarrow> UNKNOWN | Some appState \<Rightarrow> appState)"

definition RegisterClientReturnsTrueAndWritesState :: "control_env \<Rightarrow> verdict \<Rightarrow> (control_session, unit) state" where
  "RegisterClientReturnsTrueAndWritesState env v = gated v (with_control env (do {
     check (fst (registered env));
     check (isDefinedState (registered_state env)) }))"

definition RegisteredClientLearnsRunningState :: "control_env \<Rightarrow> verdict \<Rightarrow> (control_session, unit) state" where
  "RegisteredClientLearnsRunningState env v = gated v (with_control env (do {
     check (fst (registered env));
     check (registered_state env = RUNNING) }))"

definition blank_sim :: SimControl where
  "blank_sim = \<lparr>m_host = [], m_port = [], m_app = []\<rparr>"

definition RegisteredClientIsNotifiedOfStateTransition :: "control_env \<Rightarrow> verdict \<Rightarrow> (control_session, unit) state" where
  "RegisteredClientIsNotifiedOfStateTransition env v = gated v
     (let (found, sim) = fromEnvironment (process_env env) blank_sim in
      fatal found (with_control env (do {
        ok \<leftarrow> act (notified_states env) (\<lambda>_. fst (registered env));
        check ok;
        check (registered_state env = RUNNING);
        beforeInactive \<leftarrow> look (notified_states env) count_states;
        inactive \<leftarrow> sim_setInactive env sim;
        returned inactive (\<lambda>accepted. do {
          check accepted;
          seen \<leftarrow> waitForStateSince env beforeInactive INACTIVE;
          check seen;
          beforeActive \<leftarrow> look (notified_states env) count_states;
          active \<leftarrow> sim_setActive env sim;
          returned active (\<lambda>accepted. do {
            check accepted;
            seen \<leftarrow> waitForStateSince env beforeActive RUNNING;
            check seen;
            restore_active env sim }) }) })))"

definition ClientReleasedOnControlDestruction :: "control_env \<Rightarrow> verdict \<Rightarrow> (control_session, unit) state" where
  "ClientReleasedOnControlDestruction env v = gated v (with_control env (do {
     check (fst (registered env));
     check (holds_client env);
     check (\<not> holds_after env) }))"

section \<open>What the cases decide\<close>

lemma run_sim [simp]:
  "run_state (sim_getState env sim) s =
     (getState (network_at env (now s)) sim, (listen (notified_states env) s)\<lparr>requests := requests s @ [AskState]\<rparr>)"
  "run_state (sim_setActive env sim) s =
     (setActive (network_at env (now s)) sim, (listen (notified_states env) s)\<lparr>requests := requests s @ [SetTo ''Active'']\<rparr>)"
  "run_state (sim_setInactive env sim) s =
     (setInactive (network_at env (now s)) sim, (listen (notified_states env) s)\<lparr>requests := requests s @ [SetTo ''Inactive'']\<rparr>)"
  by (simp_all add: sim_getState_def sim_setActive_def sim_setInactive_def sim_request_def listen_def)

lemma run_waitForStateSince [simp]:
  "run_state (waitForStateSince env since st) s =
     (st \<in> set (drop since (heard s @ notified_states env (now s))), listen (notified_states env) s)"
  unfolding waitForStateSince_def run_waits by auto

lemma run_case_pause [case_simps]: "run_case (pause ev) s = listen ev s"
  by (simp add: run_case_def)

text \<open>The simulator answers every exchange: the peer closes the connection.\<close>

definition sim_returns :: "control_env \<Rightarrow> SimControl \<Rightarrow> bool" where
  "sim_returns env sim \<longleftrightarrow> (\<forall>t. getState (network_at env t) sim \<noteq> None \<and> setActive (network_at env t) sim \<noteq> None
     \<and> setInactive (network_at env t) sim \<noteq> None)"

lemma restore_report:
  "checks (run_case (restore_loop env sim n) s) = checks s"
  "ignored (run_case (restore_loop env sim n) s) = ignored s"
  by (induction n arbitrary: s; simp add: case_simps split: option.split)+

text \<open>The restoring loop asks in rounds three ticks apart, up to the first answer \<open>Active\<close>.\<close>

lemma restore_loop_run:
  assumes "sim_returns env sim"
  shows "\<exists>k\<le>n. (\<forall>j<k. getState (network_at env (now s + 3 * j)) sim \<noteq> Some ''Active'')
       \<and> (k < n \<longrightarrow> getState (network_at env (now s + 3 * k)) sim = Some ''Active'')
       \<and> hung (run_case (restore_loop env sim n) s) = hung s
       \<and> requests (run_case (restore_loop env sim n) s) =
           requests s @ concat (replicate k [AskState, SetTo ''Active'']) @ (if k < n then [AskState] else [])"
proof (induction n arbitrary: s)
  case 0
  then show ?case by (simp add: case_simps)
next
  case (Suc n)
  let ?ev = "notified_states env"
  obtain st where st: "getState (network_at env (now s)) sim = Some st" using assms by (auto simp: sim_returns_def)
  obtain ok where ok: "setActive (network_at env (Suc (now s))) sim = Some ok" using assms by (auto simp: sim_returns_def)
  show ?case
  proof (cases "st = ''Active''")
    case True
    with st show ?thesis by (intro exI [of _ 0]) (simp add: case_simps)
  next
    case False
    define s1 where "s1 = listen ?ev ((listen ?ev ((listen ?ev s)\<lparr>requests := requests s @ [AskState]\<rparr>))
        \<lparr>requests := requests s @ [AskState, SetTo ''Active'']\<rparr>)"
    have run: "run_case (restore_loop env sim (Suc n)) s = run_case (restore_loop env sim n) s1"
      using st ok False by (simp add: case_simps s1_def listen_def)
    have s1: "now s1 = now s + 3" "hung s1 = hung s" "requests s1 = requests s @ [AskState, SetTo ''Active'']"
      by (simp_all add: s1_def listen_def)
    from Suc.IH [of s1] obtain k where k: "k \<le> n"
      "\<forall>j<k. getState (network_at env (now s + 3 * Suc j)) sim \<noteq> Some ''Active''"
      "k < n \<longrightarrow> getState (network_at env (now s + 3 * Suc k)) sim = Some ''Active''"
      "hung (run_case (restore_loop env sim n) s1) = hung s"
      "requests (run_case (restore_loop env sim n) s1) = requests s @ [AskState, SetTo ''Active'']
         @ concat (replicate k [AskState, SetTo ''Active'']) @ (if k < n then [AskState] else [])"
      unfolding s1 by (auto simp: algebra_simps)
    have "\<forall>j<Suc k. getState (network_at env (now s + 3 * j)) sim \<noteq> Some ''Active''"
    proof (intro allI impI)
      fix j assume "j < Suc k"
      then show "getState (network_at env (now s + 3 * j)) sim \<noteq> Some ''Active''"
        using k(2) st False by (cases j) auto
    qed
    with k show ?thesis unfolding run by (intro exI [of _ "Suc k"]) simp
  qed
qed

text \<open>What the cases need of the library.\<close>

definition control_made :: "control_env \<Rightarrow> verdict \<Rightarrow> bool" where
  "control_made env v \<longleftrightarrow> v = Proceed \<and> control_factory env \<and> control_object env"

lemma registration_verdicts:
  "listening_passed (run_case (RegisterClientReturnsTrueAndWritesState env v) fresh_control) \<longleftrightarrow>
     control_made env v \<and> fst (registered env) \<and> registered_state env \<in> {UNKNOWN, RUNNING, INACTIVE}"
  "listening_passed (run_case (RegisteredClientLearnsRunningState env v) fresh_control) \<longleftrightarrow>
     control_made env v \<and> fst (registered env) \<and> registered_state env = RUNNING"
  "listening_passed (run_case (ClientReleasedOnControlDestruction env v) fresh_control) \<longleftrightarrow>
     control_made env v \<and> fst (registered env) \<and> holds_client env \<and> \<not> holds_after env"
  by (cases v; auto simp: RegisterClientReturnsTrueAndWritesState_def RegisteredClientLearnsRunningState_def
      ClientReleasedOnControlDestruction_def with_control_def control_made_def case_simps listening_passed_def passed_def
      fresh_control_def isDefinedState_def split: ApplicationState.splits)+


text \<open>A simulator that accepts every request and is active, and a library that notifies the edges.\<close>

definition active_net :: network where
  "active_net = chunked_net 4000 [''HTTP'' @ crlf @ crlf @ ''command succeeded returned: Active'']"

definition toggling_env :: control_env where
  "toggling_env = \<lparr>control_factory = True, control_object = True, registered = (True, Some RUNNING),
     notified_states = (\<lambda>t. if t = 3 then [INACTIVE] else if t = 6 then [RUNNING] else []),
     network_at = (\<lambda>_. active_net),
     process_env = (\<lambda>_. Some ''sim''), holds_client = True, holds_after = False\<rparr>"

lemma active_exchange: "\<exists>acts. httpExchange active_net h p q = Some (''HTTP'' @ crlf @ crlf @ ''command succeeded returned: Active'', acts, q)"
proof -
  have "send_loop active_net q 0 0 [] = (True, q)"
    unfolding active_net_def by (rule send_all [OF chunked_socket]) (simp add: chunked_net_def)
  moreover have "recv_loop active_net 0 [] = Some (''HTTP'' @ crlf @ crlf @ ''command succeeded returned: Active'')"
    by (simp add: recv_loop.simps active_net_def chunked_net_def)
  moreover have "connect_loop active_net [0, 1] = (4, [Opened 3, Closed 3, Opened 4])" "resolve active_net h p = Some [0, 1]"
    by (simp_all add: active_net_def chunked_net_def Let_def)
  ultimately show ?thesis by (simp add: httpExchange_def)
qed

lemma active_net_answers:
  "getState active_net sim = Some ''Active''" "setState active_net sim st = Some True"
proof -
  have b: "httpBody (''HTTP'' @ crlf @ crlf @ ''command succeeded returned: Active'') = ''command succeeded returned: Active''"
    by code_simp
  have t: "state_token ''command succeeded returned: Active'' = ''Active''"
    "str_find ''command succeeded returned: Active'' ''succeeded'' 0 \<noteq> None" by code_simp+
  obtain acts where "httpExchange active_net (m_host sim) (m_port sim) (get_request sim)
      = Some (''HTTP'' @ crlf @ crlf @ ''command succeeded returned: Active'', acts, get_request sim)"
    using active_exchange by blast
  then show "getState active_net sim = Some ''Active''"
    unfolding getState_def by (simp only: option.map prod.case b t)
  obtain acts where "httpExchange active_net (m_host sim) (m_port sim) (set_request sim st)
      = Some (''HTTP'' @ crlf @ crlf @ ''command succeeded returned: Active'', acts, set_request sim st)"
    using active_exchange by blast
  then show "setState active_net sim st = Some True"
    unfolding setState_def using t(2) by (simp only: option.map prod.case b simp_thms)
qed


end
