(* ===== verification/Web_Audio_Cases.thy ===== *)
theory Web_Audio_Cases
  imports Complex_Main Listening_Session
begin

text \<open>
  The web-audio cases (\<open>src/L1_function/native/WebAudioTests.cpp\<close>).  What the player answers, which
  states it notifies and the clock a poll reads are the argument \<open>audio_env\<close>.
\<close>

section \<open>The interface\<close>

datatype WebAudioPlayerState = PLAYING | PAUSED | END_OF_STREAM | FAILURE | OtherPlayerState nat

record WebAudioConfig =
  rate :: u32
  pcm_channels :: u32
  sampleSize :: u32
  isBigEndian :: bool
  isSigned :: bool
  isFloat :: bool

datatype audio_call =
    CreatePlayerFactory
  | CreateWebAudioPlayer string u32 WebAudioConfig
  | AudioPlay
  | AudioPause
  | SetEos
  | GetDeviceInfo
  | GetBufferAvailable
  | WriteBuffer u32 nat
  | GetBufferDelay
  | SetAudioVolume real
  | GetAudioVolume
  | GetClient

text \<open>The answer to a call: the returned value (true, non-null, or the client supplied), and what is
  written to the out parameters, if anything.\<close>

record audio_reply =
  succeeded :: bool
  frames_out :: "u32 option"
  maximum_out :: "u32 option"
  level_out :: "real option"

record audio_env =
  audio_answer :: "nat \<Rightarrow> audio_call \<Rightarrow> audio_reply"
  player_states :: "nat \<Rightarrow> WebAudioPlayerState list"
  poll_clock :: "nat \<Rightarrow> nat \<Rightarrow> int"

type_synonym audio_session = "WebAudioPlayerState listening"

abbreviation fresh_audio :: audio_session where
  "fresh_audio \<equiv> fresh_listening"

section \<open>The recording client\<close>

text \<open>A notified state is appended, under the client's mutex; the states notified are what the
  session heard.\<close>

definition notifyState :: "WebAudioPlayerState list \<Rightarrow> WebAudioPlayerState \<Rightarrow> WebAudioPlayerState list" where
  "notifyState states state = states @ [state]"

lemma heard_notifyState: "heard (listen ev s) = foldl notifyState (heard s) (ev (now s))"
proof -
  have "foldl notifyState xs ys = xs @ ys" for xs ys
    by (induction ys arbitrary: xs) (simp_all add: notifyState_def)
  then show ?thesis by simp
qed

definition sawLocked :: "WebAudioPlayerState list \<Rightarrow> WebAudioPlayerState \<Rightarrow> bool" where
  "sawLocked states want = list_ex (\<lambda>s. s = want) states"

definition saw :: "audio_env \<Rightarrow> WebAudioPlayerState \<Rightarrow> (audio_session, bool) state" where
  "saw env want = look (player_states env) (\<lambda>states. sawLocked states want)"

definition waitForState :: "audio_env \<Rightarrow> WebAudioPlayerState \<Rightarrow> (audio_session, bool) state" where
  "waitForState env want = wait_heard (player_states env) (\<lambda>states. sawLocked states want)"

section \<open>Creating a player\<close>

definition kSampleRate :: u32 where "kSampleRate = 48000"
definition kChannels :: u32 where "kChannels = 2"
definition kSampleSizeBits :: u32 where "kSampleSizeBits = 16"
definition kPcmMimeType :: string where "kPcmMimeType = ''audio/x-raw''"
definition kTopPriority :: u32 where "kTopPriority = 1"

definition makePcmConfig :: WebAudioConfig where
  "makePcmConfig = \<lparr>rate = kSampleRate, pcm_channels = kChannels, sampleSize = kSampleSizeBits,
     isBigEndian = False, isSigned = True, isFloat = False\<rparr>"

definition audio_ask :: "audio_env \<Rightarrow> audio_call \<Rightarrow> (audio_session, audio_reply) state" where
  "audio_ask env c = act (player_states env) (\<lambda>t. audio_answer env t c)"

definition makePlayer :: "audio_env \<Rightarrow> u32 \<Rightarrow> (audio_session, bool) state" where
  "makePlayer env priority = do {
     factory \<leftarrow> audio_ask env CreatePlayerFactory;
     if \<not> succeeded factory then State_Monad.return False
     else do {
       player \<leftarrow> audio_ask env (CreateWebAudioPlayer kPcmMimeType priority makePcmConfig);
       State_Monad.return (succeeded player) } }"

definition player_case :: "audio_env \<Rightarrow> verdict \<Rightarrow> u32 \<Rightarrow> (audio_session, unit) state \<Rightarrow> (audio_session, unit) state" where
  "player_case env v priority body = gated v (do { player \<leftarrow> makePlayer env priority; fatal player body })"

text \<open>An out parameter that holds \<open>init\<close> unless the call writes it.\<close>

definition out_or :: "'a \<Rightarrow> 'a option \<Rightarrow> 'a" where
  "out_or init r = (case r of None \<Rightarrow> init | Some x \<Rightarrow> x)"

section \<open>The cases\<close>

definition CreateReturnsInstance :: "audio_env \<Rightarrow> verdict \<Rightarrow> (audio_session, unit) state" where
  "CreateReturnsInstance env v = player_case env v kTopPriority (do {
     failed \<leftarrow> saw env FAILURE;
     check (\<not> failed) })"

definition StateMachineNotifiesTransitions :: "audio_env \<Rightarrow> verdict \<Rightarrow> (audio_session, unit) state" where
  "StateMachineNotifiesTransitions env v = player_case env v kTopPriority (do {
     played \<leftarrow> audio_ask env AudioPlay;
     check (succeeded played);
     playing \<leftarrow> waitForState env PLAYING;
     check playing;
     paused \<leftarrow> audio_ask env AudioPause;
     check (succeeded paused);
     sawPaused \<leftarrow> waitForState env PAUSED;
     check sawPaused;
     resumed \<leftarrow> audio_ask env AudioPlay;
     check (succeeded resumed);
     eos \<leftarrow> audio_ask env SetEos;
     check (succeeded eos);
     sawEos \<leftarrow> waitForState env END_OF_STREAM;
     check sawEos })"

definition GetBufferAvailableBoundsTheWrite :: "audio_env \<Rightarrow> verdict \<Rightarrow> (audio_session, unit) state" where
  "GetBufferAvailableBoundsTheWrite env v = player_case env v kTopPriority (do {
     info \<leftarrow> audio_ask env GetDeviceInfo;
     check (succeeded info);
     let maximumFrames = out_or 0 (maximum_out info);
     buffer \<leftarrow> audio_ask env GetBufferAvailable;
     check (succeeded buffer);
     let availableFrames = out_or 0 (frames_out buffer);
     check (availableFrames > 0);
     check (availableFrames \<le> maximumFrames);
     let bytes = unat availableFrames * unat (kChannels * (kSampleSizeBits div 8));
     wrote \<leftarrow> audio_ask env (WriteBuffer availableFrames bytes);
     check (succeeded wrote) })"

definition GetBufferDelayReportsQueuedFrames :: "audio_env \<Rightarrow> verdict \<Rightarrow> (audio_session, unit) state" where
  "GetBufferDelayReportsQueuedFrames env v = player_case env v kTopPriority (do {
     delay \<leftarrow> audio_ask env GetBufferDelay;
     check (succeeded delay);
     check (out_or (- 1) (frames_out delay) = 0) })"

definition GetDeviceInfoReportsBufferSizing :: "audio_env \<Rightarrow> verdict \<Rightarrow> (audio_session, unit) state" where
  "GetDeviceInfoReportsBufferSizing env v = player_case env v kTopPriority (do {
     info \<leftarrow> audio_ask env GetDeviceInfo;
     check (succeeded info);
     let preferredFrames = out_or 0 (frames_out info);
     let maximumFrames = out_or 0 (maximum_out info);
     check (maximumFrames > 0);
     check (preferredFrames > 0);
     check (preferredFrames \<le> maximumFrames) })"

text \<open>The read-back poll: \<open>reported\<close> starts at -1 and keeps what the last call wrote.  The clock moves
  on by the poll gap between reads, so that the poll returns; the other branch is a hang.\<close>

definition read_level :: "audio_env \<Rightarrow> nat \<Rightarrow> nat \<Rightarrow> real" where
  "read_level env t n = foldl (\<lambda>x i. out_or x (level_out (audio_answer env (t + i) GetAudioVolume))) (- 1) [0..<n]"

definition level_applied :: "audio_env \<Rightarrow> real \<Rightarrow> nat \<Rightarrow> nat \<Rightarrow> bool" where
  "level_applied env target t i \<longleftrightarrow>
     succeeded (audio_answer env (t + i) GetAudioVolume) \<and> \<bar>read_level env t (Suc i) - target\<bar> \<le> 1 / 100"

definition poll_level :: "audio_env \<Rightarrow> real \<Rightarrow> (audio_session, (bool \<times> real) option) state" where
  "poll_level env target = State (\<lambda>s.
     case pollUntilApplied (poll_clock env (now s)) (level_applied env target (now s)) of
       None \<Rightarrow> (None, s)
     | Some (applied, reads) \<Rightarrow>
         (Some (applied, read_level env (now s) reads), (listen (player_states env) ^^ reads) s))"

fun volume_rounds :: "audio_env \<Rightarrow> real list \<Rightarrow> (audio_session, unit) state" where
  "volume_rounds env [] = State_Monad.return ()"
| "volume_rounds env (target # targets) = do {
     set \<leftarrow> audio_ask env (SetAudioVolume target);
     check (succeeded set);
     r \<leftarrow> poll_level env target;
     returned r (\<lambda>(applied, reported). do {
       check applied;
       check (\<bar>reported - target\<bar> \<le> 1 / 100);
       volume_rounds env targets }) }"

definition VolumeRoundTrips :: "audio_env \<Rightarrow> verdict \<Rightarrow> (audio_session, unit) state" where
  "VolumeRoundTrips env v = player_case env v kTopPriority (volume_rounds env [0, 1 / 2, 1])"

definition kBeyondSupportedCount :: u32 where "kBeyondSupportedCount = 100"

definition HighPriorityPlayerAppearsToFunction :: "audio_env \<Rightarrow> verdict \<Rightarrow> (audio_session, unit) state" where
  "HighPriorityPlayerAppearsToFunction env v = player_case env v kBeyondSupportedCount (do {
     info \<leftarrow> audio_ask env GetDeviceInfo;
     check (succeeded info);
     failed \<leftarrow> saw env FAILURE;
     check (\<not> failed) })"

definition GetClientReturnsSuppliedClient :: "audio_env \<Rightarrow> verdict \<Rightarrow> (audio_session, unit) state" where
  "GetClientReturnsSuppliedClient env v = player_case env v kTopPriority (do {
     client \<leftarrow> audio_ask env GetClient;
     check (succeeded client) })"

section \<open>What the cases decide\<close>

lemma sawLocked_iff: "sawLocked states want \<longleftrightarrow> want \<in> set states"
  by (auto simp: sawLocked_def list_ex_iff)

lemma run_audio [simp]:
  "run_state (audio_ask env c) s = (audio_answer env (now s) c, listen (player_states env) s)"
  "run_state (saw env want) s = (want \<in> set (heard s @ player_states env (now s)), listen (player_states env) s)"
  by (simp_all add: audio_ask_def saw_def sawLocked_iff)

lemma run_waitForState [simp]:
  "run_state (waitForState env want) s = (want \<in> set (heard s @ player_states env (now s)), listen (player_states env) s)"
  by (simp add: waitForState_def sawLocked_iff)

abbreviation granted_audio :: "audio_env \<Rightarrow> nat \<Rightarrow> audio_call \<Rightarrow> bool" where
  "granted_audio env t c \<equiv> succeeded (audio_answer env t c)"

definition player_made :: "audio_env \<Rightarrow> verdict \<Rightarrow> u32 \<Rightarrow> bool" where
  "player_made env v priority \<longleftrightarrow> v = Proceed \<and> granted_audio env 0 CreatePlayerFactory
     \<and> granted_audio env 1 (CreateWebAudioPlayer kPcmMimeType priority makePcmConfig)"

definition states_before :: "audio_env \<Rightarrow> nat \<Rightarrow> WebAudioPlayerState set" where
  "states_before env t = (\<Union>k<t. set (player_states env k))"

lemma states_before_simps: "states_before env 0 = {}" "states_before env (Suc t) = states_before env t \<union> set (player_states env t)"
  by (auto simp: states_before_def less_Suc_eq)

definition with_player :: "audio_env \<Rightarrow> audio_session" where
  "with_player env = \<lparr>checks = [True], ignored = False, heard = player_states env 0 @ player_states env 1, now = 2, hung = False\<rparr>"

lemma player_case_verdict:
  "listening_passed (run_case (player_case env v priority body) fresh_audio) \<longleftrightarrow>
     player_made env v priority \<and> listening_passed (run_case body (with_player env))"
  by (cases v) (auto simp: player_case_def makePlayer_def case_simps player_made_def fresh_listening_def
    listening_passed_def passed_def with_player_def listen_def numeral_2_eq_2)

lemma with_player_fields [simp]:
  "checks (with_player env) = [True]" "\<not> ignored (with_player env)" "now (with_player env) = 2" "\<not> hung (with_player env)"
  "heard (with_player env) = player_states env 0 @ player_states env 1"
  by (simp_all add: with_player_def)

text \<open>The transitions are observed on latches: the second \<open>play\<close> is not waited for, and a state counts
  whenever it was notified.\<close>

lemma state_machine_verdict:
  "listening_passed (run_case (StateMachineNotifiesTransitions env v) fresh_audio) \<longleftrightarrow>
     player_made env v 1 \<and> granted_audio env 2 AudioPlay \<and> PLAYING \<in> states_before env 4
     \<and> granted_audio env 4 AudioPause \<and> PAUSED \<in> states_before env 6
     \<and> granted_audio env 6 AudioPlay \<and> granted_audio env 7 SetEos \<and> END_OF_STREAM \<in> states_before env 9"
  unfolding StateMachineNotifiesTransitions_def player_case_verdict kTopPriority_def
  by (auto simp: case_simps listening_passed_def passed_def states_before_simps eval_nat_numeral)

lemma write_size: "unat (kChannels * (kSampleSizeBits div 8)) = 4"
  by (simp add: kChannels_def kSampleSizeBits_def)

lemma query_verdicts:
  "listening_passed (run_case (CreateReturnsInstance env v) fresh_audio) \<longleftrightarrow>
     player_made env v 1 \<and> FAILURE \<notin> states_before env 3"
  "listening_passed (run_case (GetBufferDelayReportsQueuedFrames env v) fresh_audio) \<longleftrightarrow>
     player_made env v 1 \<and> granted_audio env 2 GetBufferDelay \<and> frames_out (audio_answer env 2 GetBufferDelay) = Some 0"
  "listening_passed (run_case (GetDeviceInfoReportsBufferSizing env v) fresh_audio) \<longleftrightarrow>
     player_made env v 1 \<and> granted_audio env 2 GetDeviceInfo
     \<and> 0 < out_or 0 (frames_out (audio_answer env 2 GetDeviceInfo))
     \<and> out_or 0 (frames_out (audio_answer env 2 GetDeviceInfo)) \<le> out_or 0 (maximum_out (audio_answer env 2 GetDeviceInfo))"
  "listening_passed (run_case (HighPriorityPlayerAppearsToFunction env v) fresh_audio) \<longleftrightarrow>
     player_made env v 100 \<and> granted_audio env 2 GetDeviceInfo \<and> FAILURE \<notin> states_before env 4"
  "listening_passed (run_case (GetClientReturnsSuppliedClient env v) fresh_audio) \<longleftrightarrow>
     player_made env v 1 \<and> granted_audio env 2 GetClient"
  unfolding CreateReturnsInstance_def GetBufferDelayReportsQueuedFrames_def GetDeviceInfoReportsBufferSizing_def
    HighPriorityPlayerAppearsToFunction_def GetClientReturnsSuppliedClient_def player_case_verdict kTopPriority_def
    kBeyondSupportedCount_def
  by (auto simp: case_simps listening_passed_def passed_def states_before_simps eval_nat_numeral out_or_def Let_def
      split: option.splits)

text \<open>The write case offers as many bytes as the frames it announces take.\<close>

lemma buffer_bound_verdict:
  "listening_passed (run_case (GetBufferAvailableBoundsTheWrite env v) fresh_audio) \<longleftrightarrow>
     player_made env v 1 \<and> granted_audio env 2 GetDeviceInfo \<and> granted_audio env 3 GetBufferAvailable
     \<and> (let available = out_or 0 (frames_out (audio_answer env 3 GetBufferAvailable)) in
          0 < available \<and> available \<le> out_or 0 (maximum_out (audio_answer env 2 GetDeviceInfo))
          \<and> granted_audio env 4 (WriteBuffer available (4 * unat available)))"
  unfolding GetBufferAvailableBoundsTheWrite_def player_case_verdict kTopPriority_def Let_def write_size
  by (auto simp: case_simps listening_passed_def passed_def eval_nat_numeral mult.commute)

lemma volume_rounds_outcome:
  assumes "\<forall>t. sleeping_clock (poll_clock env t)"
  shows "\<exists>bs. let r = run_case (volume_rounds env targets) s in
     checks r = checks s @ bs \<and> ignored r = ignored s \<and> hung r = hung s \<and> now s \<le> now r
     \<and> now r \<le> now s + 102 * length targets
     \<and> (list_all (\<lambda>b. b) bs \<longrightarrow> (\<forall>target\<in>set targets. \<exists>t. now s \<le> t \<and> t < now r
          \<and> granted_audio env t (SetAudioVolume target) \<and> (\<exists>i<101. level_applied env target (Suc t) i)))"
proof (induction targets arbitrary: s)
  case Nil
  then show ?case by (simp add: case_simps)
next
  case (Cons target targets)
  define t where "t = now s"
  have "sleeping_clock (poll_clock env (Suc t))" using assms by blast
  then obtain n where n: "0 < n" "n \<le> 101"
    "pollUntilApplied (poll_clock env (Suc t)) (level_applied env target (Suc t)) = Some (level_applied env target (Suc t) (n - 1), n)"
    using poll_returns [of "poll_clock env (Suc t)" "level_applied env target (Suc t)"] by blast
  let ?b = "[granted_audio env t (SetAudioVolume target), level_applied env target (Suc t) (n - 1),
      \<bar>read_level env (Suc t) n - target\<bar> \<le> 1 / 100]"
  define s1 where "s1 = ((listen (player_states env) ^^ n) ((listen (player_states env) s)\<lparr>checks := checks s @ [hd ?b]\<rparr>))
      \<lparr>checks := checks s @ ?b\<rparr>"
  have run: "run_case (volume_rounds env (target # targets)) s = run_case (volume_rounds env targets) s1"
    using n(3) by (simp add: case_simps poll_level_def s1_def t_def)
  have s1: "checks s1 = checks s @ ?b" "ignored s1 = ignored s" "hung s1 = hung s" "now s1 = Suc t + n"
    by (simp_all add: s1_def t_def)
  from Cons.IH [of s1] obtain bs where bs: "checks (run_case (volume_rounds env targets) s1) = checks s @ ?b @ bs"
    "ignored (run_case (volume_rounds env targets) s1) = ignored s" "hung (run_case (volume_rounds env targets) s1) = hung s"
    "Suc t + n \<le> now (run_case (volume_rounds env targets) s1)"
    "now (run_case (volume_rounds env targets) s1) \<le> Suc t + n + 102 * length targets"
    "list_all (\<lambda>b. b) bs \<longrightarrow> (\<forall>x\<in>set targets. \<exists>u. Suc t + n \<le> u \<and> u < now (run_case (volume_rounds env targets) s1)
        \<and> granted_audio env u (SetAudioVolume x) \<and> (\<exists>i<101. level_applied env x (Suc u) i))"
    unfolding s1 Let_def append_assoc by blast
  have "\<forall>x\<in>set (target # targets). \<exists>u. t \<le> u \<and> u < now (run_case (volume_rounds env targets) s1)
        \<and> granted_audio env u (SetAudioVolume x) \<and> (\<exists>i<101. level_applied env x (Suc u) i)"
    if "list_all (\<lambda>b. b) (?b @ bs)"
  proof
    fix x assume "x \<in> set (target # targets)"
    then consider "x = target" | "x \<in> set targets" by auto
    then show "\<exists>u. t \<le> u \<and> u < now (run_case (volume_rounds env targets) s1)
        \<and> granted_audio env u (SetAudioVolume x) \<and> (\<exists>i<101. level_applied env x (Suc u) i)"
    proof cases
      case 1
      have "n - 1 < 101" using n(1,2) by linarith
      with 1 that bs(4) show ?thesis by (intro exI [of _ t]) auto
    next
      case 2
      have "list_all (\<lambda>b. b) bs" using that by simp
      with 2 bs(6) obtain u where "Suc t + n \<le> u" "u < now (run_case (volume_rounds env targets) s1)"
        "granted_audio env u (SetAudioVolume x)" "\<exists>i<101. level_applied env x (Suc u) i" by blast
      then show ?thesis by (intro exI [of _ u]) simp
    qed
  qed
  with bs n(2) show ?case unfolding run Let_def t_def [symmetric] by (intro exI [of _ "?b @ bs"]) simp
qed

text \<open>The volume case returns, on any clocks that move on by the poll gap, after at most 306 actions;
  and when it passes, every level written was read back: for each of 0, a half and 1 a call of
  \<open>setVolume\<close> succeeded and, within 101 reads after it, one succeeded and left the reported level
  within a hundredth of the target.\<close>

lemma volume_case_returns:
  assumes "\<forall>t. sleeping_clock (poll_clock env t)"
  shows "let r = run_case (VolumeRoundTrips env v) fresh_audio in
     \<not> hung r \<and> now r \<le> 308
     \<and> (if listening_passed r
        then list_all (\<lambda>target. list_ex (\<lambda>t. granted_audio env t (SetAudioVolume target)
               \<and> list_ex (level_applied env target (Suc t)) [0..<101]) [0..<308]) [0, 1 / 2, 1]
        else True)"
proof -
  let ?body = "volume_rounds env [0, 1 / 2, 1]"
  show ?thesis
  proof (cases "player_made env v kTopPriority")
    case True
    have run: "run_case (VolumeRoundTrips env v) fresh_audio = run_case ?body (with_player env)"
      using True by (simp add: VolumeRoundTrips_def player_case_def makePlayer_def case_simps player_made_def
          fresh_listening_def with_player_def listen_def numeral_2_eq_2)
    from volume_rounds_outcome [OF assms, of "[0, 1 / 2, 1]" "with_player env"] obtain bs where bs:
      "checks (run_case ?body (with_player env)) = checks (with_player env) @ bs"
      "\<not> hung (run_case ?body (with_player env))" "now (run_case ?body (with_player env)) \<le> 308"
      "list_all (\<lambda>b. b) bs \<longrightarrow> (\<forall>target\<in>set [0, 1 / 2, 1]. \<exists>t<now (run_case ?body (with_player env)).
          granted_audio env t (SetAudioVolume target) \<and> (\<exists>i<101. level_applied env target (Suc t) i))"
      unfolding Let_def by auto
    have "\<forall>target\<in>set [0, 1 / 2, 1]. \<exists>t\<in>{0..<308}. granted_audio env t (SetAudioVolume target)
          \<and> (\<exists>i\<in>{0..<101}. level_applied env target (Suc t) i)"
      if "listening_passed (run_case ?body (with_player env))"
    proof
      fix target :: real assume m: "target \<in> set [0, 1 / 2, 1]"
      have "list_all (\<lambda>b. b) bs" using that bs(1) by (simp add: listening_passed_def passed_def)
      with bs(4) m obtain t where "t < now (run_case ?body (with_player env))"
        "granted_audio env t (SetAudioVolume target)" "\<exists>i<101. level_applied env target (Suc t) i" by blast
      with bs(3) show "\<exists>t\<in>{0..<308}. granted_audio env t (SetAudioVolume target)
          \<and> (\<exists>i\<in>{0..<101}. level_applied env target (Suc t) i)"
        by (intro bexI [of _ t]) auto
    qed
    with bs(2,3) show ?thesis unfolding run Let_def list_all_iff list_ex_iff set_upt by presburger
  next
    case False
    then have "\<not> listening_passed (run_case (VolumeRoundTrips env v) fresh_audio)"
      by (simp add: VolumeRoundTrips_def player_case_verdict)
    moreover have "\<not> hung (run_case (VolumeRoundTrips env v) fresh_audio) \<and> now (run_case (VolumeRoundTrips env v) fresh_audio) \<le> 308"
      using False by (cases v) (auto simp: VolumeRoundTrips_def player_case_def makePlayer_def case_simps player_made_def fresh_listening_def)
    ultimately show ?thesis by (simp add: Let_def)
  qed
qed

lemma volume_case_returns_witness:
  "\<not> hung (run_case (VolumeRoundTrips \<lparr>audio_answer = (\<lambda>t c. \<lparr>succeeded = True, frames_out = None, maximum_out = None,
       level_out = Some 1\<rparr>), player_states = (\<lambda>_. []), poll_clock = (\<lambda>_ k. 60 * int k)\<rparr> Proceed) fresh_audio)"
proof -
  have "sleeping_clock (\<lambda>k. 60 * int k)" by (simp add: sleeping_clock_def kApplyPoll_def)
  then show ?thesis
    using volume_case_returns [of "\<lparr>audio_answer = (\<lambda>t c. \<lparr>succeeded = True, frames_out = None, maximum_out = None,
       level_out = Some 1\<rparr>), player_states = (\<lambda>_. []), poll_clock = (\<lambda>_ k. 60 * int k)\<rparr>" Proceed]
    unfolding Let_def by simp
qed

end
