(* ===== verification/Log_Cases.thy ===== *)
theory Log_Cases
  imports Listening_Session
begin

text \<open>
  The log-control cases (\<open>src/L1_function/native/ClientLogControlTests.cpp\<close>).  Which records the
  library delivers to which handler, and what it answers, is the argument \<open>log_env\<close>; handlers are
  numbered in the order the case makes them.
\<close>

section \<open>The interface\<close>

datatype Level = Fatal | Error | Warning | Milestone | Info | Debug | External | OtherLevel nat

definition isDefinedLevel :: "Level \<Rightarrow> bool" where
  "isDefinedLevel level = (case level of Fatal \<Rightarrow> True | Error \<Rightarrow> True | Warning \<Rightarrow> True | Milestone \<Rightarrow> True
     | Info \<Rightarrow> True | Debug \<Rightarrow> True | External \<Rightarrow> True | _ \<Rightarrow> False)"

record Record =
  level :: Level
  rec_file :: string
  rec_line :: int
  rec_function :: string
  rec_message :: string

text \<open>The calls: \<open>RegisterHandler (Some i) b\<close> registers handler \<open>i\<close>.\<close>

datatype log_call =
    LogFactory
  | CreateLogControl
  | RegisterHandler "nat option" bool
  | LogCapsFactory
  | LogMakeCaps
  | LogQueryMimes

text \<open>\<open>log_ok\<close> is the returned value (true or non-null), \<open>log_object\<close> the address of the object.\<close>

record log_reply =
  log_ok :: bool
  log_object :: nat

record log_env =
  log_answer :: "nat \<Rightarrow> log_call \<Rightarrow> log_reply"
  log_records :: "nat \<Rightarrow> (nat \<times> Record) list"

type_synonym log_session = "(nat \<times> Record) listening"

definition log_ask :: "log_env \<Rightarrow> log_call \<Rightarrow> (log_session, log_reply) state" where
  "log_ask env c = act (log_records env) (\<lambda>t. log_answer env t c)"

section \<open>The recording handler\<close>

definition records_of :: "nat \<Rightarrow> (nat \<times> Record) list \<Rightarrow> Record list" where
  "records_of handler es = map snd (filter (\<lambda>e. fst e = handler) es)"

text \<open>The wait of \<open>waitForAtLeast\<close> ends at \<open>n\<close> records or when its time is over.\<close>

definition waitForAtLeast :: "log_env \<Rightarrow> nat \<Rightarrow> nat \<Rightarrow> (log_session, bool) state" where
  "waitForAtLeast env handler n = wait_heard (log_records env) (\<lambda>es. n \<le> length (records_of handler es))"

definition count_records :: "log_env \<Rightarrow> nat \<Rightarrow> (log_session, nat) state" where
  "count_records env handler = look (log_records env) (\<lambda>es. length (records_of handler es))"

text \<open>\<open>front()\<close> of no records is undefined: \<open>None\<close>.\<close>

definition first_record :: "log_env \<Rightarrow> nat \<Rightarrow> (log_session, Record option) state" where
  "first_record env handler = look (log_records env)
     (\<lambda>es. case records_of handler es of [] \<Rightarrow> None | r # rs \<Rightarrow> Some r)"

definition clientLogControl :: "log_env \<Rightarrow> (log_session, bool) state" where
  "clientLogControl env = do {
     factory \<leftarrow> log_ask env LogFactory;
     if log_ok factory then do { _ \<leftarrow> log_ask env CreateLogControl; State_Monad.return True }
     else State_Monad.return False }"

definition triggerClientLogActivity :: "log_env \<Rightarrow> (log_session, unit) state" where
  "triggerClientLogActivity env = do {
     factory \<leftarrow> log_ask env LogCapsFactory;
     if \<not> log_ok factory then State_Monad.return ()
     else do {
       caps \<leftarrow> log_ask env LogMakeCaps;
       if \<not> log_ok caps then State_Monad.return ()
       else do { _ \<leftarrow> log_ask env LogQueryMimes; State_Monad.return () } } }"

definition tear_down :: "log_env \<Rightarrow> (log_session, unit) state" where
  "tear_down env = do {
     log \<leftarrow> clientLogControl env;
     if log then do { _ \<leftarrow> log_ask env (RegisterHandler None False); State_Monad.return () }
     else State_Monad.return () }"

section \<open>The cases\<close>

definition FactoryReturnsSingleton :: "log_env \<Rightarrow> verdict \<Rightarrow> (log_session, unit) state" where
  "FactoryReturnsSingleton env v = gated v (do {
     factory \<leftarrow> log_ask env LogFactory;
     fatal (log_ok factory) (do {
       a \<leftarrow> log_ask env CreateLogControl;
       b \<leftarrow> log_ask env CreateLogControl;
       check (log_object a = log_object b) }) })"

definition log_case :: "log_env \<Rightarrow> verdict \<Rightarrow> (log_session, unit) state \<Rightarrow> (log_session, unit) state" where
  "log_case env v body = gated v (do {
     log \<leftarrow> clientLogControl env;
     fatal log (do {
       registered \<leftarrow> log_ask env (RegisterHandler (Some 0) True);
       check (log_ok registered);
       triggerClientLogActivity env;
       body }) })"

definition HandlerReceivesPopulatedRecords :: "log_env \<Rightarrow> verdict \<Rightarrow> (log_session, unit) state" where
  "HandlerReceivesPopulatedRecords env v = log_case env v (do {
     received \<leftarrow> waitForAtLeast env 0 1;
     check received;
     r \<leftarrow> first_record env 0;
     returned r (\<lambda>rec. do {
       check (isDefinedLevel (level rec));
       check (rec_file rec \<noteq> []);
       check (rec_function rec \<noteq> []);
       check (rec_message rec \<noteq> []) }) })"

definition RegisteringNewHandlerReplacesPrevious :: "log_env \<Rightarrow> verdict \<Rightarrow> (log_session, unit) state" where
  "RegisteringNewHandlerReplacesPrevious env v = log_case env v (do {
     registered \<leftarrow> log_ask env (RegisterHandler (Some 1) True);
     check (log_ok registered);
     triggerClientLogActivity env;
     received \<leftarrow> waitForAtLeast env 1 1;
     check received })"

definition NullHandlerCancelsDelivery :: "log_env \<Rightarrow> verdict \<Rightarrow> (log_session, unit) state" where
  "NullHandlerCancelsDelivery env v = log_case env v (do {
     received \<leftarrow> waitForAtLeast env 0 1;
     check received;
     cancelled \<leftarrow> log_ask env (RegisterHandler None False);
     check (log_ok cancelled);
     _ \<leftarrow> waitForAtLeast env 0 (2 ^ 64 - 1);
     afterCancel \<leftarrow> count_records env 0;
     triggerClientLogActivity env;
     _ \<leftarrow> waitForAtLeast env 0 (afterCancel + 1);
     n \<leftarrow> count_records env 0;
     check (n = afterCancel) })"

section \<open>What the cases decide\<close>

lemma records_of_append [simp]: "records_of h (xs @ ys) = records_of h xs @ records_of h ys" "records_of h [] = []"
  by (simp_all add: records_of_def)

interpretation records_enough: latch one_more "\<lambda>es. n \<le> length (records_of h es)" for n h
  by unfold_locales (auto simp: one_more_def)

lemma run_waitForAtLeast [simp]:
  "run_state (waitForAtLeast env h n) s =
     (n \<le> length (records_of h (heard s @ log_records env (now s))), listen (log_records env) s)"
  unfolding waitForAtLeast_def wait_heard_def
  using records_enough.wait_for_last [OF _ wakes_one_more, of "heard s" "log_records env (now s)" n h] by simp

lemma run_log [simp]:
  "run_state (log_ask env c) s = (log_answer env (now s) c, listen (log_records env) s)"
  "run_state (count_records env h) s = (length (records_of h (heard s @ log_records env (now s))), listen (log_records env) s)"
  "run_state (first_record env h) s =
     (case records_of h (heard s @ log_records env (now s)) of [] \<Rightarrow> None | r # rs \<Rightarrow> Some r, listen (log_records env) s)"
  by (simp_all add: log_ask_def count_records_def first_record_def)

text \<open>The records delivered to a handler from tick \<open>a\<close> to before tick \<open>b\<close>.\<close>

definition delivered :: "log_env \<Rightarrow> nat \<Rightarrow> nat \<Rightarrow> nat \<Rightarrow> Record list" where
  "delivered env h a b = concat (map (\<lambda>t. records_of h (log_records env t)) [a..<b])"

lemma delivered_simps:
  "delivered env h a a = []"
  "a \<le> b \<Longrightarrow> delivered env h a (Suc b) = delivered env h a b @ records_of h (log_records env b)"
  by (simp_all add: delivered_def)

lemma delivered_split: "a \<le> b \<Longrightarrow> b \<le> c \<Longrightarrow> delivered env h a c = delivered env h a b @ delivered env h b c"
  using upt_add_eq_append [of a b "c - b"] by (simp add: delivered_def)

text \<open>\<open>follows env s\<close>: the session has heard everything delivered before its tick.\<close>

definition follows :: "log_env \<Rightarrow> log_session \<Rightarrow> bool" where
  "follows env s \<longleftrightarrow> (\<forall>h. records_of h (heard s) = delivered env h 0 (now s))"

lemma follows_listen [simp]: "follows env s \<Longrightarrow> follows env (listen (log_records env) s)"
  by (simp add: follows_def delivered_simps)

lemma follows_checks [simp]: "follows env (s\<lparr>checks := cs\<rparr>) = follows env s"
  by (simp add: follows_def)

lemma follows_fresh [simp]: "follows env fresh_listening"
  by (simp add: follows_def fresh_listening_def delivered_simps)

text \<open>How long the activity takes that is begun at tick \<open>t\<close>.\<close>

definition activity :: "log_env \<Rightarrow> nat \<Rightarrow> nat" where
  "activity env t = (if \<not> log_ok (log_answer env t LogCapsFactory) then 1
     else if \<not> log_ok (log_answer env (t + 1) LogMakeCaps) then 2 else 3)"

lemma run_activity:
  "run_state (triggerClientLogActivity env) s = ((), (listen (log_records env) ^^ activity env (now s)) s)"
  by (simp add: triggerClientLogActivity_def activity_def eval_nat_numeral)

lemma follows_times [simp]: "follows env s \<Longrightarrow> follows env ((listen (log_records env) ^^ n) s)"
  by (induction n) simp_all

lemma follows_records: "follows env s \<Longrightarrow> records_of h (heard s) = delivered env h 0 (now s)"
  by (simp add: follows_def)

text \<open>The body of a case starts when the first activity is over.\<close>

definition body_start :: "log_env \<Rightarrow> nat" where
  "body_start env = 3 + activity env 3"

lemma log_case_body:
  obtains s where "listening_passed (run_case (log_case env v body) fresh_listening) \<longleftrightarrow>
       v = Proceed \<and> log_ok (log_answer env 0 LogFactory) \<and> listening_passed (run_case body s)"
    "checks s = [True, log_ok (log_answer env 2 (RegisterHandler (Some 0) True))]" "\<not> ignored s" "\<not> hung s"
    "now s = body_start env" "follows env s"
proof -
  define s where "s = (listen (log_records env) ^^ activity env 3)
    ((listen (log_records env) (listen (log_records env) (listen (log_records env) fresh_listening)))
       \<lparr>checks := [True, log_ok (log_answer env 2 (RegisterHandler (Some 0) True))]\<rparr>)"
  have "listening_passed (run_case (log_case env v body) fresh_listening) \<longleftrightarrow>
       v = Proceed \<and> log_ok (log_answer env 0 LogFactory) \<and> listening_passed (run_case body s)"
    by (cases v) (auto simp: log_case_def clientLogControl_def case_simps s_def run_activity
      listening_passed_def passed_def fresh_listening_def eval_nat_numeral)
  moreover have "checks s = [True, log_ok (log_answer env 2 (RegisterHandler (Some 0) True))]" "\<not> ignored s" "\<not> hung s"
    "now s = body_start env" "follows env s"
    by (simp_all add: s_def body_start_def) (simp_all add: fresh_listening_def)
  ultimately show ?thesis by (rule that)
qed

definition log_ready :: "log_env \<Rightarrow> verdict \<Rightarrow> bool" where
  "log_ready env v \<longleftrightarrow> v = Proceed \<and> log_ok (log_answer env 0 LogFactory)
     \<and> log_ok (log_answer env 2 (RegisterHandler (Some 0) True))"

lemma replace_case_verdict:
  "listening_passed (run_case (RegisteringNewHandlerReplacesPrevious env v) fresh_listening) \<longleftrightarrow>
     (let w = body_start env; e = w + 1 + activity env (w + 1) in
      log_ready env v \<and> log_ok (log_answer env w (RegisterHandler (Some 1) True)) \<and> delivered env 1 0 (e + 1) \<noteq> [])"
proof -
  obtain s where s: "listening_passed (run_case (RegisteringNewHandlerReplacesPrevious env v) fresh_listening) \<longleftrightarrow>
       v = Proceed \<and> log_ok (log_answer env 0 LogFactory) \<and> listening_passed (run_case (do {
         registered \<leftarrow> log_ask env (RegisterHandler (Some 1) True);
         check (log_ok registered);
         triggerClientLogActivity env;
         received \<leftarrow> waitForAtLeast env 1 1;
         check received }) s)"
    "checks s = [True, log_ok (log_answer env 2 (RegisterHandler (Some 0) True))]" "\<not> ignored s" "\<not> hung s"
    "now s = body_start env" "follows env s"
    unfolding RegisteringNewHandlerReplacesPrevious_def by (rule log_case_body)
  show ?thesis unfolding s(1)
    using s(2-) by (auto simp: case_simps run_activity listening_passed_def passed_def log_ready_def Let_def
        follows_records [of env] delivered_simps Suc_le_eq)
qed

text \<open>The cancellation case passes exactly when both registrations are accepted, the handler has
  got a record by the end of the first wait, and none is delivered to it from the activity after
  the cancellation to the last count.  Records that arrive while the case lets the handler settle
  do not count.\<close>

lemma cancel_case_verdict:
  "listening_passed (run_case (NullHandlerCancelsDelivery env v) fresh_listening) \<longleftrightarrow>
     (let w = body_start env; e = w + 4 + activity env (w + 4) in
      log_ready env v \<and> delivered env 0 0 (w + 1) \<noteq> [] \<and> log_ok (log_answer env (w + 1) (RegisterHandler None False))
      \<and> delivered env 0 (w + 4) (e + 2) = [])"
proof -
  obtain s where s: "listening_passed (run_case (NullHandlerCancelsDelivery env v) fresh_listening) \<longleftrightarrow>
       v = Proceed \<and> log_ok (log_answer env 0 LogFactory) \<and> listening_passed (run_case (do {
         received \<leftarrow> waitForAtLeast env 0 1;
         check received;
         cancelled \<leftarrow> log_ask env (RegisterHandler None False);
         check (log_ok cancelled);
         _ \<leftarrow> waitForAtLeast env 0 (2 ^ 64 - 1);
         afterCancel \<leftarrow> count_records env 0;
         triggerClientLogActivity env;
         _ \<leftarrow> waitForAtLeast env 0 (afterCancel + 1);
         n \<leftarrow> count_records env 0;
         check (n = afterCancel) }) s)"
    "checks s = [True, log_ok (log_answer env 2 (RegisterHandler (Some 0) True))]" "\<not> ignored s" "\<not> hung s"
    "now s = body_start env" "follows env s"
    unfolding NullHandlerCancelsDelivery_def by (rule log_case_body)
  let ?w = "body_start env" and ?e = "body_start env + 4 + activity env (body_start env + 4)"
  have split: "delivered env 0 0 (?e + 2) = delivered env 0 0 (?w + 4) @ delivered env 0 (?w + 4) (?e + 2)"
    by (rule delivered_split) simp_all
  show ?thesis unfolding s(1)
    using s(2-) split by (auto simp: case_simps run_activity listening_passed_def passed_def log_ready_def Let_def
        follows_records [of env] delivered_simps Suc_le_eq eval_nat_numeral simp del: power_Suc)
qed

lemma singleton_verdict:
  "listening_passed (run_case (FactoryReturnsSingleton env v) fresh_listening) \<longleftrightarrow>
     v = Proceed \<and> log_ok (log_answer env 0 LogFactory)
     \<and> log_object (log_answer env 1 CreateLogControl) = log_object (log_answer env 2 CreateLogControl)"
  by (cases v) (auto simp: FactoryReturnsSingleton_def case_simps listening_passed_def passed_def fresh_listening_def eval_nat_numeral)

end
