(* ===== verification/Sink_Element.thy ===== *)
theory Sink_Element
  imports Sink_Registry "HOL-Library.Word"
begin

text \<open>
  The elements the L1 sink cases work on, as an application sees them through GStreamer: the
  element class behind a factory name with its installed properties, signals and pad templates,
  and the live element with its property values, state changes, queries and events.  GStreamer
  and the sink plugin are not part of this repository: a class is a record of what they answer,
  over a type \<open>'e\<close> of states a live element is in.
\<close>

unbundle bit_operations_syntax

section \<open>Properties\<close>

datatype boxed_type = POINTER | SAMPLE | STRUCTURE | OtherType string

datatype gtype = G_TYPE_BOOLEAN | G_TYPE_INT | G_TYPE_INT64 | G_TYPE_UINT | G_TYPE_DOUBLE | G_TYPE_STRING | Boxed boxed_type

text \<open>What a \<open>GParamSpec\<close> says of its type: minimum, maximum and default where the type has them.\<close>

datatype param_detail =
    PBoolean bool
  | PInt "32 word" "32 word" "32 word"
  | PInt64 "64 word" "64 word" "64 word"
  | PUint "32 word" "32 word" "32 word"
  | PDouble real real real
  | PString
  | PBoxed boxed_type

record GParamSpec =
  detail :: param_detail
  flags :: "32 word"

fun value_type :: "param_detail \<Rightarrow> gtype" where
  "value_type (PBoolean _) = G_TYPE_BOOLEAN"
| "value_type (PInt _ _ _) = G_TYPE_INT"
| "value_type (PInt64 _ _ _) = G_TYPE_INT64"
| "value_type (PUint _ _ _) = G_TYPE_UINT"
| "value_type (PDouble _ _ _) = G_TYPE_DOUBLE"
| "value_type PString = G_TYPE_STRING"
| "value_type (PBoxed t) = Boxed t"

definition G_PARAM_READABLE :: "32 word" where "G_PARAM_READABLE = 1"
definition G_PARAM_WRITABLE :: "32 word" where "G_PARAM_WRITABLE = 2"

definition G_MAXINT :: "32 word" where "G_MAXINT = 0x7FFFFFFF"
definition G_MAXUINT :: "32 word" where "G_MAXUINT = 0xFFFFFFFF"
definition G_MININT64 :: "64 word" where "G_MININT64 = 0x8000000000000000"
definition G_MAXINT64 :: "64 word" where "G_MAXINT64 = 0x7FFFFFFFFFFFFFFF"

section \<open>States, queries and events\<close>

datatype GstState = GST_STATE_NULL | GST_STATE_READY | GST_STATE_PAUSED | GST_STATE_PLAYING

datatype GstStateChange = READY_TO_PAUSED | PAUSED_TO_PLAYING

datatype GstStateChangeReturn =
    GST_STATE_CHANGE_FAILURE | GST_STATE_CHANGE_SUCCESS | GST_STATE_CHANGE_ASYNC | GST_STATE_CHANGE_NO_PREROLL

datatype GstFormat = GST_FORMAT_UNDEFINED | GST_FORMAT_TIME | GST_FORMAT_OTHER

datatype query_kind = SeekingQuery | PositionQuery | DurationQuery | SegmentQuery

text \<open>The contents of a query once the element has handled it.\<close>

datatype GstQuery =
    Seeking GstFormat bool "64 word" "64 word"
  | Position GstFormat "64 word"
  | Duration GstFormat "64 word"
  | SegmentAnswer real GstFormat "64 word" "64 word"

text \<open>The parsers write their results over what the variables hold, if the query is theirs.\<close>

fun gst_query_parse_seeking ::
  "GstQuery \<Rightarrow> GstFormat \<times> bool \<times> 64 word \<times> 64 word \<Rightarrow> GstFormat \<times> bool \<times> 64 word \<times> 64 word" where
  "gst_query_parse_seeking (Seeking fmt seekable start stop) _ = (fmt, seekable, start, stop)"
| "gst_query_parse_seeking _ old = old"

fun gst_query_parse_segment ::
  "GstQuery \<Rightarrow> real \<times> GstFormat \<times> 64 word \<times> 64 word \<Rightarrow> real \<times> GstFormat \<times> 64 word \<times> 64 word" where
  "gst_query_parse_segment (SegmentAnswer rate fmt start stop) _ = (rate, fmt, start, stop)"
| "gst_query_parse_segment _ old = old"

fun gst_query_parse_position :: "GstQuery \<Rightarrow> 64 word \<Rightarrow> 64 word" where
  "gst_query_parse_position (Position _ cur) _ = cur"
| "gst_query_parse_position _ old = old"

datatype seek_flag = GST_SEEK_FLAG_NONE | GST_SEEK_FLAG_FLUSH | GST_SEEK_FLAG_INSTANT_RATE_CHANGE

datatype seek_type = GST_SEEK_TYPE_NONE | GST_SEEK_TYPE_SET | GST_SEEK_TYPE_END

datatype GstEvent =
    Seek real GstFormat seek_flag seek_type "64 word" seek_type "64 word"
  | CustomDownstream string
  | CustomUpstream string
  | Segment real GstFormat "64 word" "64 word"
  | FlushStart
  | FlushStop bool
  | OtherEvent string

section \<open>Element classes\<close>

datatype pad_direction = GST_PAD_SINK | GST_PAD_SRC | GST_PAD_UNKNOWN

datatype pad_presence = GST_PAD_ALWAYS | GST_PAD_SOMETIMES | GST_PAD_REQUEST

record 'c pad_template =
  direction :: pad_direction
  presence :: pad_presence
  name_template :: string
  pad_caps :: "'c option"

text \<open>\<open>fresh\<close> is the state of an element as the factory makes it; \<open>get_boolean\<close> and its like are what
  \<open>g_object_get\<close> writes, if anything.\<close>

record ('e, 'c) sink_class =
  fresh :: 'e
  find_property :: "string \<Rightarrow> GParamSpec option"
  signal_lookup :: "string \<Rightarrow> nat"
  pad_templates :: "'c pad_template list"
  type_is_a :: "string \<Rightarrow> bool"
  instance_is_a :: "string \<Rightarrow> bool"
  static_pad :: "string \<Rightarrow> bool"
  set_boolean :: "string \<Rightarrow> bool \<Rightarrow> 'e \<Rightarrow> 'e"
  get_boolean :: "'e \<Rightarrow> string \<Rightarrow> bool option"
  get_int :: "'e \<Rightarrow> string \<Rightarrow> 32 word option"
  set_uint :: "string \<Rightarrow> 32 word \<Rightarrow> 'e \<Rightarrow> 'e"
  get_uint :: "'e \<Rightarrow> string \<Rightarrow> 32 word option"
  set_state :: "GstState \<Rightarrow> 'e \<Rightarrow> 'e \<times> GstStateChangeReturn"
  change_state :: "GstStateChange \<Rightarrow> 'e \<Rightarrow> 'e \<times> GstStateChangeReturn"
  element_query :: "query_kind \<Rightarrow> 'e \<Rightarrow> bool \<times> GstQuery"
  send_event :: "GstEvent \<Rightarrow> 'e \<Rightarrow> 'e \<times> bool"

text \<open>The element classes by factory name: \<open>None\<close> where \<open>gst_element_factory_make\<close> returns null.\<close>

type_synonym ('e, 'c) factories = "string \<Rightarrow> ('e, 'c) sink_class option"

text \<open>What \<open>gst_element_factory_find\<close> finds: the element \<open>gst_element_factory_create\<close> makes, if any, and
  the factory's klass.\<close>

record ('e, 'c) element_factory =
  creates :: "('e, 'c) sink_class option"
  klass_metadata :: "string option"

definition got :: "'a option \<Rightarrow> 'a \<Rightarrow> 'a" where
  "got written old = (case written of None \<Rightarrow> old | Some x \<Rightarrow> x)"

lemma got_simps [simp]: "got None old = old" "got (Some x) old = x"
  by (simp_all add: got_def)

section \<open>Cases over live elements\<close>

text \<open>The run of a case: its report, the number of elements it made, and each element it
  unreferenced with the state the element was in then.\<close>

record 'e sink_run = sink_case +
  made :: nat
  released :: "'e list"

definition fresh_run :: "'e sink_run" where
  "fresh_run = \<lparr>checks = [], ignored = False, crashed = False, made = 0, released = []\<rparr>"

definition gst_element_factory_make :: "('e, 'c) factories \<Rightarrow> string \<Rightarrow> ('e sink_run, ('e, 'c) sink_class option) state" where
  "gst_element_factory_make gst name = State (\<lambda>s.
     (gst name, if gst name = None then s else s\<lparr>made := Suc (made s)\<rparr>))"

definition unref :: "'e \<Rightarrow> ('e sink_run, unit) state" where
  "unref e = State (\<lambda>s. ((), s\<lparr>released := released s @ [e]\<rparr>))"

lemma fresh_run_passed [simp]: "sink_passed fresh_run"
  by (simp add: sink_passed_def passed_def fresh_run_def)

lemma decides_unref [decide_rules]: "decides (unref e) True"
  by (simp add: decides_def unref_def sink_passed_def passed_def)

lemma decides_element_make [decide_rules]:
  "decides (m (gst name)) P \<Longrightarrow> decides (State_Monad.bind (gst_element_factory_make gst name) m) P"
  by (auto simp: decides_def gst_element_factory_make_def sink_passed_def passed_def)

section \<open>Ownership\<close>

text \<open>\<open>owns m k\<close>: the computation \<open>m\<close> makes \<open>k\<close> more elements than it unreferences.\<close>

definition outstanding :: "'e sink_run \<Rightarrow> int" where
  "outstanding s = int (made s) - int (length (released s))"

definition owns :: "('e sink_run, 'a) state \<Rightarrow> int \<Rightarrow> bool" where
  "owns m k \<longleftrightarrow> (\<forall>s. outstanding (snd (run_state m s)) = outstanding s + k)"

named_theorems own_rules

lemma owns_run_case: "owns m k \<Longrightarrow> outstanding (run_case m s) = outstanding s + k"
  by (simp add: owns_def run_case_def)

lemma owns_eq: "owns m k \<Longrightarrow> k = l \<Longrightarrow> owns m l"
  by simp

lemma owns_basic [own_rules]:
  "owns (State_Monad.return x) 0" "owns (check b) 0" "owns crash 0" "owns ignore_test 0" "owns (unref e) (- 1)"
  by (simp_all add: owns_def check_def crash_def ignore_test_def unref_def outstanding_def)

lemma owns_then: "owns m k \<Longrightarrow> owns n l \<Longrightarrow> owns (State_Monad.bind m (\<lambda>_. n)) (k + l)"
  by (simp add: owns_def split_beta)

lemma owns_step [own_rules]: "owns m 0 \<Longrightarrow> owns n k \<Longrightarrow> owns (State_Monad.bind m (\<lambda>_. n)) k"
  using owns_then [of m 0 n k] by simp

text \<open>What a fatal assertion skips must not change the balance: there is no rule for a fatal
  assertion between making an element and unreferencing it.\<close>

lemma owns_gated [own_rules]: "owns m 0 \<Longrightarrow> owns (gated v m) 0"
  by (cases v) (simp_all add: owns_def gated_def ignore_test_def outstanding_def)

lemma owns_fatal [own_rules]: "owns m 0 \<Longrightarrow> owns (fatal b m) 0"
  by (simp add: owns_def fatal_def outstanding_def)

lemma owns_if [own_rules]: "owns m k \<Longrightarrow> owns n k \<Longrightarrow> owns (if b then m else n) k"
  by simp

lemma owns_let [own_rules]: "(\<And>x. owns (m x) k) \<Longrightarrow> owns (let y = x in m y) k"
  by simp

lemma owns_prod [own_rules]: "(\<And>a b. owns (m a b) k) \<Longrightarrow> owns (case p of (a, b) \<Rightarrow> m a b) k"
  by (cases p) simp

lemma owns_for_each [own_rules]: "(\<And>x. owns (m x) 0) \<Longrightarrow> owns (for_each xs m) 0"
  by (induction xs) (auto simp: owns_def split_beta)

text \<open>The shape of a case on one sink: made, null-checked, used and unreferenced.\<close>

definition with_sink ::
  "('e, 'c) factories \<Rightarrow> string \<Rightarrow> (('e, 'c) sink_class \<Rightarrow> ('e sink_run, unit) state) \<Rightarrow> ('e sink_run, unit) state" where
  "with_sink gst name body = do { sink \<leftarrow> gst_element_factory_make gst name; fatal_some sink body }"

lemma decides_with_sink [decide_rules]:
  assumes "\<And>c. gst name = Some c \<Longrightarrow> decides (body c) (P c)"
  shows "decides (with_sink gst name body) (case gst name of None \<Rightarrow> False | Some c \<Rightarrow> P c)"
  unfolding with_sink_def by (rule decides_element_make, rule decides_fatal_some) (rule assms)

lemma owns_with_sink [own_rules]:
  "(\<And>c. owns (body c) (- 1)) \<Longrightarrow> owns (with_sink gst name body) 0"
  by (cases "gst name") (auto simp: with_sink_def owns_def gst_element_factory_make_def fatal_some_def outstanding_def)

end
