(* ===== verification/Sink_Property_Cases.thy ===== *)
theory Sink_Property_Cases
  imports Sink_Element
begin

text \<open>
  The property cases of the sinks (\<open>src/L1_function/mse/PropertyTests.cpp\<close>): what each sink must
  install, with which type, access, range and default.
\<close>

section \<open>The assertion helpers\<close>

text \<open>The macro \<open>G_PARAM_SPEC_INT(spec)\<close> on a spec of another type reads memory that is not there:
  the case has crashed.  \<open>g_value_get_boolean\<close> on a value of another type only complains and
  answers false.\<close>

definition findProp :: "('e, 'c) sink_class \<Rightarrow> string \<Rightarrow> ('e sink_run, GParamSpec option) state" where
  "findProp element name = do {
     check (find_property element name \<noteq> None);
     State_Monad.return (find_property element name) }"

definition assertAccess :: "GParamSpec \<Rightarrow> bool \<Rightarrow> bool \<Rightarrow> ('e sink_run, unit) state" where
  "assertAccess spec readable writable = do {
     check ((flags spec AND G_PARAM_READABLE \<noteq> 0) = readable);
     check ((flags spec AND G_PARAM_WRITABLE \<noteq> 0) = writable) }"

text \<open>The part the helpers share: look the property up, return if it is missing, check its type and
  its access, and go on with \<open>rest\<close>.\<close>

definition with_spec ::
  "('e, 'c) sink_class \<Rightarrow> string \<Rightarrow> gtype \<Rightarrow> bool \<Rightarrow> bool \<Rightarrow> (GParamSpec \<Rightarrow> ('e sink_run, unit) state)
   \<Rightarrow> ('e sink_run, unit) state" where
  "with_spec e name valueType readable writable rest = do {
     spec \<leftarrow> findProp e name;
     (case spec of
        None \<Rightarrow> State_Monad.return ()
      | Some spec \<Rightarrow> do {
          check (value_type (detail spec) = valueType);
          assertAccess spec readable writable;
          rest spec }) }"

definition assertBool :: "('e, 'c) sink_class \<Rightarrow> string \<Rightarrow> bool \<Rightarrow> bool \<Rightarrow> bool \<Rightarrow> ('e sink_run, unit) state" where
  "assertBool e name def readable writable =
     with_spec e name G_TYPE_BOOLEAN readable writable (\<lambda>spec.
       check ((case detail spec of PBoolean d \<Rightarrow> d | _ \<Rightarrow> False) = def))"

definition assertInt ::
  "('e, 'c) sink_class \<Rightarrow> string \<Rightarrow> 32 word \<Rightarrow> 32 word \<Rightarrow> 32 word \<Rightarrow> bool \<Rightarrow> bool \<Rightarrow> ('e sink_run, unit) state" where
  "assertInt e name lo hi def readable writable =
     with_spec e name G_TYPE_INT readable writable (\<lambda>spec.
       case detail spec of
         PInt minimum maximum d \<Rightarrow> do { check (minimum = lo); check (maximum = hi); check (d = def) }
       | _ \<Rightarrow> crash)"

definition assertInt64 ::
  "('e, 'c) sink_class \<Rightarrow> string \<Rightarrow> 64 word \<Rightarrow> 64 word \<Rightarrow> 64 word \<Rightarrow> bool \<Rightarrow> bool \<Rightarrow> ('e sink_run, unit) state" where
  "assertInt64 e name lo hi def readable writable =
     with_spec e name G_TYPE_INT64 readable writable (\<lambda>spec.
       case detail spec of
         PInt64 minimum maximum d \<Rightarrow> do { check (minimum = lo); check (maximum = hi); check (d = def) }
       | _ \<Rightarrow> crash)"

definition assertUint ::
  "('e, 'c) sink_class \<Rightarrow> string \<Rightarrow> 32 word \<Rightarrow> 32 word \<Rightarrow> 32 word \<Rightarrow> bool \<Rightarrow> bool \<Rightarrow> ('e sink_run, unit) state" where
  "assertUint e name lo hi def readable writable =
     with_spec e name G_TYPE_UINT readable writable (\<lambda>spec.
       case detail spec of
         PUint minimum maximum d \<Rightarrow> do { check (minimum = lo); check (maximum = hi); check (d = def) }
       | _ \<Rightarrow> crash)"

definition assertDouble ::
  "('e, 'c) sink_class \<Rightarrow> string \<Rightarrow> real \<Rightarrow> real \<Rightarrow> real \<Rightarrow> bool \<Rightarrow> bool \<Rightarrow> ('e sink_run, unit) state" where
  "assertDouble e name lo hi def readable writable =
     with_spec e name G_TYPE_DOUBLE readable writable (\<lambda>spec.
       case detail spec of
         PDouble minimum maximum d \<Rightarrow> do { check (minimum = lo); check (maximum = hi); check (d = def) }
       | _ \<Rightarrow> crash)"

definition assertString :: "('e, 'c) sink_class \<Rightarrow> string \<Rightarrow> bool \<Rightarrow> bool \<Rightarrow> ('e sink_run, unit) state" where
  "assertString e name readable writable =
     with_spec e name G_TYPE_STRING readable writable (\<lambda>_. State_Monad.return ())"

definition assertTyped :: "('e, 'c) sink_class \<Rightarrow> string \<Rightarrow> boxed_type \<Rightarrow> bool \<Rightarrow> bool \<Rightarrow> ('e sink_run, unit) state" where
  "assertTyped e name valueType readable writable =
     with_spec e name (Boxed valueType) readable writable (\<lambda>_. State_Monad.return ())"

definition hasProp :: "('e, 'c) sink_class \<Rightarrow> string \<Rightarrow> bool" where
  "hasProp e name \<longleftrightarrow> find_property e name \<noteq> None"

definition assertBoolIfPresent ::
  "('e, 'c) sink_class \<Rightarrow> string \<Rightarrow> bool \<Rightarrow> bool \<Rightarrow> bool \<Rightarrow> ('e sink_run, unit) state" where
  "assertBoolIfPresent e name def readable writable =
     (if hasProp e name then assertBool e name def readable writable else State_Monad.return ())"

section \<open>The cases\<close>

definition BaseSinkProperties :: "('e, 'c) factories \<Rightarrow> verdict \<Rightarrow> ('e sink_run, unit) state" where
  "BaseSinkProperties gst v = gated v (with_sink gst kAudioSink (\<lambda>sink. do {
     assertBool sink ''single-path-stream'' False True True;
     assertInt sink ''streams-number'' 1 G_MAXINT 1 True True;
     assertBool sink ''has-drm'' True True True;
     assertTyped sink ''stats'' POINTER True False;
     assertBool sink ''enable-last-sample'' False True True;
     assertTyped sink ''last-sample'' SAMPLE True False;
     unref (fresh sink) }))"

definition BaseSinkSignals :: "('e, 'c) factories \<Rightarrow> verdict \<Rightarrow> ('e sink_run, unit) state" where
  "BaseSinkSignals gst v = gated v (do {
     audioSink \<leftarrow> gst_element_factory_make gst kAudioSink;
     fatal_some audioSink (\<lambda>audioSink. do {
       check (signal_lookup audioSink ''buffer-underflow-callback'' \<noteq> 0);
       unref (fresh audioSink);
       videoSink \<leftarrow> gst_element_factory_make gst kVideoSink;
       fatal_some videoSink (\<lambda>videoSink. do {
         check (signal_lookup videoSink ''buffer-underflow-callback'' \<noteq> 0);
         check (signal_lookup videoSink ''first-video-frame-callback'' \<noteq> 0);
         unref (fresh videoSink) }) }) })"

definition AudioSinkProperties :: "('e, 'c) factories \<Rightarrow> verdict \<Rightarrow> ('e sink_run, unit) state" where
  "AudioSinkProperties gst v = gated v (with_sink gst kAudioSink (\<lambda>sink. do {
     assertDouble sink ''volume'' 0 1 1 True True;
     assertBool sink ''mute'' False True True;
     assertTyped sink ''gap'' STRUCTURE False True;
     assertBool sink ''use-buffering'' False True True;
     assertBool sink ''async'' False True True;
     assertBool sink ''web-audio'' False True True;
     unref (fresh sink) }))"

definition AudioSinkWebAudioSettableOnlyInNull :: "('e, 'c) factories \<Rightarrow> verdict \<Rightarrow> ('e sink_run, unit) state" where
  "AudioSinkWebAudioSettableOnlyInNull gst v = gated v (with_sink gst kAudioSink (\<lambda>sink.
     let value0 = False;
         e1 = set_boolean sink ''web-audio'' True (fresh sink);
         value1 = got (get_boolean sink e1 ''web-audio'') value0
     in do {
       check value1;
       let e2 = set_boolean sink ''web-audio'' False e1;
           value2 = got (get_boolean sink e2 ''web-audio'') value1
       in do {
         check (\<not> value2);
         case set_state sink GST_STATE_READY e2 of (e3, result) \<Rightarrow>
           if result = GST_STATE_CHANGE_SUCCESS
           then (let e4 = set_boolean sink ''web-audio'' True e3;
                     value3 = got (get_boolean sink e4 ''web-audio'') value2
                 in do {
                   check (\<not> value3);
                   unref (fst (set_state sink GST_STATE_NULL e4)) })
           else unref e3 }}))"

definition AudioSinkConditionalProperties :: "('e, 'c) factories \<Rightarrow> verdict \<Rightarrow> ('e sink_run, unit) state" where
  "AudioSinkConditionalProperties gst v = gated v (with_sink gst kAudioSink (\<lambda>sink. do {
     assertBoolIfPresent sink ''low-latency'' False False True;
     assertBoolIfPresent sink ''sync'' False True True;
     assertBoolIfPresent sink ''sync-off'' False False True;
     (if hasProp sink ''stream-sync-mode'' then assertInt sink ''stream-sync-mode'' 0 G_MAXINT 0 True True
      else State_Monad.return ());
     (if hasProp sink ''audio-fade'' then assertString sink ''audio-fade'' False True
      else State_Monad.return ());
     (if hasProp sink ''fade-volume'' then assertUint sink ''fade-volume'' 0 100 0 True False
      else State_Monad.return ());
     (if hasProp sink ''limit-buffering-ms'' then assertUint sink ''limit-buffering-ms'' 0 20000 750 True True
      else State_Monad.return ());
     unref (fresh sink) }))"

definition VideoSinkProperties :: "('e, 'c) factories \<Rightarrow> verdict \<Rightarrow> ('e sink_run, unit) state" where
  "VideoSinkProperties gst v = gated v (with_sink gst kVideoSink (\<lambda>sink. do {
     assertString sink ''rectangle'' True True;
     assertUint sink ''max-video-width'' 0 3840 3840 True True;
     assertUint sink ''max-video-height'' 0 2160 2160 True True;
     assertBool sink ''frame-step-on-preroll'' False True True;
     assertBool sink ''is-master'' True True False;
     assertInt64 sink ''video_pts'' G_MININT64 G_MAXINT64 0 True False;
     unref (fresh sink) }))"

definition VideoSinkDeprecatedAliases :: "('e, 'c) factories \<Rightarrow> verdict \<Rightarrow> ('e sink_run, unit) state" where
  "VideoSinkDeprecatedAliases gst v = gated v (with_sink gst kVideoSink (\<lambda>sink. do {
     assertUint sink ''maxVideoWidth'' 0 3840 3840 True True;
     assertUint sink ''maxVideoHeight'' 0 2160 2160 True True;
     let e1 = set_uint sink ''maxVideoWidth'' 1920 (fresh sink);
         canonical1 = got (get_uint sink e1 ''max-video-width'') 0
     in do {
       check (canonical1 = 1920);
       let e2 = set_uint sink ''maxVideoHeight'' 1080 e1;
           canonical2 = got (get_uint sink e2 ''max-video-height'') canonical1
       in do {
         check (canonical2 = 1080);
         let alias = got (get_uint sink e2 ''maxVideoWidth'') 0
         in do {
           check (alias = 1920);
           unref e2 }}}}))"

definition VideoSinkConditionalProperties :: "('e, 'c) factories \<Rightarrow> verdict \<Rightarrow> ('e sink_run, unit) state" where
  "VideoSinkConditionalProperties gst v = gated v (with_sink gst kVideoSink (\<lambda>sink. do {
     assertBoolIfPresent sink ''immediate-output'' True True True;
     assertBoolIfPresent sink ''syncmode-streaming'' False False True;
     unref (fresh sink) }))"

text \<open>The release gate of the next case is the second one in its body.\<close>

definition VideoSinkVisibilityAndDecodeProperties ::
  "('e, 'c) factories \<Rightarrow> verdict \<Rightarrow> verdict \<Rightarrow> ('e sink_run, unit) state" where
  "VideoSinkVisibilityAndDecodeProperties gst v since = gated v (gated since (with_sink gst kVideoSink (\<lambda>sink. do {
     assertBool sink ''show-video-window'' True False True;
     assertBool sink ''report-decode-errors'' False False True;
     assertUint sink ''queued-frames'' 0 G_MAXUINT 0 True False;
     unref (fresh sink) })))"

definition SubtitleSinkProperties :: "('e, 'c) factories \<Rightarrow> verdict \<Rightarrow> ('e sink_run, unit) state" where
  "SubtitleSinkProperties gst v = gated v (with_sink gst kSubtitleSink (\<lambda>sink. do {
     assertBool sink ''mute'' False True True;
     assertString sink ''text-track-identifier'' True True;
     assertUint sink ''window-id'' 0 256 0 True True;
     assertBool sink ''async'' False True True;
     unref (fresh sink) }))"

definition ReadablePropertiesFallbackDefaults :: "('e, 'c) factories \<Rightarrow> verdict \<Rightarrow> ('e sink_run, unit) state" where
  "ReadablePropertiesFallbackDefaults gst v = gated v (with_sink gst kAudioSink (\<lambda>sink.
     let singlePath = got (get_boolean sink (fresh sink) ''single-path-stream'') True;
         streams = got (get_int sink (fresh sink) ''streams-number'') 0;
         hasDrm = got (get_boolean sink (fresh sink) ''has-drm'') False
     in do {
       check (\<not> singlePath);
       check (streams = 1);
       check hasDrm;
       unref (fresh sink) }))"

section \<open>The contract of an assertion helper\<close>

text \<open>A row of the documentation: name, type with range and default, access, and whether the
  property may be missing.\<close>

datatype presence = Required | IfInstalled

type_synonym row = "string \<times> param_detail \<times> bool \<times> bool \<times> presence"

definition meets :: "GParamSpec \<Rightarrow> param_detail \<Rightarrow> bool \<Rightarrow> bool \<Rightarrow> bool" where
  "meets spec want readable writable \<longleftrightarrow> detail spec = want
     \<and> ((flags spec AND G_PARAM_READABLE \<noteq> 0) = readable) \<and> ((flags spec AND G_PARAM_WRITABLE \<noteq> 0) = writable)"

definition conforms :: "('e, 'c) sink_class \<Rightarrow> row \<Rightarrow> bool" where
  "conforms c = (\<lambda>(name, want, readable, writable, presence).
     case find_property c name of None \<Rightarrow> presence = IfInstalled | Some spec \<Rightarrow> meets spec want readable writable)"

lemma owns_with_spec [own_rules]: "(\<And>spec. owns (rest spec) 0) \<Longrightarrow> owns (with_spec e name t r w rest) 0"
  by (auto simp: with_spec_def findProp_def assertAccess_def owns_def outstanding_def check_def split: option.split)

lemma decides_with_spec:
  assumes "\<And>spec. find_property e name = Some spec \<Longrightarrow> decides (rest spec) (P spec)"
    and "\<And>spec. value_type (detail spec) = t \<and> P spec \<longleftrightarrow> detail spec = want"
  shows "decides (with_spec e name t r w rest) (conforms e (name, want, r, w, Required))"
proof (cases "find_property e name")
  case None
  then show ?thesis by (simp add: with_spec_def findProp_def decides_def conforms_def sink_passed_def passed_def)
next
  case (Some spec)
  let ?access = "((flags spec AND G_PARAM_READABLE \<noteq> 0) = r) \<and> ((flags spec AND G_PARAM_WRITABLE \<noteq> 0) = w)"
  have "decides (do { check True; check (value_type (detail spec) = t); assertAccess spec r w; rest spec })
      (True \<and> value_type (detail spec) = t \<and> ?access \<and> P spec)"
    unfolding assertAccess_def by (intro decides_then decides_check assms(1) Some)
  moreover have "conforms e (name, want, r, w, Required) \<longleftrightarrow> True \<and> value_type (detail spec) = t \<and> ?access \<and> P spec"
    using assms(2) [of spec] Some unfolding conforms_def meets_def by auto
  ultimately show ?thesis using Some by (simp add: with_spec_def findProp_def)
qed

locale property_assert =
  fixes assertion :: "('e, 'c) sink_class \<Rightarrow> string \<Rightarrow> bool \<Rightarrow> bool \<Rightarrow> ('e sink_run, unit) state"
    and want :: param_detail
  assumes verdict: "decides (assertion e name r w) (conforms e (name, want, r, w, Required))"
    and no_elements: "owns (assertion e name r w) 0"
begin

text \<open>Guarded by \<open>hasProp\<close>, an assertion becomes the one of a server-conditional property.\<close>

lemma if_present:
  "decides (if hasProp e name then assertion e name r w else State_Monad.return ()) (conforms e (name, want, r, w, IfInstalled))"
proof (cases "hasProp e name")
  case True
  then have "conforms e (name, want, r, w, Required) = conforms e (name, want, r, w, IfInstalled)"
    by (auto simp: hasProp_def conforms_def)
  with True verdict [of e name r w] show ?thesis by simp
next
  case False
  then show ?thesis by (auto simp: hasProp_def conforms_def intro: decides_eq [OF decides_return])
qed

end

interpretation bool_assert: property_assert "\<lambda>e n. assertBool e n def" "PBoolean def" for def
proof
  show "decides (assertBool e name def r w) (conforms e (name, PBoolean def, r, w, Required))" for e name r w
    unfolding assertBool_def
    by (rule decides_with_spec, rule decides_check) (case_tac "detail spec"; auto)
qed (auto simp: assertBool_def intro!: own_rules)

lemma three_checks [decide_rules, own_rules]:
  "decides (do { check a; check b; check c }) (a \<and> b \<and> c)"
  "owns (do { check a; check b; check c }) 0"
  by (auto intro!: decides_then decides_check simp: owns_def outstanding_def)

interpretation int_assert: property_assert "\<lambda>e n. assertInt e n lo hi def" "PInt lo hi def" for lo hi "def"
proof
  show "decides (assertInt e name lo hi def r w) (conforms e (name, PInt lo hi def, r, w, Required))" for e name r w
    unfolding assertInt_def
    by (rule decides_with_spec [where P = "\<lambda>spec. detail spec = PInt lo hi def"], case_tac "detail spec")
      (auto intro: decides_eq [OF decides_crash] decides_eq [OF three_checks(1)])
qed (auto simp: assertInt_def intro!: own_rules split: param_detail.split)

interpretation int64_assert: property_assert "\<lambda>e n. assertInt64 e n lo hi def" "PInt64 lo hi def" for lo hi "def"
proof
  show "decides (assertInt64 e name lo hi def r w) (conforms e (name, PInt64 lo hi def, r, w, Required))" for e name r w
    unfolding assertInt64_def
    by (rule decides_with_spec [where P = "\<lambda>spec. detail spec = PInt64 lo hi def"], case_tac "detail spec")
      (auto intro: decides_eq [OF decides_crash] decides_eq [OF three_checks(1)])
qed (auto simp: assertInt64_def intro!: own_rules split: param_detail.split)

interpretation uint_assert: property_assert "\<lambda>e n. assertUint e n lo hi def" "PUint lo hi def" for lo hi "def"
proof
  show "decides (assertUint e name lo hi def r w) (conforms e (name, PUint lo hi def, r, w, Required))" for e name r w
    unfolding assertUint_def
    by (rule decides_with_spec [where P = "\<lambda>spec. detail spec = PUint lo hi def"], case_tac "detail spec")
      (auto intro: decides_eq [OF decides_crash] decides_eq [OF three_checks(1)])
qed (auto simp: assertUint_def intro!: own_rules split: param_detail.split)

interpretation double_assert: property_assert "\<lambda>e n. assertDouble e n lo hi def" "PDouble lo hi def" for lo hi "def"
proof
  show "decides (assertDouble e name lo hi def r w) (conforms e (name, PDouble lo hi def, r, w, Required))" for e name r w
    unfolding assertDouble_def
    by (rule decides_with_spec [where P = "\<lambda>spec. detail spec = PDouble lo hi def"], case_tac "detail spec")
      (auto intro: decides_eq [OF decides_crash] decides_eq [OF three_checks(1)])
qed (auto simp: assertDouble_def intro!: own_rules split: param_detail.split)

interpretation string_assert: property_assert "\<lambda>e n. assertString e n" "PString"
proof
  show "decides (assertString e name r w) (conforms e (name, PString, r, w, Required))" for e name r w
    unfolding assertString_def
    by (rule decides_with_spec, rule decides_return) (case_tac "detail spec"; auto)
qed (auto simp: assertString_def intro!: own_rules)

interpretation typed_assert: property_assert "\<lambda>e n. assertTyped e n t" "PBoxed t" for t
proof
  show "decides (assertTyped e name t r w) (conforms e (name, PBoxed t, r, w, Required))" for e name r w
    unfolding assertTyped_def
    by (rule decides_with_spec, rule decides_return) (case_tac "detail spec"; auto)
qed (auto simp: assertTyped_def intro!: own_rules)

lemmas assert_rules =
  bool_assert.if_present int_assert.if_present uint_assert.if_present string_assert.if_present
  bool_assert.verdict int_assert.verdict int64_assert.verdict uint_assert.verdict double_assert.verdict
  string_assert.verdict typed_assert.verdict

lemmas assert_owns =
  bool_assert.no_elements int_assert.no_elements int64_assert.no_elements uint_assert.no_elements
  double_assert.no_elements string_assert.no_elements typed_assert.no_elements

section \<open>The documented properties\<close>

definition base_rows :: "row list" where
  "base_rows = [
     (''single-path-stream'', PBoolean False, True, True, Required),
     (''streams-number'', PInt 1 G_MAXINT 1, True, True, Required),
     (''has-drm'', PBoolean True, True, True, Required),
     (''stats'', PBoxed POINTER, True, False, Required),
     (''enable-last-sample'', PBoolean False, True, True, Required),
     (''last-sample'', PBoxed SAMPLE, True, False, Required)]"

definition audio_rows :: "row list" where
  "audio_rows = [
     (''volume'', PDouble 0 1 1, True, True, Required),
     (''mute'', PBoolean False, True, True, Required),
     (''gap'', PBoxed STRUCTURE, False, True, Required),
     (''use-buffering'', PBoolean False, True, True, Required),
     (''async'', PBoolean False, True, True, Required),
     (''web-audio'', PBoolean False, True, True, Required)]"

definition audio_conditional_rows :: "row list" where
  "audio_conditional_rows = [
     (''low-latency'', PBoolean False, False, True, IfInstalled),
     (''sync'', PBoolean False, True, True, IfInstalled),
     (''sync-off'', PBoolean False, False, True, IfInstalled),
     (''stream-sync-mode'', PInt 0 G_MAXINT 0, True, True, IfInstalled),
     (''audio-fade'', PString, False, True, IfInstalled),
     (''fade-volume'', PUint 0 100 0, True, False, IfInstalled),
     (''limit-buffering-ms'', PUint 0 20000 750, True, True, IfInstalled)]"

definition video_rows :: "row list" where
  "video_rows = [
     (''rectangle'', PString, True, True, Required),
     (''max-video-width'', PUint 0 3840 3840, True, True, Required),
     (''max-video-height'', PUint 0 2160 2160, True, True, Required),
     (''frame-step-on-preroll'', PBoolean False, True, True, Required),
     (''is-master'', PBoolean True, True, False, Required),
     (''video_pts'', PInt64 G_MININT64 G_MAXINT64 0, True, False, Required)]"

definition video_conditional_rows :: "row list" where
  "video_conditional_rows = [
     (''immediate-output'', PBoolean True, True, True, IfInstalled),
     (''syncmode-streaming'', PBoolean False, False, True, IfInstalled)]"

definition video_visibility_rows :: "row list" where
  "video_visibility_rows = [
     (''show-video-window'', PBoolean True, False, True, Required),
     (''report-decode-errors'', PBoolean False, False, True, Required),
     (''queued-frames'', PUint 0 G_MAXUINT 0, True, False, Required)]"

definition subtitle_rows :: "row list" where
  "subtitle_rows = [
     (''mute'', PBoolean False, True, True, Required),
     (''text-track-identifier'', PString, True, True, Required),
     (''window-id'', PUint 0 256 0, True, True, Required),
     (''async'', PBoolean False, True, True, Required)]"

text \<open>A sink is registered and every row of a list holds of it.\<close>

definition sink_documented :: "('e, 'c) factories \<Rightarrow> string \<Rightarrow> row list \<Rightarrow> bool" where
  "sink_documented gst name rows = (case gst name of None \<Rightarrow> False | Some c \<Rightarrow> list_all (conforms c) rows)"

text \<open>Each table case decides its rows.\<close>

lemma decides_table_cases:
  "decides (BaseSinkProperties gst v) (v = Proceed \<and> sink_documented gst kAudioSink base_rows)"
  "decides (AudioSinkProperties gst v) (v = Proceed \<and> sink_documented gst kAudioSink audio_rows)"
  "decides (AudioSinkConditionalProperties gst v) (v = Proceed \<and> sink_documented gst kAudioSink audio_conditional_rows)"
  "decides (VideoSinkProperties gst v) (v = Proceed \<and> sink_documented gst kVideoSink video_rows)"
  "decides (VideoSinkConditionalProperties gst v) (v = Proceed \<and> sink_documented gst kVideoSink video_conditional_rows)"
  "decides (VideoSinkVisibilityAndDecodeProperties gst v since)
     (v = Proceed \<and> since = Proceed \<and> sink_documented gst kVideoSink video_visibility_rows)"
  "decides (SubtitleSinkProperties gst v) (v = Proceed \<and> sink_documented gst kSubtitleSink subtitle_rows)"
  unfolding BaseSinkProperties_def AudioSinkProperties_def AudioSinkConditionalProperties_def VideoSinkProperties_def
    VideoSinkConditionalProperties_def VideoSinkVisibilityAndDecodeProperties_def SubtitleSinkProperties_def
    assertBoolIfPresent_def
  by (rule decides_eq, (rule assert_rules decide_rules)+,
      simp add: sink_documented_def base_rows_def audio_rows_def audio_conditional_rows_def video_rows_def
        video_conditional_rows_def video_visibility_rows_def subtitle_rows_def split: option.split)+

section \<open>What the cases decide\<close>

text \<open>C33: The seven table cases of the property suite, run against any registry, all pass exactly when
  each sink is registered and every documented property of it is installed with exactly the
  documented type, access, range and default, a server-conditional one only if it is installed at
  all; the helpers assert bit by bit and field by field, go on after a failure and crash on a
  property of another type, and still no deviation escapes.\<close>

theorem property_suite_is_the_table:
  "list_all (\<lambda>m. sink_passed (run_case m fresh_run))
     [BaseSinkProperties gst Proceed, AudioSinkProperties gst Proceed, AudioSinkConditionalProperties gst Proceed,
      VideoSinkProperties gst Proceed, VideoSinkConditionalProperties gst Proceed,
      VideoSinkVisibilityAndDecodeProperties gst Proceed Proceed, SubtitleSinkProperties gst Proceed]
   \<longleftrightarrow> sink_documented gst kAudioSink (base_rows @ audio_rows @ audio_conditional_rows)
     \<and> sink_documented gst kVideoSink (video_rows @ video_conditional_rows @ video_visibility_rows)
     \<and> sink_documented gst kSubtitleSink subtitle_rows"
  by (simp add: decides_table_cases [THEN decides_run_case])
    (auto simp: sink_documented_def split: option.split)

text \<open>The mode switch.  Where the read-back shows the mode, the case passes exactly when a set in
  the initial state is honoured both ways and, if the element reaches READY at all, one more
  set there is without effect.  A sink that refuses READY passes on the first half alone.\<close>

lemma web_audio_verdict:
  assumes "gst kAudioSink = Some c" "\<And>e. get_boolean c e ''web-audio'' = Some (mode e)"
  defines "set_mode \<equiv> set_boolean c ''web-audio''"
  defines "off \<equiv> set_mode False (set_mode True (fresh c))"
  shows "sink_passed (run_case (AudioSinkWebAudioSettableOnlyInNull gst Proceed) fresh_run) \<longleftrightarrow>
     mode (set_mode True (fresh c)) \<and> \<not> mode off
     \<and> (snd (set_state c GST_STATE_READY off) = GST_STATE_CHANGE_SUCCESS
        \<longrightarrow> \<not> mode (set_mode True (fst (set_state c GST_STATE_READY off))))"
proof -
  have "decides (AudioSinkWebAudioSettableOnlyInNull gst Proceed)
     (mode (set_mode True (fresh c)) \<and> \<not> mode off
     \<and> (snd (set_state c GST_STATE_READY off) = GST_STATE_CHANGE_SUCCESS
        \<longrightarrow> \<not> mode (set_mode True (fst (set_state c GST_STATE_READY off)))))"
    unfolding AudioSinkWebAudioSettableOnlyInNull_def
    by (rule decides_eq, (rule decide_rules)+) (simp add: assms Let_def split_beta)
  then show ?thesis by (simp add: decides_run_case)
qed

text \<open>The aliases.  A sink whose alias and canonical name share one value passes; so does one on
  which only a set of the alias reaches the canonical name, since a set of the canonical name is
  never made and the height alias is never read back.\<close>

lemma alias_verdict:
  assumes "gst kVideoSink = Some c" "sink_documented gst kVideoSink
      [(''maxVideoWidth'', PUint 0 3840 3840, True, True, Required), (''maxVideoHeight'', PUint 0 2160 2160, True, True, Required)]"
  defines "wide \<equiv> set_uint c ''maxVideoWidth'' 1920 (fresh c)"
  defines "both \<equiv> set_uint c ''maxVideoHeight'' 1080 wide"
  shows "sink_passed (run_case (VideoSinkDeprecatedAliases gst Proceed) fresh_run) \<longleftrightarrow>
     get_uint c wide ''max-video-width'' = Some 1920 \<and> get_uint c both ''max-video-height'' = Some 1080
     \<and> get_uint c both ''maxVideoWidth'' = Some 1920"
proof -
  have "got x (0 :: 32 word) = 1920 \<longleftrightarrow> x = Some 1920" for x by (cases x) simp_all
  moreover have "got x (1920 :: 32 word) = 1080 \<longleftrightarrow> x = Some 1080" for x by (cases x) simp_all
  ultimately have "decides (VideoSinkDeprecatedAliases gst Proceed)
     (get_uint c wide ''max-video-width'' = Some 1920 \<and> get_uint c both ''max-video-height'' = Some 1080
     \<and> get_uint c both ''maxVideoWidth'' = Some 1920)"
    unfolding VideoSinkDeprecatedAliases_def
    apply -
    apply (rule decides_eq, (rule assert_rules decide_rules)+)
    using assms(1,2) by (auto simp: sink_documented_def wide_def both_def Let_def)
  then show ?thesis by (simp add: decides_run_case)
qed

lemma signals_verdict:
  "sink_passed (run_case (BaseSinkSignals gst v) fresh_run) \<longleftrightarrow> v = Proceed
     \<and> (case (gst kAudioSink, gst kVideoSink) of
         (Some a, Some w) \<Rightarrow> signal_lookup a ''buffer-underflow-callback'' \<noteq> 0
           \<and> signal_lookup w ''buffer-underflow-callback'' \<noteq> 0 \<and> signal_lookup w ''first-video-frame-callback'' \<noteq> 0
       | _ \<Rightarrow> False)"
proof -
  have "decides (BaseSinkSignals gst v) (v = Proceed
     \<and> (case (gst kAudioSink, gst kVideoSink) of
         (Some a, Some w) \<Rightarrow> signal_lookup a ''buffer-underflow-callback'' \<noteq> 0
           \<and> signal_lookup w ''buffer-underflow-callback'' \<noteq> 0 \<and> signal_lookup w ''first-video-frame-callback'' \<noteq> 0
       | _ \<Rightarrow> False))"
    unfolding BaseSinkSignals_def with_sink_def [symmetric]
    by (rule decides_eq, (rule decide_rules)+) (auto split: option.split)
  then show ?thesis by (simp add: decides_run_case)
qed

lemma fallback_verdict:
  "sink_passed (run_case (ReadablePropertiesFallbackDefaults gst v) fresh_run) \<longleftrightarrow> v = Proceed
     \<and> (case gst kAudioSink of None \<Rightarrow> False | Some c \<Rightarrow>
         get_boolean c (fresh c) ''single-path-stream'' = Some False
         \<and> get_int c (fresh c) ''streams-number'' = Some 1 \<and> get_boolean c (fresh c) ''has-drm'' = Some True)"
proof -
  have g: "\<not> got x True \<longleftrightarrow> x = Some False" "got x False \<longleftrightarrow> x = Some True" for x by (cases x, simp_all)+
  have i: "got x (0 :: 32 word) = 1 \<longleftrightarrow> x = Some 1" for x by (cases x) simp_all
  have "decides (ReadablePropertiesFallbackDefaults gst v) (v = Proceed
     \<and> (case gst kAudioSink of None \<Rightarrow> False | Some c \<Rightarrow>
         get_boolean c (fresh c) ''single-path-stream'' = Some False
         \<and> get_int c (fresh c) ''streams-number'' = Some 1 \<and> get_boolean c (fresh c) ''has-drm'' = Some True))"
    unfolding ReadablePropertiesFallbackDefaults_def
    by (rule decides_eq, (rule decide_rules)+) (auto simp: Let_def g i split: option.split)
  then show ?thesis by (simp add: decides_run_case)
qed

text \<open>Every element a property case makes is unreferenced, on every path and whatever the sinks
  answer.\<close>

lemma property_cases_own_nothing:
  "owns (BaseSinkProperties gst v) 0" "owns (AudioSinkProperties gst v) 0"
  "owns (AudioSinkWebAudioSettableOnlyInNull gst v) 0" "owns (AudioSinkConditionalProperties gst v) 0"
  "owns (VideoSinkProperties gst v) 0" "owns (VideoSinkDeprecatedAliases gst v) 0"
  "owns (VideoSinkConditionalProperties gst v) 0" "owns (VideoSinkVisibilityAndDecodeProperties gst v since) 0"
  "owns (SubtitleSinkProperties gst v) 0" "owns (ReadablePropertiesFallbackDefaults gst v) 0"
  unfolding BaseSinkProperties_def AudioSinkProperties_def AudioSinkConditionalProperties_def VideoSinkProperties_def
    VideoSinkConditionalProperties_def VideoSinkVisibilityAndDecodeProperties_def SubtitleSinkProperties_def
    assertBoolIfPresent_def AudioSinkWebAudioSettableOnlyInNull_def VideoSinkDeprecatedAliases_def
    ReadablePropertiesFallbackDefaults_def
  by ((rule assert_owns own_rules)+)


lemma signals_own_nothing: "owns (BaseSinkSignals gst v) 0"
proof -
  have then_sink: "owns (State_Monad.bind (unref e) (\<lambda>_. with_sink gst kVideoSink f)) (- 1)" if "\<And>c. owns (f c) (- 1)" for e f
    using owns_then [OF owns_basic(5) owns_with_sink [OF that]] by simp
  show ?thesis
    unfolding BaseSinkSignals_def with_sink_def [symmetric] by ((rule then_sink own_rules)+)
qed

end
