(* ===== verification/Sink_State_Cases.thy ===== *)
theory Sink_State_Cases
  imports Sink_Element
begin

text \<open>
  The state-change and the query and event cases of the sinks
  (\<open>src/L1_function/mse/StateTests.cpp\<close> and \<open>EventTests.cpp\<close>), on the audio sink.
\<close>

section \<open>State changes\<close>

text \<open>\<open>makeAudioSink\<close> checks the element it returns, and so does the case once more, fatally.\<close>

definition makeAudioSink :: "('e, 'c) factories \<Rightarrow> ('e sink_run, ('e, 'c) sink_class option) state" where
  "makeAudioSink gst = do {
     sink \<leftarrow> gst_element_factory_make gst kAudioSink;
     check (sink \<noteq> None);
     State_Monad.return sink }"

definition NullDelegateStateChangeFails :: "('e, 'c) factories \<Rightarrow> verdict \<Rightarrow> ('e sink_run, unit) state" where
  "NullDelegateStateChangeFails gst v = gated v (do {
     sink \<leftarrow> makeAudioSink gst;
     fatal_some sink (\<lambda>sink.
       case change_state sink READY_TO_PAUSED (fresh sink) of (e1, result) \<Rightarrow> do {
         check (result = GST_STATE_CHANGE_FAILURE);
         unref e1 }) })"

definition NullToReadyReachesReadyWhenRunning :: "('e, 'c) factories \<Rightarrow> verdict \<Rightarrow> ('e sink_run, unit) state" where
  "NullToReadyReachesReadyWhenRunning gst v = gated v (do {
     sink \<leftarrow> makeAudioSink gst;
     fatal_some sink (\<lambda>sink. do {
       check (static_pad sink ''sink'');
       case set_state sink GST_STATE_READY (fresh sink) of (e1, r1) \<Rightarrow> do {
         check (r1 = GST_STATE_CHANGE_SUCCESS);
         unref (fst (set_state sink GST_STATE_NULL e1)) }}) })"

definition ReadyToPausedIsAsyncWhenSourceNotAttached :: "('e, 'c) factories \<Rightarrow> verdict \<Rightarrow> ('e sink_run, unit) state" where
  "ReadyToPausedIsAsyncWhenSourceNotAttached gst v = gated v (do {
     sink \<leftarrow> makeAudioSink gst;
     fatal_some sink (\<lambda>sink.
       case set_state sink GST_STATE_READY (fresh sink) of (e1, r1) \<Rightarrow> do {
         check (r1 = GST_STATE_CHANGE_SUCCESS);
         case set_state sink GST_STATE_PAUSED e1 of (e2, r2) \<Rightarrow> do {
           check (r2 = GST_STATE_CHANGE_ASYNC);
           unref (fst (set_state sink GST_STATE_NULL e2)) }}) })"

definition PausedToPlayingFailsWhenSourceNotAttached :: "('e, 'c) factories \<Rightarrow> verdict \<Rightarrow> ('e sink_run, unit) state" where
  "PausedToPlayingFailsWhenSourceNotAttached gst v = gated v (do {
     sink \<leftarrow> makeAudioSink gst;
     fatal_some sink (\<lambda>sink.
       case set_state sink GST_STATE_READY (fresh sink) of (e1, r1) \<Rightarrow> do {
         check (r1 = GST_STATE_CHANGE_SUCCESS);
         case set_state sink GST_STATE_PAUSED e1 of (e2, r2) \<Rightarrow> do {
           check (r2 = GST_STATE_CHANGE_ASYNC);
           case change_state sink PAUSED_TO_PLAYING e2 of (e3, result) \<Rightarrow> do {
             check (result = GST_STATE_CHANGE_FAILURE);
             unref (fst (set_state sink GST_STATE_NULL e3)) }}}) })"

definition PausedToReadyTearsDownAndSucceeds :: "('e, 'c) factories \<Rightarrow> verdict \<Rightarrow> ('e sink_run, unit) state" where
  "PausedToReadyTearsDownAndSucceeds gst v = gated v (do {
     sink \<leftarrow> makeAudioSink gst;
     fatal_some sink (\<lambda>sink.
       case set_state sink GST_STATE_READY (fresh sink) of (e1, r1) \<Rightarrow> do {
         check (r1 = GST_STATE_CHANGE_SUCCESS);
         case set_state sink GST_STATE_PAUSED e1 of (e2, r2) \<Rightarrow> do {
           check (r2 = GST_STATE_CHANGE_ASYNC);
           case set_state sink GST_STATE_READY e2 of (e3, r3) \<Rightarrow> do {
             check (r3 = GST_STATE_CHANGE_SUCCESS);
             unref (fst (set_state sink GST_STATE_NULL e3)) }}}) })"

definition ReadyToNullReleasesAndSucceeds :: "('e, 'c) factories \<Rightarrow> verdict \<Rightarrow> ('e sink_run, unit) state" where
  "ReadyToNullReleasesAndSucceeds gst v = gated v (do {
     sink \<leftarrow> makeAudioSink gst;
     fatal_some sink (\<lambda>sink.
       case set_state sink GST_STATE_READY (fresh sink) of (e1, r1) \<Rightarrow> do {
         check (r1 = GST_STATE_CHANGE_SUCCESS);
         case set_state sink GST_STATE_NULL e1 of (e2, r2) \<Rightarrow> do {
           check (r2 = GST_STATE_CHANGE_SUCCESS);
           case set_state sink GST_STATE_READY e2 of (e3, r3) \<Rightarrow> do {
             check (r3 = GST_STATE_CHANGE_SUCCESS);
             unref (fst (set_state sink GST_STATE_NULL e3)) }}}) })"

section \<open>Queries and events\<close>

text \<open>\<open>makeReadyAudioSink\<close>: the sink with the state the change to READY left it in.\<close>

definition makeReadyAudioSink :: "('e, 'c) factories \<Rightarrow> ('e sink_run, (('e, 'c) sink_class \<times> 'e) option) state" where
  "makeReadyAudioSink gst = do {
     sink \<leftarrow> gst_element_factory_make gst kAudioSink;
     check (sink \<noteq> None);
     (case sink of
        None \<Rightarrow> State_Monad.return None
      | Some sink \<Rightarrow>
          (case set_state sink GST_STATE_READY (fresh sink) of (e1, r1) \<Rightarrow> do {
             check (r1 = GST_STATE_CHANGE_SUCCESS);
             State_Monad.return (Some (sink, e1)) })) }"

definition teardown :: "('e, 'c) sink_class \<Rightarrow> 'e \<Rightarrow> ('e sink_run, unit) state" where
  "teardown sink e = unref (fst (set_state sink GST_STATE_NULL e))"

definition SeekingQueryReportsNotSeekable :: "('e, 'c) factories \<Rightarrow> verdict \<Rightarrow> ('e sink_run, unit) state" where
  "SeekingQueryReportsNotSeekable gst v = gated v (do {
     sink \<leftarrow> makeReadyAudioSink gst;
     fatal_some sink (\<lambda>(sink, e).
       case element_query sink SeekingQuery e of (answered, query) \<Rightarrow> do {
         check answered;
         case gst_query_parse_seeking query (GST_FORMAT_UNDEFINED, True, - 1, 0) of (fmt, seekable, start, stop) \<Rightarrow> do {
           check (fmt = GST_FORMAT_TIME);
           check (\<not> seekable);
           check (start = 0);
           check (stop = - 1);
           teardown sink e }}) })"

definition PositionQueryFalseWithoutClient :: "('e, 'c) factories \<Rightarrow> verdict \<Rightarrow> ('e sink_run, unit) state" where
  "PositionQueryFalseWithoutClient gst v = gated v (do {
     sink \<leftarrow> makeReadyAudioSink gst;
     fatal_some sink (\<lambda>(sink, e). do {
       check (\<not> fst (element_query sink PositionQuery e));
       teardown sink e }) })"

definition DurationQueryFalseWithoutClient :: "('e, 'c) factories \<Rightarrow> verdict \<Rightarrow> ('e sink_run, unit) state" where
  "DurationQueryFalseWithoutClient gst v = gated v (do {
     sink \<leftarrow> makeReadyAudioSink gst;
     fatal_some sink (\<lambda>(sink, e). do {
       check (\<not> fst (element_query sink DurationQuery e));
       teardown sink e }) })"

text \<open>\<open>UT_ASSERT_DOUBLE_EQUAL\<close> allows a difference up to its third argument.\<close>

definition double_equal :: "real \<Rightarrow> real \<Rightarrow> real \<Rightarrow> bool" where
  "double_equal actual expected granularity \<longleftrightarrow> \<bar>actual - expected\<bar> \<le> \<bar>granularity\<bar>"

definition SegmentQueryReturnsLastSegment :: "('e, 'c) factories \<Rightarrow> verdict \<Rightarrow> ('e sink_run, unit) state" where
  "SegmentQueryReturnsLastSegment gst v = gated v (do {
     sink \<leftarrow> makeReadyAudioSink gst;
     fatal_some sink (\<lambda>(sink, e).
       case element_query sink SegmentQuery e of (answered, query) \<Rightarrow> do {
         check answered;
         case gst_query_parse_segment query (0, GST_FORMAT_UNDEFINED, - 1, 0) of (rate, fmt, start, stop) \<Rightarrow> do {
           check (double_equal rate 1 (1 / 10 ^ 9));
           check (fmt = GST_FORMAT_TIME);
           check (start = 0);
           check (stop = - 1);
           teardown sink e }}) })"

definition endSeek :: GstEvent where
  "endSeek = Seek 1 GST_FORMAT_TIME GST_SEEK_FLAG_FLUSH GST_SEEK_TYPE_END 0 GST_SEEK_TYPE_NONE 0"

definition nonFlushSeek :: GstEvent where
  "nonFlushSeek = Seek 1 GST_FORMAT_TIME GST_SEEK_FLAG_NONE GST_SEEK_TYPE_SET 0 GST_SEEK_TYPE_NONE 0"

definition UnsupportedSeeksAreRejected :: "('e, 'c) factories \<Rightarrow> verdict \<Rightarrow> ('e sink_run, unit) state" where
  "UnsupportedSeeksAreRejected gst v = gated v (do {
     sink \<leftarrow> makeReadyAudioSink gst;
     fatal_some sink (\<lambda>(sink, e).
       case send_event sink endSeek e of (e1, sent1) \<Rightarrow> do {
         check (\<not> sent1);
         case send_event sink nonFlushSeek e1 of (e2, sent2) \<Rightarrow> do {
           check (\<not> sent2);
           teardown sink e2 }}) })"

definition UnhandledDownstreamEventIsConsumed :: "('e, 'c) factories \<Rightarrow> verdict \<Rightarrow> ('e sink_run, unit) state" where
  "UnhandledDownstreamEventIsConsumed gst v = gated v (do {
     sink \<leftarrow> makeReadyAudioSink gst;
     fatal_some sink (\<lambda>(sink, e).
       case send_event sink (CustomDownstream ''rialto-conformance-downstream'') e of (e1, sent) \<Rightarrow> do {
         check sent;
         teardown sink e1 }) })"

section \<open>Scripts of calls\<close>

text \<open>A state case is a script: calls with the results they must return, run from the state of a
  new element.\<close>

datatype call = SetState GstState | ChangeState GstStateChange

fun perform :: "('e, 'c) sink_class \<Rightarrow> call \<Rightarrow> 'e \<Rightarrow> 'e \<times> GstStateChangeReturn" where
  "perform c (SetState s) e = set_state c s e"
| "perform c (ChangeState t) e = change_state c t e"

type_synonym script = "(call \<times> GstStateChangeReturn) list"

fun meets_script :: "('e, 'c) sink_class \<Rightarrow> script \<Rightarrow> 'e \<Rightarrow> bool" where
  "meets_script c [] e \<longleftrightarrow> True"
| "meets_script c ((k, expected) # ks) e \<longleftrightarrow>
     snd (perform c k e) = expected \<and> meets_script c ks (fst (perform c k e))"

fun after_script :: "('e, 'c) sink_class \<Rightarrow> script \<Rightarrow> 'e \<Rightarrow> 'e" where
  "after_script c [] e = e"
| "after_script c ((k, _) # ks) e = after_script c ks (fst (perform c k e))"

lemma meets_script_append [simp]:
  "meets_script c (ks @ ls) e \<longleftrightarrow> meets_script c ks e \<and> meets_script c ls (after_script c ks e)"
  by (induction c ks e rule: meets_script.induct) auto

section \<open>Verdicts of the state cases\<close>

lemma decides_makeAudioSink [decide_rules]:
  assumes "\<And>c. gst kAudioSink = Some c \<Longrightarrow> decides (f c) (P c)"
  shows "decides (State_Monad.bind (makeAudioSink gst) (\<lambda>sink. fatal_some sink f))
     (case gst kAudioSink of None \<Rightarrow> False | Some c \<Rightarrow> P c)"
proof (cases "gst kAudioSink")
  case None
  then show ?thesis by (simp add: decides_def makeAudioSink_def gst_element_factory_make_def fatal_some_def sink_passed_def passed_def)
next
  case (Some c)
  with assms show ?thesis
    by (auto simp: decides_def makeAudioSink_def gst_element_factory_make_def fatal_some_def sink_passed_def passed_def)
qed

lemma owns_makeAudioSink [own_rules]:
  assumes "\<And>c. owns (f c) (- 1)"
  shows "owns (State_Monad.bind (makeAudioSink gst) (\<lambda>sink. fatal_some sink f)) 0"
  using assms by (cases "gst kAudioSink")
    (auto simp: owns_def makeAudioSink_def gst_element_factory_make_def fatal_some_def outstanding_def)

definition state_cases :: "('e, 'c) factories \<Rightarrow> verdict \<Rightarrow> ('e sink_run, unit) state list" where
  "state_cases gst v = [NullDelegateStateChangeFails gst v, NullToReadyReachesReadyWhenRunning gst v,
     ReadyToPausedIsAsyncWhenSourceNotAttached gst v, PausedToPlayingFailsWhenSourceNotAttached gst v,
     PausedToReadyTearsDownAndSucceeds gst v, ReadyToNullReleasesAndSucceeds gst v]"

text \<open>What the contract says of a sink with no source: it is down, up with its delegate, or waiting
  for a source with a client.  A call the contract says nothing of has no step.\<close>

datatype phase = Down | Up | Waiting

fun contract_step :: "call \<Rightarrow> phase \<Rightarrow> (phase \<times> GstStateChangeReturn) option" where
  "contract_step (ChangeState READY_TO_PAUSED) Down = Some (Down, GST_STATE_CHANGE_FAILURE)"
| "contract_step (SetState GST_STATE_READY) Down = Some (Up, GST_STATE_CHANGE_SUCCESS)"
| "contract_step (SetState GST_STATE_PAUSED) Up = Some (Waiting, GST_STATE_CHANGE_ASYNC)"
| "contract_step (SetState GST_STATE_NULL) Up = Some (Down, GST_STATE_CHANGE_SUCCESS)"
| "contract_step (ChangeState PAUSED_TO_PLAYING) Waiting = Some (Waiting, GST_STATE_CHANGE_FAILURE)"
| "contract_step (SetState GST_STATE_READY) Waiting = Some (Up, GST_STATE_CHANGE_SUCCESS)"
| "contract_step _ _ = None"

definition state_scripts :: "script list" where
  "state_scripts =
     [[(ChangeState READY_TO_PAUSED, GST_STATE_CHANGE_FAILURE)],
      [(SetState GST_STATE_READY, GST_STATE_CHANGE_SUCCESS)],
      [(SetState GST_STATE_READY, GST_STATE_CHANGE_SUCCESS), (SetState GST_STATE_PAUSED, GST_STATE_CHANGE_ASYNC)],
      [(SetState GST_STATE_READY, GST_STATE_CHANGE_SUCCESS), (SetState GST_STATE_PAUSED, GST_STATE_CHANGE_ASYNC),
       (ChangeState PAUSED_TO_PLAYING, GST_STATE_CHANGE_FAILURE)],
      [(SetState GST_STATE_READY, GST_STATE_CHANGE_SUCCESS), (SetState GST_STATE_PAUSED, GST_STATE_CHANGE_ASYNC),
       (SetState GST_STATE_READY, GST_STATE_CHANGE_SUCCESS)],
      [(SetState GST_STATE_READY, GST_STATE_CHANGE_SUCCESS), (SetState GST_STATE_NULL, GST_STATE_CHANGE_SUCCESS),
       (SetState GST_STATE_READY, GST_STATE_CHANGE_SUCCESS)]]"

lemma state_suite_scripts:
  "list_all (\<lambda>m. sink_passed (run_case m fresh_run)) (state_cases gst Proceed) \<longleftrightarrow>
     (case gst kAudioSink of None \<Rightarrow> False | Some c \<Rightarrow>
        static_pad c ''sink'' \<and> list_all (\<lambda>s. meets_script c s (fresh c)) state_scripts)"
proof -
  let ?P = "\<lambda>i. case gst kAudioSink of None \<Rightarrow> False
     | Some c \<Rightarrow> (i = 1 \<longrightarrow> static_pad c ''sink'') \<and> meets_script c (state_scripts ! i) (fresh c)"
  have d: "decides (NullDelegateStateChangeFails gst Proceed) (?P 0)"
    "decides (NullToReadyReachesReadyWhenRunning gst Proceed) (?P 1)"
    "decides (ReadyToPausedIsAsyncWhenSourceNotAttached gst Proceed) (?P 2)"
    "decides (PausedToPlayingFailsWhenSourceNotAttached gst Proceed) (?P 3)"
    "decides (PausedToReadyTearsDownAndSucceeds gst Proceed) (?P 4)"
    "decides (ReadyToNullReleasesAndSucceeds gst Proceed) (?P 5)"
    unfolding NullDelegateStateChangeFails_def NullToReadyReachesReadyWhenRunning_def
      ReadyToPausedIsAsyncWhenSourceNotAttached_def PausedToPlayingFailsWhenSourceNotAttached_def
      PausedToReadyTearsDownAndSucceeds_def ReadyToNullReleasesAndSucceeds_def
    by (rule decides_eq, (rule decide_rules)+,
        simp add: state_scripts_def split_beta eval_nat_numeral split: option.split)+
  show ?thesis
    by (simp only: state_cases_def list.pred_inject d [THEN decides_run_case, OF fresh_run_passed])
      (auto simp: state_scripts_def eval_nat_numeral split: option.split)
qed

text \<open>A script the contract admits from a phase.\<close>

fun contract_allows :: "script \<Rightarrow> phase \<Rightarrow> bool" where
  "contract_allows [] p \<longleftrightarrow> True"
| "contract_allows ((k, r) # ks) p \<longleftrightarrow>
     (case contract_step k p of None \<Rightarrow> False | Some (q, r') \<Rightarrow> r = r' \<and> contract_allows ks q)"

definition refines_contract :: "('e, 'c) sink_class \<Rightarrow> ('e \<Rightarrow> phase) \<Rightarrow> bool" where
  "refines_contract c phase_of \<longleftrightarrow> phase_of (fresh c) = Down
     \<and> (\<forall>k e p r. contract_step k (phase_of e) = Some (p, r) \<longrightarrow> snd (perform c k e) = r \<and> phase_of (fst (perform c k e)) = p)"

lemma refines_meets_script:
  "refines_contract c phase_of \<Longrightarrow> contract_allows ks (phase_of e) \<Longrightarrow> meets_script c ks e"
  by (induction c ks e rule: meets_script.induct) (auto simp: refines_contract_def split: option.splits prod.splits)

text \<open>C34: A sink that refines the contract passes every state case.  If some reading of the element's
  states as phases starts a new element down and follows the contract wherever it says
  anything, and the element has its pad, then the six cases pass, whatever else the sink does.\<close>

theorem refining_sink_passes_state_cases:
  assumes "gst kAudioSink = Some c" "static_pad c ''sink''" "refines_contract c phase_of"
  shows "list_all (\<lambda>m. sink_passed (run_case m fresh_run)) (state_cases gst Proceed)"
proof -
  have "phase_of (fresh c) = Down" using assms(3) by (simp add: refines_contract_def)
  moreover have "list_all (\<lambda>s. contract_allows s Down) state_scripts" by (simp add: state_scripts_def)
  ultimately show ?thesis
    unfolding state_suite_scripts assms(1) using assms(2) refines_meets_script [OF assms(3)]
    by (auto simp: list_all_iff)
qed

text \<open>An element that follows a step function on phases exactly; it fails what the function does not
  know.\<close>

definition machine_sink :: "(call \<Rightarrow> phase \<Rightarrow> phase \<times> GstStateChangeReturn) \<Rightarrow> (phase, unit) sink_class" where
  "machine_sink step = \<lparr>fresh = Down, find_property = (\<lambda>_. None), signal_lookup = (\<lambda>_. 0),
     pad_templates = [], type_is_a = (\<lambda>_. False), instance_is_a = (\<lambda>_. False), static_pad = (\<lambda>n. n = ''sink''),
     set_boolean = (\<lambda>_ _ e. e), get_boolean = (\<lambda>_ _. None), get_int = (\<lambda>_ _. None), set_uint = (\<lambda>_ _ e. e),
     get_uint = (\<lambda>_ _. None), set_state = (\<lambda>s e. step (SetState s) e), change_state = (\<lambda>t e. step (ChangeState t) e),
     element_query = (\<lambda>_ _. (False, Position GST_FORMAT_TIME 0)), send_event = (\<lambda>_ e. (e, False))\<rparr>"

definition contract_machine :: "call \<Rightarrow> phase \<Rightarrow> phase \<times> GstStateChangeReturn" where
  "contract_machine k p = (case contract_step k p of None \<Rightarrow> (p, GST_STATE_CHANGE_FAILURE) | Some q \<Rightarrow> q)"

lemma perform_machine_sink [simp]: "perform (machine_sink step) k e = step k e"
  by (cases k) (simp_all add: machine_sink_def)

lemma machine_refines: "refines_contract (machine_sink contract_machine) id"
  by (simp add: refines_contract_def contract_machine_def) (simp add: machine_sink_def)

theorem refining_sink_passes_state_cases_witness:
  "list_all (\<lambda>m. sink_passed (run_case m fresh_run)) (state_cases (\<lambda>_. Some (machine_sink contract_machine)) Proceed)"
  by (rule refining_sink_passes_state_cases [of _ "machine_sink contract_machine" id])
    (simp_all add: machine_refines, simp add: machine_sink_def)

text \<open>C35: The state cases leave nothing of the contract untested: take the sink that is the contract
  and let it answer one of the contract's calls, in the phase it is for, with any other result;
  at least one of the six cases fails on it.\<close>

theorem state_cases_cover_contract:
  assumes "contract_step k p = Some (q, r)" "r' \<noteq> r"
  shows "\<not> list_all (\<lambda>m. sink_passed (run_case m fresh_run))
     (state_cases (\<lambda>_. Some (machine_sink (\<lambda>k' p'. if k' = k \<and> p' = p then (q, r') else contract_machine k' p'))) Proceed)"
proof -
  have "\<not> list_all (\<lambda>s. meets_script (machine_sink (\<lambda>k' p'. if k' = k \<and> p' = p then (q, r') else contract_machine k' p')) s Down)
     state_scripts"
    using assms by (cases "(k, p)" rule: contract_step.cases)
      (auto simp: state_scripts_def contract_machine_def simp del: perform.simps)
  then show ?thesis unfolding state_suite_scripts by (simp add: machine_sink_def)
qed

theorem state_cases_cover_contract_witness:
  "\<not> list_all (\<lambda>m. sink_passed (run_case m fresh_run))
     (state_cases (\<lambda>_. Some (machine_sink (\<lambda>k' p'. if k' = ChangeState PAUSED_TO_PLAYING \<and> p' = Waiting
        then (Waiting, GST_STATE_CHANGE_ASYNC) else contract_machine k' p'))) Proceed)"
  using state_cases_cover_contract [of "ChangeState PAUSED_TO_PLAYING" Waiting Waiting GST_STATE_CHANGE_FAILURE GST_STATE_CHANGE_ASYNC]
  by simp

section \<open>Verdicts of the query and event cases\<close>

lemma decides_makeReadyAudioSink [decide_rules]:
  assumes "\<And>c. gst kAudioSink = Some c \<Longrightarrow> decides (f (c, fst (set_state c GST_STATE_READY (fresh c)))) (P c)"
  shows "decides (State_Monad.bind (makeReadyAudioSink gst) (\<lambda>sink. fatal_some sink f))
     (case gst kAudioSink of None \<Rightarrow> False
      | Some c \<Rightarrow> snd (set_state c GST_STATE_READY (fresh c)) = GST_STATE_CHANGE_SUCCESS \<and> P c)"
proof (cases "gst kAudioSink")
  case None
  then show ?thesis
    by (simp add: decides_def makeReadyAudioSink_def gst_element_factory_make_def fatal_some_def sink_passed_def passed_def)
next
  case (Some c)
  with assms show ?thesis
    by (auto simp: decides_def makeReadyAudioSink_def gst_element_factory_make_def fatal_some_def sink_passed_def
        passed_def split_beta)
qed

lemma owns_makeReadyAudioSink [own_rules]:
  assumes "\<And>x. owns (f x) (- 1)"
  shows "owns (State_Monad.bind (makeReadyAudioSink gst) (\<lambda>sink. fatal_some sink f)) 0"
  using assms by (cases "gst kAudioSink")
    (auto simp: owns_def makeReadyAudioSink_def gst_element_factory_make_def fatal_some_def outstanding_def split_beta)

definition event_cases :: "('e, 'c) factories \<Rightarrow> verdict \<Rightarrow> ('e sink_run, unit) state list" where
  "event_cases gst v = [SeekingQueryReportsNotSeekable gst v, PositionQueryFalseWithoutClient gst v,
     DurationQueryFalseWithoutClient gst v, SegmentQueryReturnsLastSegment gst v, UnsupportedSeeksAreRejected gst v,
     UnhandledDownstreamEventIsConsumed gst v]"

text \<open>What a sink without a source must answer once it is in state \<open>e\<close>.\<close>

definition sourceless_answers :: "('e, 'c) sink_class \<Rightarrow> 'e \<Rightarrow> bool" where
  "sourceless_answers c e \<longleftrightarrow>
     element_query c SeekingQuery e = (True, Seeking GST_FORMAT_TIME False 0 (- 1))
     \<and> \<not> fst (element_query c PositionQuery e) \<and> \<not> fst (element_query c DurationQuery e)
     \<and> (\<exists>rate\<in>{1 - 1 / 10 ^ 9..1 + 1 / 10 ^ 9}. element_query c SegmentQuery e = (True, SegmentAnswer rate GST_FORMAT_TIME 0 (- 1)))
     \<and> \<not> snd (send_event c endSeek e) \<and> \<not> snd (send_event c nonFlushSeek (fst (send_event c endSeek e)))
     \<and> snd (send_event c (CustomDownstream ''rialto-conformance-downstream'') e)"

lemma decides_event_cases:
  fixes gst :: "('e, 'c) factories"
  defines "ready c \<equiv> set_state c GST_STATE_READY (fresh c)"
  defines "P Q \<equiv> (case gst kAudioSink of None \<Rightarrow> False | Some c \<Rightarrow>
     snd (ready c) = GST_STATE_CHANGE_SUCCESS \<and> Q c (fst (ready c)))"
  shows "decides (SeekingQueryReportsNotSeekable gst Proceed)
      (P (\<lambda>c e. element_query c SeekingQuery e = (True, Seeking GST_FORMAT_TIME False 0 (- 1))))"
    "decides (PositionQueryFalseWithoutClient gst Proceed) (P (\<lambda>c e. \<not> fst (element_query c PositionQuery e)))"
    "decides (DurationQueryFalseWithoutClient gst Proceed) (P (\<lambda>c e. \<not> fst (element_query c DurationQuery e)))"
    "decides (SegmentQueryReturnsLastSegment gst Proceed)
      (P (\<lambda>c e. \<exists>rate\<in>{1 - 1 / 10 ^ 9..1 + 1 / 10 ^ 9}. element_query c SegmentQuery e = (True, SegmentAnswer rate GST_FORMAT_TIME 0 (- 1))))"
    "decides (UnsupportedSeeksAreRejected gst Proceed)
      (P (\<lambda>c e. \<not> snd (send_event c endSeek e) \<and> \<not> snd (send_event c nonFlushSeek (fst (send_event c endSeek e)))))"
    "decides (UnhandledDownstreamEventIsConsumed gst Proceed)
      (P (\<lambda>c e. snd (send_event c (CustomDownstream ''rialto-conformance-downstream'') e)))"
proof -
  have seeking: "(a \<and> (case gst_query_parse_seeking q (GST_FORMAT_UNDEFINED, True, - 1, 0) of (fmt, seekable, start, stop) \<Rightarrow>
      fmt = GST_FORMAT_TIME \<and> \<not> seekable \<and> start = 0 \<and> stop = - 1)) \<longleftrightarrow> (a, q) = (True, Seeking GST_FORMAT_TIME False 0 (- 1))" for a q
    by (cases q) auto
  have rate: "double_equal r 1 (1 / 10 ^ 9) \<longleftrightarrow> 1 - 1 / 10 ^ 9 \<le> r \<and> r \<le> 1 + 1 / 10 ^ 9" for r
    unfolding double_equal_def by (cases "0 \<le> r - 1") (auto simp: field_simps)
  have segment: "(a \<and> (case gst_query_parse_segment q (0, GST_FORMAT_UNDEFINED, - 1, 0) of (rate, fmt, start, stop) \<Rightarrow>
      double_equal rate 1 (1 / 10 ^ 9) \<and> fmt = GST_FORMAT_TIME \<and> start = 0 \<and> stop = - 1)) \<longleftrightarrow>
      (\<exists>rate\<in>{1 - 1 / 10 ^ 9..1 + 1 / 10 ^ 9}. (a, q) = (True, SegmentAnswer rate GST_FORMAT_TIME 0 (- 1)))" for a q
    by (cases q) (auto simp: rate [simplified])
  show "decides (SeekingQueryReportsNotSeekable gst Proceed)
      (P (\<lambda>c e. element_query c SeekingQuery e = (True, Seeking GST_FORMAT_TIME False 0 (- 1))))"
    unfolding SeekingQueryReportsNotSeekable_def teardown_def
    apply (rule decides_eq, (rule decide_rules)+)
    using seeking by (auto simp: P_def ready_def split: option.split prod.splits)
  show "decides (SegmentQueryReturnsLastSegment gst Proceed)
      (P (\<lambda>c e. \<exists>rate\<in>{1 - 1 / 10 ^ 9..1 + 1 / 10 ^ 9}. element_query c SegmentQuery e = (True, SegmentAnswer rate GST_FORMAT_TIME 0 (- 1))))"
    unfolding SegmentQueryReturnsLastSegment_def teardown_def
    apply (rule decides_eq, (rule decide_rules)+)
    using segment by (auto simp: P_def ready_def split: option.split prod.splits)
qed (unfold PositionQueryFalseWithoutClient_def DurationQueryFalseWithoutClient_def UnsupportedSeeksAreRejected_def
      UnhandledDownstreamEventIsConsumed_def teardown_def,
    (rule decides_eq, (rule decide_rules)+, simp add: P_def ready_def split_beta split: option.split)+)

lemma event_suite_decided:
  "list_all (\<lambda>m. sink_passed (run_case m fresh_run)) (event_cases gst Proceed) \<longleftrightarrow>
     (case gst kAudioSink of None \<Rightarrow> False | Some c \<Rightarrow>
        snd (set_state c GST_STATE_READY (fresh c)) = GST_STATE_CHANGE_SUCCESS
        \<and> sourceless_answers c (fst (set_state c GST_STATE_READY (fresh c))))"
  by (simp only: event_cases_def list.pred_inject decides_event_cases [THEN decides_run_case, OF fresh_run_passed])
    (simp add: sourceless_answers_def conj_ac split: option.split)

text \<open>The six query and event cases pass exactly on a sink that reaches READY synchronously and
  there, without a source, answers the seeking query with not seekable on \<open>[0, -1]\<close>, refuses
  position and duration, answers the segment query with the initial segment, refuses both
  unsupported seeks one after the other and consumes the unknown event.  An answer that leaves
  the query's contents alone, or fills in another kind of query, is caught by the initial
  values of the variables.\<close>

lemma event_cases_verdict:
  "list_all (\<lambda>m. sink_passed (run_case m fresh_run)) (event_cases gst Proceed) \<longleftrightarrow>
     (case gst kAudioSink of None \<Rightarrow> False | Some c \<Rightarrow>
        snd (set_state c GST_STATE_READY (fresh c)) = GST_STATE_CHANGE_SUCCESS
        \<and> sourceless_answers c (fst (set_state c GST_STATE_READY (fresh c))))"
  by (rule event_suite_decided)

text \<open>Every element a state or event case makes is unreferenced on every path, and every such case
  sends it to the initial state first, but for the one that never left it.\<close>

lemma state_cases_own_nothing: "list_all (\<lambda>m. owns m 0) (state_cases gst v)"
  unfolding state_cases_def NullDelegateStateChangeFails_def NullToReadyReachesReadyWhenRunning_def
    ReadyToPausedIsAsyncWhenSourceNotAttached_def PausedToPlayingFailsWhenSourceNotAttached_def
    PausedToReadyTearsDownAndSucceeds_def ReadyToNullReleasesAndSucceeds_def list.pred_inject
  by ((rule conjI own_rules)+) simp

lemma event_cases_own_nothing: "list_all (\<lambda>m. owns m 0) (event_cases gst v)"
  unfolding event_cases_def SeekingQueryReportsNotSeekable_def PositionQueryFalseWithoutClient_def
    DurationQueryFalseWithoutClient_def SegmentQueryReturnsLastSegment_def UnsupportedSeeksAreRejected_def
    UnhandledDownstreamEventIsConsumed_def teardown_def list.pred_inject
  by ((rule conjI own_rules)+) simp

end
