(* ===== verification/Sink_Caps_Cases.thy ===== *)
theory Sink_Caps_Cases
  imports Sink_Element
begin

text \<open>
  The pad-template and caps cases of the sinks (\<open>src/L1_function/mse/CapsTests.cpp\<close>).  \<open>GstCaps\<close> and
  its operations are GStreamer's: a record of functions on a type \<open>'c\<close>.  Reference counts of
  caps are left out.
\<close>

section \<open>The documented caps\<close>

definition kDocumentedAudioCaps :: "string list" where
  "kDocumentedAudioCaps = [
     ''audio/mpeg, mpegversion=1'', ''audio/mpeg, mpegversion=2'', ''audio/mpeg, mpegversion=4'',
     ''audio/x-ac3'', ''audio/x-eac3'', ''audio/x-opus'',
     ''audio/b-wav'', ''audio/x-flac'', ''audio/x-raw'']"

definition kDocumentedVideoCaps :: "string list" where
  "kDocumentedVideoCaps = [''video/x-h264'', ''video/x-h265'', ''video/x-av1'', ''video/x-vp9'']"

definition kDocumentedSubtitleCaps :: "string list" where
  "kDocumentedSubtitleCaps = [
     ''text/vtt'', ''application/x-subtitle-vtt'', ''application/ttml+xml'', ''closedcaption/x-cea-608'',
     ''closedcaption/x-cea-708'', ''application/x-cea-608'', ''application/x-cea-708'', ''application/x-subtitle-cc'']"

record 'c caps_lib =
  caps_new_empty :: 'c
  caps_append :: "'c \<Rightarrow> 'c \<Rightarrow> 'c"
  caps_from_string :: "string \<Rightarrow> 'c"
  caps_is_subset :: "'c \<Rightarrow> 'c \<Rightarrow> bool"
  caps_is_empty :: "'c \<Rightarrow> bool"

section \<open>Helpers\<close>

definition sinkPadTemplate :: "('e, 'c) sink_class \<Rightarrow> 'c pad_template option" where
  "sinkPadTemplate element = List.find (\<lambda>t. name_template t = ''sink'') (pad_templates element)"

definition sinkTemplateCaps :: "('e, 'c) sink_class \<Rightarrow> 'c option" where
  "sinkTemplateCaps element = (case sinkPadTemplate element of None \<Rightarrow> None | Some tmpl \<Rightarrow> pad_caps tmpl)"

definition documentedUnion :: "'c caps_lib \<Rightarrow> string list \<Rightarrow> 'c" where
  "documentedUnion lib docCaps = foldl (\<lambda>caps s. caps_append lib caps (caps_from_string lib s)) (caps_new_empty lib) docCaps"

definition assertAdvertisedWithinDocumented ::
  "'c caps_lib \<Rightarrow> ('e, 'c) sink_class \<Rightarrow> string list \<Rightarrow> ('e sink_run, unit) state" where
  "assertAdvertisedWithinDocumented lib sink docCaps =
     (let advertised = sinkTemplateCaps sink in do {
        check (advertised \<noteq> None);
        (case advertised of
           None \<Rightarrow> State_Monad.return ()
         | Some advertised \<Rightarrow> check (caps_is_subset lib advertised (documentedUnion lib docCaps))) })"

definition advertises :: "'c caps_lib \<Rightarrow> ('e, 'c) sink_class \<Rightarrow> string \<Rightarrow> bool" where
  "advertises lib sink capsStr =
     (case sinkTemplateCaps sink of None \<Rightarrow> False
      | Some advertised \<Rightarrow> caps_is_subset lib (caps_from_string lib capsStr) advertised)"

text \<open>The fatal assertion returns from the helper only.\<close>

definition assertSingleAlwaysSinkTemplate :: "('e, 'c) sink_class \<Rightarrow> ('e sink_run, unit) state" where
  "assertSingleAlwaysSinkTemplate sink = (let templates = pad_templates sink in do {
     check (length templates = 1);
     fatal (templates \<noteq> []) (let tmpl = hd templates in do {
       check (direction tmpl = GST_PAD_SINK);
       check (presence tmpl = GST_PAD_ALWAYS);
       check (name_template tmpl = ''sink'') }) })"

section \<open>The cases\<close>

definition SinkPadTemplateIsSingleAlwaysSink :: "('e, 'c) factories \<Rightarrow> verdict \<Rightarrow> ('e sink_run, unit) state" where
  "SinkPadTemplateIsSingleAlwaysSink gst v = gated v
     (each_then [kAudioSink, kVideoSink, kSubtitleSink] (\<lambda>factory k. do {
        sink \<leftarrow> gst_element_factory_make gst factory;
        fatal_some sink (\<lambda>sink. do {
          assertSingleAlwaysSinkTemplate sink;
          unref (fresh sink);
          k }) }) (State_Monad.return ()))"

definition AdvertisedCapsAreDocumentedSubset ::
  "'c caps_lib \<Rightarrow> ('e, 'c) factories \<Rightarrow> verdict \<Rightarrow> ('e sink_run, unit) state" where
  "AdvertisedCapsAreDocumentedSubset lib gst v = gated v (do {
     audio \<leftarrow> gst_element_factory_make gst kAudioSink;
     video \<leftarrow> gst_element_factory_make gst kVideoSink;
     subtitle \<leftarrow> gst_element_factory_make gst kSubtitleSink;
     fatal_some audio (\<lambda>audio. fatal_some video (\<lambda>video. fatal_some subtitle (\<lambda>subtitle. do {
       assertAdvertisedWithinDocumented lib audio kDocumentedAudioCaps;
       assertAdvertisedWithinDocumented lib video kDocumentedVideoCaps;
       assertAdvertisedWithinDocumented lib subtitle kDocumentedSubtitleCaps;
       unref (fresh audio);
       unref (fresh video);
       unref (fresh subtitle) }))) })"

definition AudioMimeToCapsMappingCorrect ::
  "'c caps_lib \<Rightarrow> ('e, 'c) factories \<Rightarrow> verdict \<Rightarrow> ('e sink_run, unit) state" where
  "AudioMimeToCapsMappingCorrect lib gst v = gated v (with_sink gst kAudioSink (\<lambda>sink. do {
     assertAdvertisedWithinDocumented lib sink kDocumentedAudioCaps;
     fatal_some (sinkTemplateCaps sink) (\<lambda>advertised. do {
       check (\<not> caps_is_empty lib advertised);
       unref (fresh sink) }) }))"

definition VideoMimeToCapsMappingCorrect ::
  "'c caps_lib \<Rightarrow> ('e, 'c) factories \<Rightarrow> verdict \<Rightarrow> ('e sink_run, unit) state" where
  "VideoMimeToCapsMappingCorrect lib gst v = gated v (with_sink gst kVideoSink (\<lambda>sink. do {
     assertAdvertisedWithinDocumented lib sink kDocumentedVideoCaps;
     check (advertises lib sink ''video/x-h264'');
     unref (fresh sink) }))"

definition SubtitleMimeToCapsMappingCorrect ::
  "'c caps_lib \<Rightarrow> ('e, 'c) factories \<Rightarrow> verdict \<Rightarrow> ('e sink_run, unit) state" where
  "SubtitleMimeToCapsMappingCorrect lib gst v = gated v (with_sink gst kSubtitleSink (\<lambda>sink. do {
     assertAdvertisedWithinDocumented lib sink kDocumentedSubtitleCaps;
     unref (fresh sink) }))"

definition caps_cases :: "'c caps_lib \<Rightarrow> ('e, 'c) factories \<Rightarrow> verdict \<Rightarrow> ('e sink_run, unit) state list" where
  "caps_cases lib gst v = [SinkPadTemplateIsSingleAlwaysSink gst v, AdvertisedCapsAreDocumentedSubset lib gst v,
     AudioMimeToCapsMappingCorrect lib gst v, VideoMimeToCapsMappingCorrect lib gst v,
     SubtitleMimeToCapsMappingCorrect lib gst v]"

section \<open>Verdicts\<close>

text \<open>What the caps operations mean: \<open>denote\<close> is the set of formats caps stand for.\<close>

definition caps_meaning :: "'c caps_lib \<Rightarrow> ('c \<Rightarrow> 'f set) \<Rightarrow> bool" where
  "caps_meaning lib denote \<longleftrightarrow> denote (caps_new_empty lib) = {}
     \<and> (\<forall>a b. denote (caps_append lib a b) = denote a \<union> denote b)
     \<and> (\<forall>a b. caps_is_subset lib a b \<longleftrightarrow> denote a \<subseteq> denote b)
     \<and> (\<forall>a. caps_is_empty lib a \<longleftrightarrow> denote a = {})"

text \<open>The formats a list of caps strings documents.\<close>

definition documented_formats :: "'c caps_lib \<Rightarrow> ('c \<Rightarrow> 'f set) \<Rightarrow> string list \<Rightarrow> 'f set" where
  "documented_formats lib denote docs = (\<Union>s\<in>set docs. denote (caps_from_string lib s))"

lemma denote_documentedUnion:
  assumes "caps_meaning lib denote"
  shows "denote (documentedUnion lib docs) = documented_formats lib denote docs"
proof -
  have "denote (foldl (\<lambda>caps s. caps_append lib caps (caps_from_string lib s)) acc docs)
     = denote acc \<union> documented_formats lib denote docs" for acc
    using assms by (induction docs arbitrary: acc) (auto simp: caps_meaning_def documented_formats_def)
  with assms show ?thesis by (simp add: documentedUnion_def caps_meaning_def)
qed

lemma decides_assertAdvertised [decide_rules]:
  "decides (assertAdvertisedWithinDocumented lib sink docs)
     (case sinkTemplateCaps sink of None \<Rightarrow> False | Some a \<Rightarrow> caps_is_subset lib a (documentedUnion lib docs))"
  unfolding assertAdvertisedWithinDocumented_def Let_def
  by (cases "sinkTemplateCaps sink") (auto simp: decides_def)

lemma owns_caps_helpers [own_rules]:
  "owns (assertAdvertisedWithinDocumented lib sink docs) 0" "owns (assertSingleAlwaysSinkTemplate sink) 0"
  unfolding assertAdvertisedWithinDocumented_def assertSingleAlwaysSinkTemplate_def Let_def
  by (auto simp: owns_def outstanding_def fatal_def split: option.split)

text \<open>The template every sink must have, and no other.\<close>

definition single_template :: "('e, 'c) sink_class \<Rightarrow> bool" where
  "single_template c \<longleftrightarrow> (\<exists>caps. pad_templates c =
     [\<lparr>direction = GST_PAD_SINK, presence = GST_PAD_ALWAYS, name_template = ''sink'', pad_caps = caps\<rparr>])"

lemma decides_single_template [decide_rules]:
  "decides (assertSingleAlwaysSinkTemplate sink) (single_template sink)"
proof (cases "pad_templates sink")
  case (Cons t ts)
  then show ?thesis
    by (cases t) (auto simp: assertSingleAlwaysSinkTemplate_def single_template_def decides_def Let_def fatal_def)
qed (simp add: assertSingleAlwaysSinkTemplate_def single_template_def decides_def Let_def fatal_def)

definition advertises_within :: "'c caps_lib \<Rightarrow> ('c \<Rightarrow> 'f set) \<Rightarrow> ('e, 'c) sink_class \<Rightarrow> string list \<Rightarrow> bool" where
  "advertises_within lib denote c docs =
     (case sinkTemplateCaps c of None \<Rightarrow> False | Some a \<Rightarrow> denote a \<subseteq> documented_formats lib denote docs)"

lemma within_subset:
  "caps_meaning lib denote \<Longrightarrow>
     (case sinkTemplateCaps c of None \<Rightarrow> False | Some a \<Rightarrow> caps_is_subset lib a (documentedUnion lib docs))
     = advertises_within lib denote c docs"
  by (auto simp: advertises_within_def denote_documentedUnion caps_meaning_def split: option.split)

lemma decides_caps_cases:
  assumes "caps_meaning lib denote"
  shows "decides (SinkPadTemplateIsSingleAlwaysSink gst v) (v = Proceed
      \<and> list_all (\<lambda>f. case gst f of None \<Rightarrow> False | Some c \<Rightarrow> single_template c) [kAudioSink, kVideoSink, kSubtitleSink])"
    and "decides (AdvertisedCapsAreDocumentedSubset lib gst v) (v = Proceed
      \<and> (case (gst kAudioSink, gst kVideoSink, gst kSubtitleSink) of
          (Some a, Some w, Some t) \<Rightarrow> advertises_within lib denote a kDocumentedAudioCaps
            \<and> advertises_within lib denote w kDocumentedVideoCaps \<and> advertises_within lib denote t kDocumentedSubtitleCaps
        | _ \<Rightarrow> False))"
    and "decides (AudioMimeToCapsMappingCorrect lib gst v) (v = Proceed
      \<and> (case gst kAudioSink of None \<Rightarrow> False | Some c \<Rightarrow> advertises_within lib denote c kDocumentedAudioCaps
          \<and> (case sinkTemplateCaps c of None \<Rightarrow> False | Some a \<Rightarrow> denote a \<noteq> {})))"
    and "decides (VideoMimeToCapsMappingCorrect lib gst v) (v = Proceed
      \<and> (case gst kVideoSink of None \<Rightarrow> False | Some c \<Rightarrow> advertises_within lib denote c kDocumentedVideoCaps
          \<and> (case sinkTemplateCaps c of None \<Rightarrow> False | Some a \<Rightarrow> denote (caps_from_string lib ''video/x-h264'') \<subseteq> denote a)))"
    and "decides (SubtitleMimeToCapsMappingCorrect lib gst v) (v = Proceed
      \<and> (case gst kSubtitleSink of None \<Rightarrow> False | Some c \<Rightarrow> advertises_within lib denote c kDocumentedSubtitleCaps))"
proof -
  have m: "\<And>a b. caps_is_subset lib a b \<longleftrightarrow> denote a \<subseteq> denote b" "\<And>a. caps_is_empty lib a \<longleftrightarrow> denote a = {}"
    using assms by (auto simp: caps_meaning_def)
  have w: "decides (assertAdvertisedWithinDocumented lib c docs) (advertises_within lib denote c docs)" for c docs
    using decides_assertAdvertised by (rule decides_eq) (rule within_subset [OF assms])
  show "decides (SinkPadTemplateIsSingleAlwaysSink gst v) (v = Proceed
      \<and> list_all (\<lambda>f. case gst f of None \<Rightarrow> False | Some c \<Rightarrow> single_template c) [kAudioSink, kVideoSink, kSubtitleSink])"
    unfolding SinkPadTemplateIsSingleAlwaysSink_def each_then.simps
    by (rule decides_eq, (rule decide_rules)+) (auto split: option.splits)
  show "decides (AdvertisedCapsAreDocumentedSubset lib gst v) (v = Proceed
      \<and> (case (gst kAudioSink, gst kVideoSink, gst kSubtitleSink) of
          (Some a, Some w, Some t) \<Rightarrow> advertises_within lib denote a kDocumentedAudioCaps
            \<and> advertises_within lib denote w kDocumentedVideoCaps \<and> advertises_within lib denote t kDocumentedSubtitleCaps
        | _ \<Rightarrow> False))"
    unfolding AdvertisedCapsAreDocumentedSubset_def
    by (rule decides_eq, (rule w decide_rules)+) (auto split: option.splits)
  show "decides (AudioMimeToCapsMappingCorrect lib gst v) (v = Proceed
      \<and> (case gst kAudioSink of None \<Rightarrow> False | Some c \<Rightarrow> advertises_within lib denote c kDocumentedAudioCaps
          \<and> (case sinkTemplateCaps c of None \<Rightarrow> False | Some a \<Rightarrow> denote a \<noteq> {})))"
    unfolding AudioMimeToCapsMappingCorrect_def
    by (rule decides_eq, (rule w decide_rules)+) (auto simp: m split: option.split)
  show "decides (VideoMimeToCapsMappingCorrect lib gst v) (v = Proceed
      \<and> (case gst kVideoSink of None \<Rightarrow> False | Some c \<Rightarrow> advertises_within lib denote c kDocumentedVideoCaps
          \<and> (case sinkTemplateCaps c of None \<Rightarrow> False | Some a \<Rightarrow> denote (caps_from_string lib ''video/x-h264'') \<subseteq> denote a)))"
    unfolding VideoMimeToCapsMappingCorrect_def advertises_def
    by (rule decides_eq, (rule w decide_rules)+) (auto simp: m split: option.split)
  show "decides (SubtitleMimeToCapsMappingCorrect lib gst v) (v = Proceed
      \<and> (case gst kSubtitleSink of None \<Rightarrow> False | Some c \<Rightarrow> advertises_within lib denote c kDocumentedSubtitleCaps))"
    unfolding SubtitleMimeToCapsMappingCorrect_def
    by (rule decides_eq, (rule w decide_rules)+) (auto split: option.split)
qed

lemma caps_suite_decided:
  assumes "caps_meaning lib denote"
  shows "list_all (\<lambda>m. sink_passed (run_case m fresh_run)) (caps_cases lib gst Proceed) \<longleftrightarrow>
     (case (gst kAudioSink, gst kVideoSink, gst kSubtitleSink) of
        (Some a, Some w, Some t) \<Rightarrow>
          single_template a \<and> single_template w \<and> single_template t
          \<and> advertises_within lib denote a kDocumentedAudioCaps \<and> advertises_within lib denote w kDocumentedVideoCaps
          \<and> advertises_within lib denote t kDocumentedSubtitleCaps
          \<and> map_option denote (sinkTemplateCaps a) \<noteq> Some {}
          \<and> denote (caps_from_string lib ''video/x-h264'') \<subseteq> (case sinkTemplateCaps w of None \<Rightarrow> {} | Some c \<Rightarrow> denote c)
      | _ \<Rightarrow> False)"
  unfolding caps_cases_def list.pred_inject decides_caps_cases [OF assms, THEN decides_run_case, OF fresh_run_passed]
  by (auto simp: advertises_within_def split: option.splits)

text \<open>Soundness, and no more: the five caps cases pass exactly when each sink has one pad template,
  an always-present sink pad called \<open>sink\<close>, the formats it advertises are among those the mapping
  documents for it, the audio sink advertises some format and the video sink all of H.264.  What
  the server supports does not enter: a sink that advertises less than it can passes all the
  same.\<close>

lemma caps_cases_verdict:
  assumes "caps_meaning lib denote"
  shows "list_all (\<lambda>m. sink_passed (run_case m fresh_run)) (caps_cases lib gst Proceed) \<longleftrightarrow>
     (case (gst kAudioSink, gst kVideoSink, gst kSubtitleSink) of
        (Some a, Some w, Some t) \<Rightarrow>
          single_template a \<and> single_template w \<and> single_template t
          \<and> advertises_within lib denote a kDocumentedAudioCaps \<and> advertises_within lib denote w kDocumentedVideoCaps
          \<and> advertises_within lib denote t kDocumentedSubtitleCaps
          \<and> map_option denote (sinkTemplateCaps a) \<noteq> Some {}
          \<and> denote (caps_from_string lib ''video/x-h264'') \<subseteq> (case sinkTemplateCaps w of None \<Rightarrow> {} | Some c \<Rightarrow> denote c)
      | _ \<Rightarrow> False)"
  using assms by (rule caps_suite_decided)

text \<open>Caps as sets of the strings that stand for them.\<close>

definition string_caps :: "string set caps_lib" where
  "string_caps = \<lparr>caps_new_empty = {}, caps_append = (\<union>), caps_from_string = (\<lambda>s. {s}), caps_is_subset = (\<subseteq>),
     caps_is_empty = (\<lambda>a. a = {})\<rparr>"

definition caps_sink :: "string set \<Rightarrow> (unit, string set) sink_class" where
  "caps_sink caps = \<lparr>fresh = (), find_property = (\<lambda>_. None), signal_lookup = (\<lambda>_. 0),
     pad_templates = [\<lparr>direction = GST_PAD_SINK, presence = GST_PAD_ALWAYS, name_template = ''sink'', pad_caps = Some caps\<rparr>],
     type_is_a = (\<lambda>_. False), instance_is_a = (\<lambda>_. False), static_pad = (\<lambda>_. True),
     set_boolean = (\<lambda>_ _ e. e), get_boolean = (\<lambda>_ _. None), get_int = (\<lambda>_ _. None), set_uint = (\<lambda>_ _ e. e),
     get_uint = (\<lambda>_ _. None), set_state = (\<lambda>_ e. (e, GST_STATE_CHANGE_SUCCESS)),
     change_state = (\<lambda>_ e. (e, GST_STATE_CHANGE_FAILURE)),
     element_query = (\<lambda>_ _. (False, Position GST_FORMAT_TIME 0)), send_event = (\<lambda>_ e. (e, False))\<rparr>"

definition caps_registry :: "string set \<Rightarrow> (unit, string set) factories" where
  "caps_registry audio = [kAudioSink \<mapsto> caps_sink audio, kVideoSink \<mapsto> caps_sink {''video/x-h264''}, kSubtitleSink \<mapsto> caps_sink {}]"

lemma caps_cases_verdict_witness:
  "list_all (\<lambda>m. sink_passed (run_case m fresh_run)) (caps_cases string_caps (caps_registry {''audio/x-opus''}) Proceed)
   \<and> \<not> list_all (\<lambda>m. sink_passed (run_case m fresh_run)) (caps_cases string_caps (caps_registry {''audio/x-speex''}) Proceed)"
proof -
  have meaning: "caps_meaning string_caps id" by (simp add: caps_meaning_def string_caps_def)
  have names: "kAudioSink \<noteq> kVideoSink" "kAudioSink \<noteq> kSubtitleSink" "kVideoSink \<noteq> kSubtitleSink"
    by (simp_all add: kAudioSink_def kVideoSink_def kSubtitleSink_def)
  show ?thesis
    unfolding caps_cases_verdict [OF meaning]
    by (simp add: caps_registry_def names names [symmetric] caps_sink_def string_caps_def single_template_def
        advertises_within_def sinkTemplateCaps_def sinkPadTemplate_def documented_formats_def
        kDocumentedAudioCaps_def kDocumentedVideoCaps_def)
qed

text \<open>The element references: the three cases on one sink leave nothing behind on the paths their
  fatal assertions do not cut; the case on all three keeps the elements it made when one of
  them is missing.\<close>

lemma caps_cases_own:
  "owns (VideoMimeToCapsMappingCorrect lib gst v) 0" "owns (SubtitleMimeToCapsMappingCorrect lib gst v) 0"
  unfolding VideoMimeToCapsMappingCorrect_def SubtitleMimeToCapsMappingCorrect_def by ((rule own_rules)+)

lemma advertised_case_leaks:
  "outstanding (run_case (AdvertisedCapsAreDocumentedSubset lib gst Proceed) s) = outstanding s +
     (let there = filter (\<lambda>f. gst f \<noteq> None) [kAudioSink, kVideoSink, kSubtitleSink]
      in if length there = 3 then 0 else int (length there))"
  unfolding AdvertisedCapsAreDocumentedSubset_def
  by (cases "gst kAudioSink"; cases "gst kVideoSink"; cases "gst kSubtitleSink")
    (simp_all add: run_case_def gated_def gst_element_factory_make_def fatal_some_def unref_def outstanding_def
      assertAdvertisedWithinDocumented_def Let_def split: option.split)

lemma audio_caps_case_leaks:
  "outstanding (run_case (AudioMimeToCapsMappingCorrect lib gst Proceed) s) = outstanding s +
     (case gst kAudioSink of None \<Rightarrow> 0 | Some c \<Rightarrow> if sinkTemplateCaps c = None then 1 else 0)"
  unfolding AudioMimeToCapsMappingCorrect_def with_sink_def
  by (cases "gst kAudioSink")
    (auto simp: run_case_def gated_def gst_element_factory_make_def fatal_some_def unref_def outstanding_def
      assertAdvertisedWithinDocumented_def Let_def split: option.split)

end
