(* ===== verification/Sink_Registration_Cases.thy ===== *)
theory Sink_Registration_Cases
  imports Sink_Element
begin

text \<open>
  The registration cases of the sinks (\<open>src/L1_function/mse/SinkRegistrationTests.cpp\<close>): the
  factories of this process, and the registration probe, which runs this program again in a
  child process (\<open>Case_Gates\<close>) to see which factories the plugin registers under another rank.
  References to factories are left out.
\<close>

section \<open>The factories of this process\<close>

text \<open>The fatal assertions of the helpers return from the helper only.\<close>

definition assertSinkRegistered ::
  "(string \<Rightarrow> ('e, 'c) element_factory option) \<Rightarrow> string \<Rightarrow> ('e sink_run, unit) state" where
  "assertSinkRegistered registry factoryName = fatal_some (registry factoryName) (\<lambda>factory. do {
     element \<leftarrow> gst_element_factory_make (\<lambda>_. creates factory) factoryName;
     check (element \<noteq> None);
     (case element of None \<Rightarrow> State_Monad.return () | Some element \<Rightarrow> unref (fresh element)) })"

definition assertSinkKlass ::
  "(string \<Rightarrow> ('e, 'c) element_factory option) \<Rightarrow> string \<Rightarrow> string \<Rightarrow> ('e sink_run, unit) state" where
  "assertSinkKlass registry factoryName expectedKlass = fatal_some (registry factoryName) (\<lambda>factory. do {
     check (klass_metadata factory \<noteq> None);
     (case klass_metadata factory of None \<Rightarrow> State_Monad.return () | Some klass \<Rightarrow> check (klass = expectedKlass)) })"

definition VideoSinkRegistered ::
  "(string \<Rightarrow> ('e, 'c) element_factory option) \<Rightarrow> verdict \<Rightarrow> ('e sink_run, unit) state" where
  "VideoSinkRegistered registry v = gated v (assertSinkRegistered registry kVideoSink)"

definition AudioSinkRegistered ::
  "(string \<Rightarrow> ('e, 'c) element_factory option) \<Rightarrow> verdict \<Rightarrow> ('e sink_run, unit) state" where
  "AudioSinkRegistered registry v = gated v (assertSinkRegistered registry kAudioSink)"

definition SinkFactoryKlassMetadata ::
  "(string \<Rightarrow> ('e, 'c) element_factory option) \<Rightarrow> verdict \<Rightarrow> ('e sink_run, unit) state" where
  "SinkFactoryKlassMetadata registry v = gated v (do {
     assertSinkKlass registry kVideoSink ''Decoder/Video/Sink/Video'';
     assertSinkKlass registry kAudioSink ''Decoder/Audio/Sink/Audio'';
     assertSinkKlass registry kSubtitleSink ''Parser/Subtitle/Sink/Subtitle'' })"

definition AudioSinkImplementsStreamVolume :: "('e, 'c) factories \<Rightarrow> verdict \<Rightarrow> ('e sink_run, unit) state" where
  "AudioSinkImplementsStreamVolume gst v = gated v (with_sink gst kAudioSink (\<lambda>audio. do {
     check (type_is_a audio ''GstStreamVolume'');
     check (instance_is_a audio ''GstStreamVolume'');
     unref (fresh audio) }))"

section \<open>The probe\<close>

text \<open>How a spawned command ended: it could not be started, it exited with a code, or a signal ended it.\<close>

datatype spawn_result = SpawnFailed | Exited int | Signalled

text \<open>\<open>exe_path\<close> is what \<open>/proc/self/exe\<close> links to, \<open>None\<close> if it cannot be read; \<open>g_spawn_sync\<close> is the
  outcome of a command.\<close>

record host =
  exe_path :: "string option"
  g_spawn_sync :: "string list \<Rightarrow> spawn_result"

text \<open>\<open>readlink\<close> fills the buffer with at most \<open>PATH_MAX - 1\<close> characters and returns their number,
  negative on failure.\<close>

definition PATH_MAX :: nat where "PATH_MAX = 4096"

definition readlink_self :: "host \<Rightarrow> nat \<Rightarrow> int \<times> string" where
  "readlink_self h room = (case exe_path h of None \<Rightarrow> (- 1, []) | Some p \<Rightarrow> (int (length (take room p)), take room p))"

definition probe_script :: "string \<Rightarrow> string \<Rightarrow> string \<Rightarrow> string" where
  "probe_script factory rankEnv self = rankEnv @
     '' reg=\"$(mktemp)\";'' @
     '' GST_REGISTRY=\"$reg\" GST_REGISTRY_FORK=no'' @
     '' RIALTO_CONFORMANCE_PROBE_FACTORY=\"'' @
     factory @ ''\" \"'' @ self @
     ''\";'' @
     '' rc=$?; rm -f \"$reg\"; exit $rc''"

definition probeFactoryRegistered :: "host \<Rightarrow> string \<Rightarrow> string \<Rightarrow> ('e sink_run, bool) state" where
  "probeFactoryRegistered h factory rankEnv =
     (case readlink_self h (PATH_MAX - 1) of (len, self) \<Rightarrow> do {
        check (len > 0);
        if len \<le> 0 then State_Monad.return False
        else (let status = g_spawn_sync h [''/bin/sh'', ''-c'', probe_script factory rankEnv self] in do {
          check (status \<noteq> SpawnFailed);
          if status = SpawnFailed then State_Monad.return False
          else do {
            check (status \<noteq> Signalled);
            State_Monad.return (status = Exited 0) }})})"

definition kRankZeroEnv :: string where
  "kRankZeroEnv = ''unset RIALTO_SOCKET_PATH RIALTO_SINKS_RANK;''"

definition kRankOneEnv :: string where
  "kRankOneEnv = ''unset RIALTO_SOCKET_PATH; export RIALTO_SINKS_RANK=1;''"

definition RegistrationIsRankGated :: "host \<Rightarrow> verdict \<Rightarrow> ('e sink_run, unit) state" where
  "RegistrationIsRankGated h v = gated v (do {
     video0 \<leftarrow> probeFactoryRegistered h kVideoSink kRankZeroEnv;
     check (\<not> video0);
     audio0 \<leftarrow> probeFactoryRegistered h kAudioSink kRankZeroEnv;
     check (\<not> audio0);
     subtitle0 \<leftarrow> probeFactoryRegistered h kSubtitleSink kRankZeroEnv;
     check (\<not> subtitle0);
     video1 \<leftarrow> probeFactoryRegistered h kVideoSink kRankOneEnv;
     check video1;
     audio1 \<leftarrow> probeFactoryRegistered h kAudioSink kRankOneEnv;
     check audio1;
     subtitle1 \<leftarrow> probeFactoryRegistered h kSubtitleSink kRankOneEnv;
     check subtitle1 })"

section \<open>Verdicts\<close>

text \<open>The outcome of one probe.\<close>

definition probe_outcome :: "host \<Rightarrow> string \<Rightarrow> string \<Rightarrow> spawn_result" where
  "probe_outcome h factory rankEnv =
     (case exe_path h of
        None \<Rightarrow> SpawnFailed
      | Some p \<Rightarrow> if p = [] then SpawnFailed
          else g_spawn_sync h [''/bin/sh'', ''-c'', probe_script factory rankEnv (take (PATH_MAX - 1) p)])"

lemma decides_probe [decide_rules]:
  assumes "\<And>b. decides (f b) (P b)"
  shows "decides (State_Monad.bind (probeFactoryRegistered h factory rankEnv) f)
     (case probe_outcome h factory rankEnv of Exited n \<Rightarrow> P (n = 0) | _ \<Rightarrow> False)"
proof -
  have "min (length p) (PATH_MAX - 1) = 0 \<longleftrightarrow> p = []" for p :: string
    by (auto simp: PATH_MAX_def min_def)
  moreover have "Suc 0 < PATH_MAX" by (simp add: PATH_MAX_def)
  ultimately show ?thesis
    using assms by (cases "exe_path h")
      (auto simp: probeFactoryRegistered_def probe_outcome_def readlink_self_def decides_def Let_def split: spawn_result.split)
qed

text \<open>No probe reads past the buffer it gave to \<open>readlink\<close>.\<close>

lemma readlink_in_bounds: "fst (readlink_self h (PATH_MAX - 1)) < int PATH_MAX"
  by (auto simp: readlink_self_def PATH_MAX_def split: option.split)

lemma rank_gated_outcomes:
  "sink_passed (run_case (RegistrationIsRankGated h v) fresh_run) \<longleftrightarrow> v = Proceed
     \<and> list_all (\<lambda>f. case probe_outcome h f kRankZeroEnv of Exited n \<Rightarrow> n \<noteq> 0 | _ \<Rightarrow> False) [kVideoSink, kAudioSink, kSubtitleSink]
     \<and> list_all (\<lambda>f. case probe_outcome h f kRankOneEnv of Exited n \<Rightarrow> n = 0 | _ \<Rightarrow> False) [kVideoSink, kAudioSink, kSubtitleSink]"
proof -
  have "decides (RegistrationIsRankGated h v) (v = Proceed
     \<and> list_all (\<lambda>f. case probe_outcome h f kRankZeroEnv of Exited n \<Rightarrow> n \<noteq> 0 | _ \<Rightarrow> False) [kVideoSink, kAudioSink, kSubtitleSink]
     \<and> list_all (\<lambda>f. case probe_outcome h f kRankOneEnv of Exited n \<Rightarrow> n = 0 | _ \<Rightarrow> False) [kVideoSink, kAudioSink, kSubtitleSink])"
    unfolding RegistrationIsRankGated_def
    by (rule decides_eq, (rule decide_rules)+) (auto split: spawn_result.splits)
  then show ?thesis by (rule decides_run_case) simp
qed

text \<open>The environment of the child: what the two preludes do to that of this process, with what the
  script sets for the probe.\<close>

definition probe_env :: "env \<Rightarrow> string \<Rightarrow> string \<Rightarrow> string \<Rightarrow> env" where
  "probe_env env rankEnv reg factory =
     (if rankEnv = kRankOneEnv then env(''RIALTO_SOCKET_PATH'' := None, ''RIALTO_SINKS_RANK'' := Some ''1'')
      else env(''RIALTO_SOCKET_PATH'' := None, ''RIALTO_SINKS_RANK'' := None))
     (''GST_REGISTRY'' := Some reg, ''GST_REGISTRY_FORK'' := Some ''no'', ''RIALTO_CONFORMANCE_PROBE_FACTORY'' := Some factory)"

text \<open>\<open>runs_probe\<close>: the shell runs the script, that is, it runs this program again in the child's
  environment and returns its exit code; \<open>plugin e f\<close> says whether a process with environment \<open>e\<close>
  that scans the plugin afresh has the factory \<open>f\<close>.\<close>

definition runs_probe :: "host \<Rightarrow> env \<Rightarrow> string \<Rightarrow> (env \<Rightarrow> string \<Rightarrow> bool) \<Rightarrow> bool" where
  "runs_probe h env reg plugin \<longleftrightarrow> (\<exists>p. exe_path h = Some p \<and> p \<noteq> []
     \<and> (\<forall>f. \<forall>rank\<in>{kRankZeroEnv, kRankOneEnv}.
          g_spawn_sync h [''/bin/sh'', ''-c'', probe_script f rank (take (PATH_MAX - 1) p)]
            = Exited (fst (conformance_main (probe_env env rank reg f) (plugin (probe_env env rank reg f))))))"

lemma runs_probe_outcome:
  assumes "runs_probe h env reg plugin" "rank \<in> {kRankZeroEnv, kRankOneEnv}"
  shows "probe_outcome h f rank = Exited (if plugin (probe_env env rank reg f) f then 0 else 1)"
proof -
  have "fst (conformance_main (probe_env env rank reg f) (plugin (probe_env env rank reg f)))
     = (if plugin (probe_env env rank reg f) f then 0 else 1)"
    by (simp add: conformance_main_def runRegistrationProbeIfRequested_def probe_env_def)
  with assms show ?thesis by (auto simp: runs_probe_def probe_outcome_def)
qed


definition ranked_host :: host where
  "ranked_host = \<lparr>exe_path = Some ''/usr/bin/rialto_conformance'',
     g_spawn_sync = (\<lambda>argv. if take (length kRankOneEnv) (argv ! 2) = kRankOneEnv then Exited 0 else Exited 1)\<rparr>"


text \<open>The positive control: a probe that cannot tell the two ranks apart never passes, whatever it
  always answers.\<close>

lemma constant_probe_fails:
  assumes "\<And>f. probe_outcome h f kRankZeroEnv = probe_outcome h f kRankOneEnv"
  shows "\<not> sink_passed (run_case (RegistrationIsRankGated h v) fresh_run)"
  unfolding rank_gated_outcomes by (auto simp: assms split: spawn_result.splits)

lemma registered_verdict:
  "sink_passed (run_case (VideoSinkRegistered registry v) fresh_run) \<longleftrightarrow> v = Proceed
     \<and> (case registry kVideoSink of None \<Rightarrow> False | Some f \<Rightarrow> creates f \<noteq> None)"
  "sink_passed (run_case (AudioSinkRegistered registry v) fresh_run) \<longleftrightarrow> v = Proceed
     \<and> (case registry kAudioSink of None \<Rightarrow> False | Some f \<Rightarrow> creates f \<noteq> None)"
proof -
  have d: "decides (assertSinkRegistered registry name) (case registry name of None \<Rightarrow> False | Some f \<Rightarrow> creates f \<noteq> None)" for name
  proof -
    have c: "decides (case x of None \<Rightarrow> State_Monad.return () | Some element \<Rightarrow> unref (fresh element)) True" for x :: "('a, 'b) sink_class option"
      by (cases x) (auto intro: decide_rules)
    show ?thesis
      unfolding assertSinkRegistered_def
      by (rule decides_eq, (rule c decide_rules)+) (auto split: option.split)
  qed
  show "sink_passed (run_case (VideoSinkRegistered registry v) fresh_run) \<longleftrightarrow> v = Proceed
     \<and> (case registry kVideoSink of None \<Rightarrow> False | Some f \<Rightarrow> creates f \<noteq> None)"
    unfolding VideoSinkRegistered_def by (rule decides_run_case [OF decides_gated [OF d]]) simp
  show "sink_passed (run_case (AudioSinkRegistered registry v) fresh_run) \<longleftrightarrow> v = Proceed
     \<and> (case registry kAudioSink of None \<Rightarrow> False | Some f \<Rightarrow> creates f \<noteq> None)"
    unfolding AudioSinkRegistered_def by (rule decides_run_case [OF decides_gated [OF d]]) simp
qed

lemma klass_verdict:
  "sink_passed (run_case (SinkFactoryKlassMetadata registry v) fresh_run) \<longleftrightarrow> v = Proceed
     \<and> map (\<lambda>name. Option.bind (registry name) klass_metadata) [kVideoSink, kAudioSink, kSubtitleSink]
       = [Some ''Decoder/Video/Sink/Video'', Some ''Decoder/Audio/Sink/Audio'', Some ''Parser/Subtitle/Sink/Subtitle'']"
proof -
  have "decides (assertSinkKlass registry name k) (Option.bind (registry name) klass_metadata = Some k)" for name k
    unfolding assertSinkKlass_def
    by (cases "registry name"; cases "Option.bind (registry name) klass_metadata")
      (auto simp: decides_def fatal_some_def)
  then have "decides (SinkFactoryKlassMetadata registry v) (v = Proceed
     \<and> (Option.bind (registry kVideoSink) klass_metadata = Some ''Decoder/Video/Sink/Video''
     \<and> Option.bind (registry kAudioSink) klass_metadata = Some ''Decoder/Audio/Sink/Audio''
     \<and> Option.bind (registry kSubtitleSink) klass_metadata = Some ''Parser/Subtitle/Sink/Subtitle''))"
    unfolding SinkFactoryKlassMetadata_def by (intro decides_gated decides_then)
  then show ?thesis by (simp add: decides_run_case)
qed

lemma stream_volume_verdict:
  "sink_passed (run_case (AudioSinkImplementsStreamVolume gst v) fresh_run) \<longleftrightarrow> v = Proceed
     \<and> (case gst kAudioSink of None \<Rightarrow> False
        | Some c \<Rightarrow> type_is_a c ''GstStreamVolume'' \<and> instance_is_a c ''GstStreamVolume'')"
proof -
  have "decides (AudioSinkImplementsStreamVolume gst v) (v = Proceed
     \<and> (case gst kAudioSink of None \<Rightarrow> False
        | Some c \<Rightarrow> type_is_a c ''GstStreamVolume'' \<and> instance_is_a c ''GstStreamVolume''))"
    unfolding AudioSinkImplementsStreamVolume_def
    by (rule decides_eq, (rule decide_rules)+) (auto split: option.split)
  then show ?thesis by (simp add: decides_run_case)
qed

end
