(* ===== verification/Sink_Reference.thy ===== *)
theory Sink_Reference
  imports Sink_Property_Cases Sink_State_Cases Sink_Caps_Cases Sink_Registration_Cases
begin

text \<open>
  A sink written from the contract the L1 sink cases state, and the theorem that one registry of
  such sinks passes every case of \<open>PropertyTests\<close>, \<open>CapsTests\<close>, \<open>StateTests\<close>, \<open>EventTests\<close> and
  \<open>SinkRegistrationTests\<close> at once: no two of them ask for contradictory behaviour.
\<close>

record ref_state =
  ref_phase :: phase
  ref_web_audio :: bool
  ref_width :: "32 word"
  ref_height :: "32 word"

definition ref_fresh :: ref_state where
  "ref_fresh = \<lparr>ref_phase = Down, ref_web_audio = False, ref_width = 3840, ref_height = 2160\<rparr>"

text \<open>Outside the contract the element can always be taken down, and refuses anything else.\<close>

definition ref_call :: "call \<Rightarrow> ref_state \<Rightarrow> ref_state \<times> GstStateChangeReturn" where
  "ref_call k e =
     (case contract_step k (ref_phase e) of
        Some (p, r) \<Rightarrow> (e\<lparr>ref_phase := p\<rparr>, r)
      | None \<Rightarrow> if k = SetState GST_STATE_NULL then (e\<lparr>ref_phase := Down\<rparr>, GST_STATE_CHANGE_SUCCESS)
          else (e, GST_STATE_CHANGE_FAILURE))"

definition ref_set_boolean :: "string \<Rightarrow> bool \<Rightarrow> ref_state \<Rightarrow> ref_state" where
  "ref_set_boolean name b e = (if name = ''web-audio'' \<and> ref_phase e = Down then e\<lparr>ref_web_audio := b\<rparr> else e)"

definition ref_get_boolean :: "ref_state \<Rightarrow> string \<Rightarrow> bool option" where
  "ref_get_boolean e name =
     (if name = ''web-audio'' then Some (ref_web_audio e)
      else if name = ''single-path-stream'' then Some False
      else if name = ''mute'' then Some False
      else if name \<in> {''has-drm'', ''is-master''} then Some True else None)"

definition ref_set_uint :: "string \<Rightarrow> 32 word \<Rightarrow> ref_state \<Rightarrow> ref_state" where
  "ref_set_uint name n e =
     (if name \<in> {''max-video-width'', ''maxVideoWidth''} then e\<lparr>ref_width := n\<rparr>
      else if name \<in> {''max-video-height'', ''maxVideoHeight''} then e\<lparr>ref_height := n\<rparr> else e)"

definition ref_get_uint :: "ref_state \<Rightarrow> string \<Rightarrow> 32 word option" where
  "ref_get_uint e name =
     (if name \<in> {''max-video-width'', ''maxVideoWidth''} then Some (ref_width e)
      else if name \<in> {''max-video-height'', ''maxVideoHeight''} then Some (ref_height e) else None)"

fun ref_query :: "query_kind \<Rightarrow> ref_state \<Rightarrow> bool \<times> GstQuery" where
  "ref_query SeekingQuery e = (True, Seeking GST_FORMAT_TIME False 0 (- 1))"
| "ref_query SegmentQuery e = (True, SegmentAnswer 1 GST_FORMAT_TIME 0 (- 1))"
| "ref_query PositionQuery e = (False, Position GST_FORMAT_TIME (- 1))"
| "ref_query DurationQuery e = (False, Duration GST_FORMAT_TIME (- 1))"

fun ref_event :: "GstEvent \<Rightarrow> ref_state \<Rightarrow> ref_state \<times> bool" where
  "ref_event (Seek _ _ _ _ _ _ _) e = (e, False)"
| "ref_event _ e = (e, True)"

definition ref_flags :: "bool \<Rightarrow> bool \<Rightarrow> 32 word" where
  "ref_flags readable writable =
     (if readable then G_PARAM_READABLE else 0) OR (if writable then G_PARAM_WRITABLE else 0)"

definition ref_property :: "row list \<Rightarrow> string \<Rightarrow> GParamSpec option" where
  "ref_property rows name = map_option (\<lambda>(want, r, w, _). \<lparr>detail = want, flags = ref_flags r w\<rparr>) (map_of rows name)"

definition ref_sink :: "row list \<Rightarrow> string list \<Rightarrow> 'c \<Rightarrow> (ref_state, 'c) sink_class" where
  "ref_sink rows signals caps = \<lparr>fresh = ref_fresh, find_property = ref_property rows,
     signal_lookup = (\<lambda>n. if n \<in> set signals then 1 else 0),
     pad_templates = [\<lparr>direction = GST_PAD_SINK, presence = GST_PAD_ALWAYS, name_template = ''sink'', pad_caps = Some caps\<rparr>],
     type_is_a = (\<lambda>n. n = ''GstStreamVolume''), instance_is_a = (\<lambda>n. n = ''GstStreamVolume''),
     static_pad = (\<lambda>n. n = ''sink''), set_boolean = ref_set_boolean, get_boolean = ref_get_boolean,
     get_int = (\<lambda>_ n. if n = ''streams-number'' then Some 1 else None), set_uint = ref_set_uint, get_uint = ref_get_uint,
     set_state = (\<lambda>s. ref_call (SetState s)), change_state = (\<lambda>t. ref_call (ChangeState t)),
     element_query = ref_query, send_event = ref_event\<rparr>"

definition alias_rows :: "row list" where
  "alias_rows = [(''maxVideoWidth'', PUint 0 3840 3840, True, True, Required),
     (''maxVideoHeight'', PUint 0 2160 2160, True, True, Required)]"

definition ref_audio :: "(ref_state, string set) sink_class" where
  "ref_audio = ref_sink (base_rows @ audio_rows @ audio_conditional_rows) [''buffer-underflow-callback''] (set kDocumentedAudioCaps)"

definition ref_video :: "(ref_state, string set) sink_class" where
  "ref_video = ref_sink (base_rows @ video_rows @ video_conditional_rows @ video_visibility_rows @ alias_rows)
     [''buffer-underflow-callback'', ''first-video-frame-callback''] (set kDocumentedVideoCaps)"

definition ref_subtitle :: "(ref_state, string set) sink_class" where
  "ref_subtitle = ref_sink (base_rows @ subtitle_rows) [''buffer-underflow-callback''] (set kDocumentedSubtitleCaps)"

definition ref_registry :: "string \<Rightarrow> (ref_state, string set) element_factory option" where
  "ref_registry name =
     (if name = kVideoSink then Some \<lparr>creates = Some ref_video, klass_metadata = Some ''Decoder/Video/Sink/Video''\<rparr>
      else if name = kAudioSink then Some \<lparr>creates = Some ref_audio, klass_metadata = Some ''Decoder/Audio/Sink/Audio''\<rparr>
      else if name = kSubtitleSink then Some \<lparr>creates = Some ref_subtitle, klass_metadata = Some ''Parser/Subtitle/Sink/Subtitle''\<rparr>
      else None)"

definition ref_factories :: "(ref_state, string set) factories" where
  "ref_factories name = Option.bind (ref_registry name) creates"

lemma ref_conforms:
  assumes "distinct (map fst rows)"
  shows "list_all (conforms (ref_sink rows signals caps)) rows"
proof -
  have flags: "(ref_flags r w AND G_PARAM_READABLE \<noteq> 0) = r" "(ref_flags r w AND G_PARAM_WRITABLE \<noteq> 0) = w" for r w
    by (cases r; cases w; simp add: ref_flags_def G_PARAM_READABLE_def G_PARAM_WRITABLE_def)+
  have "map_of rows (fst row) = Some (snd row)" if "row \<in> set rows" for row
    using assms that by (cases row) simp
  then show ?thesis
    by (fastforce simp: list_all_iff conforms_def meets_def ref_sink_def ref_property_def flags)
qed

lemma ref_factories_simps [simp]:
  "ref_factories kAudioSink = Some ref_audio" "ref_factories kVideoSink = Some ref_video"
  "ref_factories kSubtitleSink = Some ref_subtitle"
  by (simp_all add: ref_factories_def ref_registry_def kAudioSink_def kVideoSink_def kSubtitleSink_def)

lemma ref_documented:
  "sink_documented ref_factories kAudioSink (base_rows @ audio_rows @ audio_conditional_rows)"
  "sink_documented ref_factories kVideoSink (base_rows @ video_rows @ video_conditional_rows @ video_visibility_rows @ alias_rows)"
  "sink_documented ref_factories kSubtitleSink (base_rows @ subtitle_rows)"
  unfolding sink_documented_def ref_factories_simps option.case ref_audio_def ref_video_def ref_subtitle_def
  by (intro ref_conforms; simp add: base_rows_def audio_rows_def audio_conditional_rows_def video_rows_def
      video_conditional_rows_def video_visibility_rows_def alias_rows_def subtitle_rows_def)+

lemma ref_refines: "refines_contract (ref_sink rows signals caps) ref_phase"
  unfolding refines_contract_def
proof (intro conjI allI impI)
  show "ref_phase (fresh (ref_sink rows signals caps)) = Down" by (simp add: ref_sink_def ref_fresh_def)
  fix k p r and e :: ref_state
  assume "contract_step k (ref_phase e) = Some (p, r)"
  moreover have "perform (ref_sink rows signals caps) k e = ref_call k e" by (cases k) (simp_all add: ref_sink_def)
  ultimately show "snd (perform (ref_sink rows signals caps) k e) = r"
    "ref_phase (fst (perform (ref_sink rows signals caps) k e)) = p" by (simp_all add: ref_call_def)
qed

section \<open>One registry passes every case\<close>

definition property_cases :: "('e, 'c) factories \<Rightarrow> ('e sink_run, unit) state list" where
  "property_cases gst = [BaseSinkProperties gst Proceed, AudioSinkProperties gst Proceed,
     AudioSinkConditionalProperties gst Proceed, VideoSinkProperties gst Proceed,
     VideoSinkConditionalProperties gst Proceed, VideoSinkVisibilityAndDecodeProperties gst Proceed Proceed,
     SubtitleSinkProperties gst Proceed]"

definition live_property_cases :: "('e, 'c) factories \<Rightarrow> ('e sink_run, unit) state list" where
  "live_property_cases gst = [BaseSinkSignals gst Proceed, AudioSinkWebAudioSettableOnlyInNull gst Proceed,
     VideoSinkDeprecatedAliases gst Proceed, ReadablePropertiesFallbackDefaults gst Proceed]"

definition registration_cases ::
  "(string \<Rightarrow> ('e, 'c) element_factory option) \<Rightarrow> ('e, 'c) factories \<Rightarrow> ('e sink_run, unit) state list" where
  "registration_cases registry gst = [VideoSinkRegistered registry Proceed, AudioSinkRegistered registry Proceed,
     SinkFactoryKlassMetadata registry Proceed, AudioSinkImplementsStreamVolume gst Proceed]"

abbreviation all_pass :: "('e sink_run, unit) state list \<Rightarrow> bool" where
  "all_pass ms \<equiv> list_all (\<lambda>m. sink_passed (run_case m fresh_run)) ms"

lemma sink_documented_append:
  "sink_documented gst name (rows @ rows') \<longleftrightarrow> sink_documented gst name rows \<and> sink_documented gst name rows'"
  by (auto simp: sink_documented_def split: option.split)

lemma ref_property_cases: "all_pass (property_cases ref_factories)"
  using ref_documented
  by (simp add: property_cases_def decides_table_cases [THEN decides_run_case] sink_documented_append)

lemma ref_live_property_cases: "all_pass (live_property_cases ref_factories)"
proof -
  have "sink_passed (run_case (AudioSinkWebAudioSettableOnlyInNull ref_factories Proceed) fresh_run)"
    by (subst web_audio_verdict [where c = ref_audio and mode = ref_web_audio])
      (simp_all add: ref_audio_def ref_sink_def ref_get_boolean_def ref_set_boolean_def ref_fresh_def ref_call_def)
  moreover have "sink_passed (run_case (VideoSinkDeprecatedAliases ref_factories Proceed) fresh_run)"
    using ref_documented(2)
    by (subst alias_verdict [where c = ref_video])
      (simp_all add: sink_documented_append alias_rows_def ref_video_def ref_sink_def ref_set_uint_def ref_get_uint_def)
  ultimately show ?thesis
    by (simp add: live_property_cases_def signals_verdict fallback_verdict)
      (simp add: ref_audio_def ref_video_def ref_sink_def ref_get_boolean_def)
qed

lemma ref_state_cases: "all_pass (state_cases ref_factories Proceed)"
proof -
  have "contract_allows s Down \<Longrightarrow> meets_script ref_audio s (fresh ref_audio)" for s
    unfolding ref_audio_def by (rule refines_meets_script [OF ref_refines]) (simp add: ref_sink_def ref_fresh_def)
  moreover have "list_all (\<lambda>s. contract_allows s Down) state_scripts" by (simp add: state_scripts_def)
  ultimately show ?thesis
    unfolding state_suite_scripts by (auto simp: list_all_iff) (simp add: ref_audio_def ref_sink_def)
qed

lemma ref_event_cases: "all_pass (event_cases ref_factories Proceed)"
proof -
  have "set_state ref_audio GST_STATE_READY (fresh ref_audio) = (ref_fresh\<lparr>ref_phase := Up\<rparr>, GST_STATE_CHANGE_SUCCESS)"
    by (simp add: ref_audio_def ref_sink_def ref_fresh_def ref_call_def)
  moreover have "sourceless_answers ref_audio e" for e
    by (simp add: sourceless_answers_def ref_audio_def ref_sink_def endSeek_def nonFlushSeek_def)
  ultimately show ?thesis
    using event_suite_decided [of ref_factories] by simp
qed

lemma ref_caps_cases: "all_pass (caps_cases string_caps ref_factories Proceed)"
proof -
  have meaning: "caps_meaning string_caps id" by (simp add: caps_meaning_def string_caps_def)
  show ?thesis
    unfolding caps_suite_decided [OF meaning]
    by (simp add: ref_audio_def ref_video_def ref_subtitle_def ref_sink_def string_caps_def single_template_def
        advertises_within_def sinkTemplateCaps_def sinkPadTemplate_def documented_formats_def
        kDocumentedAudioCaps_def kDocumentedVideoCaps_def)
qed

lemma ref_registration_cases: "all_pass (registration_cases ref_registry ref_factories)"
  by (simp add: registration_cases_def registered_verdict klass_verdict stream_volume_verdict)
    (simp add: ref_registry_def kAudioSink_def kVideoSink_def kSubtitleSink_def ref_audio_def ref_sink_def)

lemma l1_suite_satisfiable:
  "all_pass (property_cases ref_factories @ live_property_cases ref_factories @ caps_cases string_caps ref_factories Proceed
     @ registration_cases ref_registry ref_factories @ state_cases ref_factories Proceed @ event_cases ref_factories Proceed)"
  using ref_property_cases ref_live_property_cases ref_caps_cases ref_registration_cases ref_state_cases ref_event_cases
  by simp

end
