(* ===== verification/Sink_Surfaces.thy ===== *)
theory Sink_Surfaces
  imports Sink_Reference Consistency_Cases
begin

text \<open>
  The cross-surface cases of \<open>Consistency_Cases\<close> on the elements of \<open>Sink_Element\<close>: one registry of
  sinks seen by both suites, and what a sink that passes both is known to do.
\<close>

section \<open>One registry, two suites\<close>

text \<open>What the cross-surface cases see of an element class; the double values are those of a new element.\<close>

definition view_of :: "'c caps_lib \<Rightarrow> (string \<Rightarrow> real option) \<Rightarrow> ('e, 'c) sink_class \<Rightarrow> sink_element" where
  "view_of lib doubles c =
     \<lparr>template_caps = map_option (\<lambda>a s. caps_is_subset lib (caps_from_string lib s) a) (Sink_Caps_Cases.sinkTemplateCaps c),
      property = (\<lambda>n. map_option (\<lambda>spec. case detail spec of
          PDouble lo hi d \<Rightarrow> ParamDouble d lo hi | PBoolean d \<Rightarrow> ParamBoolean d | _ \<Rightarrow> ParamOther) (find_property c n)),
      boolean_value = get_boolean c (fresh c),
      double_value = doubles\<rparr>"

definition platform_of ::
  "'c caps_lib \<Rightarrow> (string \<Rightarrow> real option) \<Rightarrow> ('e, 'c) factories \<Rightarrow> platform \<Rightarrow> platform" where
  "platform_of lib doubles gst native = native\<lparr>factory_make := \<lambda>n. map_option (view_of lib doubles) (gst n)\<rparr>"

lemma platform_of_simps [simp]:
  "factory_make (platform_of lib doubles gst native) = (\<lambda>n. map_option (view_of lib doubles) (gst n))"
  "supported_mimes (platform_of lib doubles gst native) = supported_mimes native"
  "supported_properties (platform_of lib doubles gst native) = supported_properties native"
  "capabilities_factory (platform_of lib doubles gst native) = capabilities_factory native"
  "capabilities_object (platform_of lib doubles gst native) = capabilities_object native"
  "video_master (platform_of lib doubles gst native) = video_master native"
  by (simp_all add: platform_of_def)

section \<open>The two tables of caps\<close>

text \<open>The caps the cross-surface table translates MIME types to are the documented caps of the caps
  suite, neither more nor less: the two files do not contradict each other.\<close>

lemma tables_agree:
  "set (concat (map snd kMimeToCaps)) = set kDocumentedAudioCaps \<union> set kDocumentedVideoCaps"
  by code_simp

definition mapped_formats :: "'c caps_lib \<Rightarrow> ('c \<Rightarrow> 'f set) \<Rightarrow> string list \<Rightarrow> 'f set" where
  "mapped_formats lib denote mimes = documented_formats lib denote (concat (map mapped_caps mimes))"

lemma surface_agrees_formats:
  assumes "caps_meaning lib denote" "surface_agrees (platform_of lib doubles gst native) type name"
  obtains c a where "gst name = Some c" "Sink_Caps_Cases.sinkTemplateCaps c = Some a"
    "mapped_formats lib denote (supported_mimes native type) \<subseteq> denote a"
proof -
  from assms(2) obtain c a where c: "gst name = Some c" "Sink_Caps_Cases.sinkTemplateCaps c = Some a"
    and all: "\<forall>mime\<in>set (supported_mimes native type). \<forall>s\<in>set (mapped_caps mime).
        caps_is_subset lib (caps_from_string lib s) a"
    by (auto simp: surface_agrees_def view_of_def)
  have "mapped_formats lib denote (supported_mimes native type) \<subseteq> denote a"
    using all assms(1) by (fastforce simp: mapped_formats_def documented_formats_def caps_meaning_def)
  with c that show thesis by blast
qed

text \<open>C39: The two suites together pin the advertised caps from both sides.  If the L1 caps cases and
  the L2 MIME case pass on the same sinks, then the audio and the video sink advertise at least
  the formats the table gives for the MIME types the native interface supports, and at most the
  documented ones.  Neither suite shows both.\<close>

theorem suites_sandwich_caps:
  assumes "caps_meaning lib denote"
    and "list_all (\<lambda>m. sink_passed (run_case m fresh_run)) (caps_cases lib gst Proceed)"
    and "sink_passed (run_case (SupportedMimesMatchSinkCaps (platform_of lib doubles gst native) Proceed) fresh_sink_case)"
  shows "list_all (\<lambda>(type, name, docs).
       case Option.bind (gst name) Sink_Caps_Cases.sinkTemplateCaps of
         None \<Rightarrow> False
       | Some a \<Rightarrow> mapped_formats lib denote (supported_mimes native type) \<subseteq> denote a
           \<and> denote a \<subseteq> documented_formats lib denote docs)
     [(AUDIO, kAudioSink, kDocumentedAudioCaps), (VIDEO, kVideoSink, kDocumentedVideoCaps)]"
proof -
  have agree: "surface_agrees (platform_of lib doubles gst native) AUDIO kAudioSink"
    "surface_agrees (platform_of lib doubles gst native) VIDEO kVideoSink"
    using assms(3) by (simp_all add: mime_case_verdict kAudioSink_def kVideoSink_def)
  have caps: "(case (gst kAudioSink, gst kVideoSink, gst kSubtitleSink) of
        (Some a, Some w, Some t) \<Rightarrow> advertises_within lib denote a kDocumentedAudioCaps
            \<and> advertises_within lib denote w kDocumentedVideoCaps
      | _ \<Rightarrow> False)"
    using assms(2) unfolding caps_suite_decided [OF assms(1)] by (auto split: option.splits)
  obtain c a where c: "gst kAudioSink = Some c" "Sink_Caps_Cases.sinkTemplateCaps c = Some a"
    and lower: "mapped_formats lib denote (supported_mimes native AUDIO) \<subseteq> denote a"
    using surface_agrees_formats [OF assms(1) agree(1)] .
  obtain d b where d: "gst kVideoSink = Some d" "Sink_Caps_Cases.sinkTemplateCaps d = Some b"
    and lower': "mapped_formats lib denote (supported_mimes native VIDEO) \<subseteq> denote b"
    using surface_agrees_formats [OF assms(1) agree(2)] .
  have "denote a \<subseteq> documented_formats lib denote kDocumentedAudioCaps"
    "denote b \<subseteq> documented_formats lib denote kDocumentedVideoCaps"
    using caps c d by (simp_all add: advertises_within_def split: option.splits)
  then show ?thesis using c d lower lower' by simp
qed

text \<open>A native interface that supports every MIME type of the table, and every property.\<close>

definition full_native :: platform where
  "full_native = \<lparr>capabilities_factory = True, capabilities_object = True,
     supported_mimes = (\<lambda>type. filter (prefix (if type = AUDIO then ''audio'' else ''video'')) (map fst kMimeToCaps)),
     supported_properties = (\<lambda>_ names. names), video_master = (True, True), factory_make = (\<lambda>_. None)\<rparr>"

definition ref_doubles :: "string \<Rightarrow> real option" where
  "ref_doubles name = (if name = ''volume'' then Some 1 else None)"

abbreviation ref_platform :: platform where
  "ref_platform \<equiv> platform_of string_caps ref_doubles ref_factories full_native"

definition cross_surface_cases :: "platform \<Rightarrow> (sink_case, unit) state list" where
  "cross_surface_cases p = [SupportedMimesMatchSinkCaps p Proceed, VideoMasterNativeMatchesMse p Proceed,
     VolumeContractAgreesAcrossSurfaces p Proceed, MuteContractAgreesAcrossSurfaces p Proceed,
     InstalledOptionalPropertiesAreNativeSupported p Proceed]"

lemma string_caps_meaning: "caps_meaning string_caps id"
  by (simp add: caps_meaning_def string_caps_def)

lemma ref_view:
  "factory_make ref_platform kAudioSink = Some (view_of string_caps ref_doubles ref_audio)"
  "factory_make ref_platform kVideoSink = Some (view_of string_caps ref_doubles ref_video)"
  "factory_make ref_platform kSubtitleSink = Some (view_of string_caps ref_doubles ref_subtitle)"
  by simp_all

lemma ref_template_caps:
  "Sink_Caps_Cases.sinkTemplateCaps ref_audio = Some (set kDocumentedAudioCaps)"
  "Sink_Caps_Cases.sinkTemplateCaps ref_video = Some (set kDocumentedVideoCaps)"
  by (simp_all add: ref_audio_def ref_video_def ref_sink_def Sink_Caps_Cases.sinkTemplateCaps_def sinkPadTemplate_def)

lemma ref_surfaces_agree:
  "surface_agrees ref_platform AUDIO kAudioSink" "surface_agrees ref_platform VIDEO kVideoSink"
proof -
  have sub: "list_all (\<lambda>mime. list_all (\<lambda>s. s \<in> set kDocumentedAudioCaps) (mapped_caps mime)) (supported_mimes full_native AUDIO)"
    "list_all (\<lambda>mime. list_all (\<lambda>s. s \<in> set kDocumentedVideoCaps) (mapped_caps mime)) (supported_mimes full_native VIDEO)"
    "list_ex (\<lambda>mime. mime \<in> fst ` set kMimeToCaps) (supported_mimes full_native AUDIO)"
    "list_ex (\<lambda>mime. mime \<in> fst ` set kMimeToCaps) (supported_mimes full_native VIDEO)"
    by code_simp+
  then show "surface_agrees ref_platform AUDIO kAudioSink" "surface_agrees ref_platform VIDEO kVideoSink"
    unfolding surface_agrees_def ref_view
    by (auto simp: view_of_def ref_template_caps string_caps_def list_all_iff list_ex_iff)
qed

lemma ref_cross_surface_cases:
  "list_all (\<lambda>m. sink_passed (run_case m fresh_sink_case)) (cross_surface_cases ref_platform)"
proof -
  have native: "capabilities_factory full_native" "capabilities_object full_native" "video_master full_native = (True, True)"
    "supported_properties full_native type names = names" for type names
    by (simp_all add: full_native_def)
  have props: "property (view_of string_caps ref_doubles ref_audio) ''volume'' = Some (ParamDouble 1 0 1)"
    "property (view_of string_caps ref_doubles ref_audio) ''mute'' = Some (ParamBoolean False)"
    "property (view_of string_caps ref_doubles ref_subtitle) ''mute'' = Some (ParamBoolean False)"
    by (simp_all add: view_of_def ref_audio_def ref_subtitle_def ref_sink_def ref_property_def base_rows_def audio_rows_def
        subtitle_rows_def)
  have vals: "double_value (view_of string_caps ref_doubles c) ''volume'' = Some 1" for c :: "(ref_state, string set) sink_class"
    by (simp add: view_of_def ref_doubles_def)
  have bools: "boolean_value (view_of string_caps ref_doubles ref_audio) ''mute'' = Some False"
    "boolean_value (view_of string_caps ref_doubles ref_subtitle) ''mute'' = Some False"
    "boolean_value (view_of string_caps ref_doubles ref_video) ''is-master'' = Some True"
    by (simp_all add: view_of_def ref_audio_def ref_video_def ref_subtitle_def ref_sink_def ref_get_boolean_def)
  show ?thesis
    using ref_surfaces_agree
    by (simp add: cross_surface_cases_def mime_case_verdict contract_verdicts optional_property_verdict native props vals
        bools kSurfaces_def) (simp add: kAudioSink_def kVideoSink_def)
qed

theorem suites_sandwich_caps_witness:
  "list_all (\<lambda>(type, name, docs).
       case Option.bind (ref_factories name) Sink_Caps_Cases.sinkTemplateCaps of
         None \<Rightarrow> False
       | Some a \<Rightarrow> mapped_formats string_caps id (supported_mimes full_native type) \<subseteq> a
           \<and> a \<subseteq> documented_formats string_caps id docs)
     [(AUDIO, kAudioSink, kDocumentedAudioCaps), (VIDEO, kVideoSink, kDocumentedVideoCaps)]"
proof -
  have "sink_passed (run_case (SupportedMimesMatchSinkCaps ref_platform Proceed) fresh_sink_case)"
    using ref_cross_surface_cases by (simp only: cross_surface_cases_def list.pred_inject)
  from suites_sandwich_caps [OF string_caps_meaning ref_caps_cases this] show ?thesis by (simp only: id_apply)
qed

text \<open>Where the native interface supports everything the table lists for a sink, the two bounds meet:
  the sink advertises exactly the documented formats.\<close>

lemma full_support_is_exact:
  assumes "set docs \<subseteq> set (concat (map mapped_caps mimes))"
    and "mapped_formats lib denote mimes \<subseteq> denote a" "denote a \<subseteq> documented_formats lib denote docs"
  shows "denote a = documented_formats lib denote docs"
  using assms unfolding mapped_formats_def documented_formats_def by fast

text \<open>What the property suite already settles of the contracts the two surfaces share: on a sink that
  passed it, the volume and the mute case come down to the values read from a new element.\<close>

lemma property_suite_settles_contracts:
  assumes "all_pass (property_cases gst)" "gst kAudioSink = Some a" "gst kSubtitleSink = Some t"
  shows "sink_passed (run_case (VolumeContractAgreesAcrossSurfaces (platform_of lib doubles gst native) Proceed) fresh_sink_case)
       \<longleftrightarrow> doubles ''volume'' = Some 1"
    and "sink_passed (run_case (MuteContractAgreesAcrossSurfaces (platform_of lib doubles gst native) Proceed) fresh_sink_case)
       \<longleftrightarrow> get_boolean a (fresh a) ''mute'' = Some False \<and> get_boolean t (fresh t) ''mute'' = Some False"
proof -
  have rows: "list_all (conforms a) audio_rows" "list_all (conforms t) subtitle_rows"
    using assms by (simp_all add: property_cases_def decides_table_cases [THEN decides_run_case] sink_documented_def)
  then have "conforms a (''volume'', PDouble 0 1 1, True, True, Required)"
    "conforms a (''mute'', PBoolean False, True, True, Required)"
    "conforms t (''mute'', PBoolean False, True, True, Required)"
    by (simp_all add: audio_rows_def subtitle_rows_def)
  then have "property (view_of lib doubles a) ''volume'' = Some (ParamDouble 1 0 1)"
    "property (view_of lib doubles a) ''mute'' = Some (ParamBoolean False)"
    "property (view_of lib doubles t) ''mute'' = Some (ParamBoolean False)"
    by (auto simp: conforms_def meets_def view_of_def split: option.splits)
  then show "sink_passed (run_case (VolumeContractAgreesAcrossSurfaces (platform_of lib doubles gst native) Proceed) fresh_sink_case)
       \<longleftrightarrow> doubles ''volume'' = Some 1"
    and "sink_passed (run_case (MuteContractAgreesAcrossSurfaces (platform_of lib doubles gst native) Proceed) fresh_sink_case)
       \<longleftrightarrow> get_boolean a (fresh a) ''mute'' = Some False \<and> get_boolean t (fresh t) ''mute'' = Some False"
    using assms(2,3) by (simp_all add: contract_verdicts, simp_all add: view_of_def)
qed


end
