(* ===== verification/Sink_Data_Cases.thy ===== *)
theory Sink_Data_Cases
  imports Sink_Element Mse_Feed
begin

text \<open>
  The data-path cases of the sinks (\<open>src/L4_e2e/mse/SinkEventDataPathTests.cpp\<close> and
  \<open>SinkCapsDataPathTests.cpp\<close>): a feed of \<open>Mse_Feed\<close> is driven to PLAYING with a stream of
  \<open>Media_Stream\<close>, an event is sent and its effect observed.  What the playing sink, its bus and its
  peer answer is the environment's, over a type \<open>'e\<close> of states the pipeline is in.
\<close>

section \<open>Environment and run\<close>

datatype GstMessageType = MESSAGE_EOS | MESSAGE_RESET_TIME | MESSAGE_INSTANT_RATE_REQUEST

text \<open>\<open>playing\<close> is the pipeline's state once PLAYING is reached; \<open>timed_pop\<close> says whether a message of
  a type is popped within so many nanoseconds; \<open>upstream\<close> lists the events that pass the source's
  pad while an event is sent, each with the name of its structure, \<open>None\<close> where the probe's info
  carries no event.\<close>

record 'e data_env =
  launch :: gst
  objects :: gst_env
  clock :: "nat \<Rightarrow> int"
  drive :: pipeline_env
  playing :: 'e
  sink_query :: "query_kind \<Rightarrow> 'e \<Rightarrow> bool \<times> GstQuery"
  sink_event :: "GstEvent \<Rightarrow> 'e \<Rightarrow> 'e \<times> bool"
  pad_event :: "GstEvent \<Rightarrow> 'e \<Rightarrow> 'e \<times> bool"
  pad_collection :: "'e \<Rightarrow> (string \<times> GstStreamType) list \<Rightarrow> bool"
  end_of_stream :: "'e \<Rightarrow> 'e"
  timed_pop :: "GstMessageType \<Rightarrow> int \<Rightarrow> 'e \<Rightarrow> bool"
  source_src_pad :: bool
  upstream :: "GstEvent \<Rightarrow> 'e \<Rightarrow> string option list"

text \<open>A case that never returns is recorded like one that crashed: it has no verdict.  \<open>freed\<close> is what
  the destructor of the feed released.\<close>

record feed_run = sink_case +
  freed :: "resource list"

definition fresh_feed_run :: feed_run where
  "fresh_feed_run = \<lparr>checks = [], ignored = False, crashed = False, freed = []\<rparr>"

definition free :: "resource list \<Rightarrow> (feed_run, unit) state" where
  "free rs = State (\<lambda>s. ((), s\<lparr>freed := freed s @ rs\<rparr>))"

lemma fresh_feed_run_passed [simp]: "sink_passed fresh_feed_run"
  by (simp add: sink_passed_def passed_def fresh_feed_run_def)

lemma decides_free [decide_rules]: "decides (free rs) True"
  by (simp add: decides_def free_def sink_passed_def passed_def)

definition kAacFrames :: int where "kAacFrames = 50"
definition kPlayingTimeout :: int where "kPlayingTimeout = 15000"
definition kMessageTimeout :: int where "kMessageTimeout = 10000"
definition kH264Frames :: int where "kH264Frames = 30"

text \<open>\<open>ARRANGE_PLAYING_FEED\<close> with the rest of the case.  A fatal assertion that fails returns from the
  case, and the feed, once constructed, is destroyed on every return.\<close>

definition ARRANGE_PLAYING_FEED :: "'e data_env \<Rightarrow> (MseSinkFeed \<Rightarrow> (feed_run, unit) state) \<Rightarrow> (feed_run, unit) state" where
  "ARRANGE_PLAYING_FEED env body =
     (let stream = generateAacAdtsStream (launch env) kAacFrames in
      fatal (frames stream \<noteq> [])
        (let feed = MseSinkFeed_new (objects env) stream in do {
           fatal (audio_isValid feed)
             (case audio_startPlaying (clock env) (drive env) feed kPlayingTimeout of
                None \<Rightarrow> crash
              | Some reachedPlaying \<Rightarrow> fatal reachedPlaying (body feed));
           free (audio_destroy feed) }))"

text \<open>\<open>sendEventToSink\<close> with its effect on the pipeline.\<close>

definition send_to_pad :: "'e data_env \<Rightarrow> MseSinkFeed \<Rightarrow> GstEvent \<Rightarrow> 'e \<Rightarrow> 'e \<times> bool" where
  "send_to_pad env feed event e =
     (if as_sinkPad feed then fst (pad_event env event e) else e,
      sendEventToSink feed (\<lambda>event. snd (pad_event env event e)) event)"

definition wait_message :: "'e data_env \<Rightarrow> MseSinkFeed \<Rightarrow> GstMessageType \<Rightarrow> int \<Rightarrow> 'e \<Rightarrow> bool" where
  "wait_message env feed type timeoutMs e \<longleftrightarrow>
     waitForBusMessage feed (\<lambda>ns. if timed_pop env type ns e then Some () else None) timeoutMs \<noteq> None"

section \<open>The cases\<close>

definition CapsAttachesSourceReachingPlaying :: "'e data_env \<Rightarrow> verdict \<Rightarrow> (feed_run, unit) state" where
  "CapsAttachesSourceReachingPlaying env v = gated v (ARRANGE_PLAYING_FEED env (\<lambda>feed.
     case sink_query env PositionQuery (playing env) of (positionAnswered, query) \<Rightarrow>
       let position = (if positionAnswered then gst_query_parse_position query (- 1) else - 1) in do {
         check positionAnswered;
         check (0 \<le> sint position) }))"

definition StreamCollectionTriggersAllSourcesAttached :: "'e data_env \<Rightarrow> verdict \<Rightarrow> (feed_run, unit) state" where
  "StreamCollectionTriggersAllSourcesAttached env v = gated v (ARRANGE_PLAYING_FEED env (\<lambda>feed.
     check (reportStreamCollection feed (pad_collection env (playing env)) 1 0 0)))"

definition kStop :: "64 word" where "kStop = 3600 * 1000000000"

definition SegmentEventAppliedToServerSource :: "'e data_env \<Rightarrow> verdict \<Rightarrow> (feed_run, unit) state" where
  "SegmentEventAppliedToServerSource env v = gated v (ARRANGE_PLAYING_FEED env (\<lambda>feed.
     case send_to_pad env feed (Segment 1 GST_FORMAT_TIME 0 kStop) (playing env) of (e1, sent) \<Rightarrow> do {
       check sent;
       case sink_query env SegmentQuery e1 of (answered, query) \<Rightarrow> do {
         check answered;
         case gst_query_parse_segment query (0, GST_FORMAT_UNDEFINED, - 1, - 1) of (rate, fmt, start, stop) \<Rightarrow> do {
           check (fmt = GST_FORMAT_TIME);
           check (\<bar>rate - 1\<bar> \<le> 1 / 10 ^ 9);
           check (stop = kStop) }}}))"

definition EosEventReachesEndOfStream :: "'e data_env \<Rightarrow> verdict \<Rightarrow> (feed_run, unit) state" where
  "EosEventReachesEndOfStream env v = gated v (ARRANGE_PLAYING_FEED env (\<lambda>feed.
     case audio_signalEos feed of (feed1, signalled) \<Rightarrow>
       let e1 = (if signalled then end_of_stream env (playing env) else playing env)
       in check (wait_message env feed1 MESSAGE_EOS kPlayingTimeout e1)))"

definition FlushHonoursResetTime :: "'e data_env \<Rightarrow> verdict \<Rightarrow> (feed_run, unit) state" where
  "FlushHonoursResetTime env v = gated v (ARRANGE_PLAYING_FEED env (\<lambda>feed.
     let e1 = fst (send_to_pad env feed FlushStart (playing env));
         e2 = fst (send_to_pad env feed (FlushStop True) e1)
     in check (wait_message env feed MESSAGE_RESET_TIME kMessageTimeout e2)))"

definition InstantRateChangeSeekPostsRateRequest :: "'e data_env \<Rightarrow> verdict \<Rightarrow> (feed_run, unit) state" where
  "InstantRateChangeSeekPostsRateRequest env v = gated v (ARRANGE_PLAYING_FEED env (\<lambda>feed.
     case sink_event env (Seek 2 GST_FORMAT_TIME GST_SEEK_FLAG_INSTANT_RATE_CHANGE GST_SEEK_TYPE_NONE 0 GST_SEEK_TYPE_NONE 0)
         (playing env) of (e1, sent) \<Rightarrow>
       check (wait_message env feed MESSAGE_INSTANT_RATE_REQUEST kMessageTimeout e1)))"

record UpstreamProbe =
  probe_name :: string
  seen :: bool

definition upstreamEventProbe :: "string option \<Rightarrow> UpstreamProbe \<Rightarrow> UpstreamProbe" where
  "upstreamEventProbe event probe =
     (case event of
        None \<Rightarrow> probe
      | Some n \<Rightarrow> if n = probe_name probe then probe\<lparr>seen := True\<rparr> else probe)"

definition kName :: string where "kName = ''rialto-conformance-upstream''"

definition UnknownUpstreamEventForwardedUpstream :: "'e data_env \<Rightarrow> verdict \<Rightarrow> (feed_run, unit) state" where
  "UnknownUpstreamEventForwardedUpstream env v = gated v (ARRANGE_PLAYING_FEED env (\<lambda>feed.
     fatal (source_src_pad env)
       (let probe0 = \<lparr>probe_name = kName, seen = False\<rparr>;
            probe = fold upstreamEventProbe (upstream env (CustomUpstream kName) (playing env)) probe0
        in check (seen probe))))"

text \<open>\<open>SinkCapsDataPathTests.cpp\<close>: the AVC stream through the video feed.\<close>

definition AvcCapsFieldsParsedReachingPlaying :: "'e data_env \<Rightarrow> verdict \<Rightarrow> (feed_run, unit) state" where
  "AvcCapsFieldsParsedReachingPlaying env v = gated v
     (let stream = generateH264AvcStream (launch env) kH264Frames in
      fatal (isComplete stream)
        (let feed = MseVideoSinkFeed_new (objects env) stream in do {
           fatal (video_isValid feed)
             (case video_startPlaying (clock env) (drive env) feed kPlayingTimeout of
                None \<Rightarrow> crash
              | Some reachedPlaying \<Rightarrow> check reachedPlaying);
           free (video_destroy feed) }))"

section \<open>Verdicts\<close>

definition event_data_cases :: "'e data_env \<Rightarrow> (feed_run, unit) state list" where
  "event_data_cases env = [CapsAttachesSourceReachingPlaying env Proceed,
     StreamCollectionTriggersAllSourcesAttached env Proceed, SegmentEventAppliedToServerSource env Proceed,
     EosEventReachesEndOfStream env Proceed, FlushHonoursResetTime env Proceed,
     InstantRateChangeSeekPostsRateRequest env Proceed, UnknownUpstreamEventForwardedUpstream env Proceed]"

definition arranged_feed :: "'e data_env \<Rightarrow> MseSinkFeed" where
  "arranged_feed env = MseSinkFeed_new (objects env) (generateAacAdtsStream (launch env) kAacFrames)"

definition arranged :: "'e data_env \<Rightarrow> bool" where
  "arranged env \<longleftrightarrow> frames (generateAacAdtsStream (launch env) kAacFrames) \<noteq> [] \<and> audio_isValid (arranged_feed env)
     \<and> audio_startPlaying (clock env) (drive env) (arranged_feed env) kPlayingTimeout = Some True"

lemma valid_feed_simps [simp]:
  "audio_isValid (arranged_feed env) \<Longrightarrow> as_sinkPad (arranged_feed env)"
  "audio_isValid (arranged_feed env) \<Longrightarrow> as_bus (arranged_feed env)"
  "audio_isValid (arranged_feed env) \<Longrightarrow> as_appsrc (arranged_feed env)"
  "\<not> as_eosSignalled (arranged_feed env)"
  by (auto simp: arranged_feed_def MseSinkFeed_new_def audio_isValid_def Let_def split: if_splits)

lemma decides_ARRANGE_PLAYING_FEED [decide_rules]:
  assumes "arranged env \<Longrightarrow> decides (body (arranged_feed env)) P"
  shows "decides (ARRANGE_PLAYING_FEED env body) (arranged env \<and> P)"
proof -
  let ?start = "audio_startPlaying (clock env) (drive env) (arranged_feed env) kPlayingTimeout"
  let ?frames = "frames (generateAacAdtsStream (launch env) kAacFrames) \<noteq> []"
  have unfolded: "ARRANGE_PLAYING_FEED env body = fatal ?frames (do {
      fatal (audio_isValid (arranged_feed env))
        (case ?start of None \<Rightarrow> crash | Some reachedPlaying \<Rightarrow> fatal reachedPlaying (body (arranged_feed env)));
      free (audio_destroy (arranged_feed env)) })"
    unfolding ARRANGE_PLAYING_FEED_def arranged_feed_def Let_def ..
  have "decides (case ?start of None \<Rightarrow> crash | Some reachedPlaying \<Rightarrow> fatal reachedPlaying (body (arranged_feed env)))
      (?start = Some True \<and> P)" if ?frames "audio_isValid (arranged_feed env)"
    using that assms decides_crash by (cases ?start; cases "the ?start") (auto simp: arranged_def decides_def fatal_def)
  then have "decides (ARRANGE_PLAYING_FEED env body)
      (?frames \<and> ((audio_isValid (arranged_feed env) \<and> (?start = Some True \<and> P)) \<and> True))"
    unfolding unfolded by (intro decides_fatal decides_then decides_free)
  then show ?thesis by (rule decides_eq) (auto simp: arranged_def)
qed

text \<open>The effect each case looks for, on a pipeline that is playing.\<close>

definition effects :: "'e data_env \<Rightarrow> bool list" where
  "effects env =
     [case sink_query env PositionQuery (playing env) of (True, Position _ pos) \<Rightarrow> 0 \<le> sint pos | _ \<Rightarrow> False,
      pad_collection env (playing env) [(''audio-0'', STREAM_AUDIO)],
      (case pad_event env (Segment 1 GST_FORMAT_TIME 0 kStop) (playing env) of
         (e1, True) \<Rightarrow>
           (case sink_query env SegmentQuery e1 of
              (True, SegmentAnswer rate GST_FORMAT_TIME _ stop) \<Rightarrow> \<bar>rate - 1\<bar> \<le> 1 / 10 ^ 9 \<and> stop = kStop
            | _ \<Rightarrow> False)
       | _ \<Rightarrow> False),
      timed_pop env MESSAGE_EOS 15000000000 (end_of_stream env (playing env)),
      timed_pop env MESSAGE_RESET_TIME 10000000000 (fst (pad_event env (FlushStop True) (fst (pad_event env FlushStart (playing env))))),
      timed_pop env MESSAGE_INSTANT_RATE_REQUEST 10000000000
        (fst (sink_event env (Seek 2 GST_FORMAT_TIME GST_SEEK_FLAG_INSTANT_RATE_CHANGE GST_SEEK_TYPE_NONE 0 GST_SEEK_TYPE_NONE 0)
           (playing env))),
      source_src_pad env \<and> Some kName \<in> set (upstream env (CustomUpstream kName) (playing env))]"

lemma probe_seen: "seen (fold upstreamEventProbe evs p) \<longleftrightarrow> seen p \<or> Some (probe_name p) \<in> set evs"
  by (induction evs arbitrary: p) (auto simp: upstreamEventProbe_def split: option.split)

lemma wait_message_valid:
  "as_bus feed \<Longrightarrow> wait_message env feed type ms e \<longleftrightarrow> timed_pop env type (ms * 1000000) e"
  by (simp add: wait_message_def waitForBusMessage_def)

lemma signalEos_valid: "audio_isValid (arranged_feed env) \<Longrightarrow> audio_signalEos (arranged_feed env) = ((arranged_feed env)\<lparr>as_eosSignalled := True\<rparr>, True)"
  by (simp add: audio_signalEos_def)

lemma decides_event_data_cases:
  "decides (CapsAttachesSourceReachingPlaying env Proceed) (arranged env \<and> effects env ! 0)"
  "decides (StreamCollectionTriggersAllSourcesAttached env Proceed) (arranged env \<and> effects env ! 1)"
  "decides (SegmentEventAppliedToServerSource env Proceed) (arranged env \<and> effects env ! 2)"
  "decides (EosEventReachesEndOfStream env Proceed) (arranged env \<and> effects env ! 3)"
  "decides (FlushHonoursResetTime env Proceed) (arranged env \<and> effects env ! 4)"
  "decides (InstantRateChangeSeekPostsRateRequest env Proceed) (arranged env \<and> effects env ! 5)"
  "decides (UnknownUpstreamEventForwardedUpstream env Proceed) (arranged env \<and> effects env ! 6)"
proof -
  have coll: "stream_collection 1 0 0 = [(''audio-0'', STREAM_AUDIO)]" by code_simp
  show "decides (CapsAttachesSourceReachingPlaying env Proceed) (arranged env \<and> effects env ! 0)"
    unfolding CapsAttachesSourceReachingPlaying_def
    by (rule decides_eq, (rule decide_rules)+)
      (auto simp: effects_def Let_def split: prod.splits GstQuery.splits bool.splits)
  show "decides (StreamCollectionTriggersAllSourcesAttached env Proceed) (arranged env \<and> effects env ! 1)"
    unfolding StreamCollectionTriggersAllSourcesAttached_def
    by (rule decides_eq, (rule decide_rules)+)
      (auto simp: effects_def reportStreamCollection_def sendEventToSink_def coll arranged_def)
  show "decides (SegmentEventAppliedToServerSource env Proceed) (arranged env \<and> effects env ! 2)"
    unfolding SegmentEventAppliedToServerSource_def
    by (rule decides_eq, (rule decide_rules)+)
      (auto simp: effects_def send_to_pad_def sendEventToSink_def arranged_def
        split: prod.splits GstQuery.splits bool.splits GstFormat.splits)
  show "decides (EosEventReachesEndOfStream env Proceed) (arranged env \<and> effects env ! 3)"
    unfolding EosEventReachesEndOfStream_def
    by (rule decides_eq, (rule decide_rules)+)
      (auto simp: effects_def arranged_def signalEos_valid wait_message_valid kPlayingTimeout_def)
  show "decides (FlushHonoursResetTime env Proceed) (arranged env \<and> effects env ! 4)"
    unfolding FlushHonoursResetTime_def
    by (rule decides_eq, (rule decide_rules)+)
      (auto simp: effects_def arranged_def Let_def send_to_pad_def wait_message_valid kMessageTimeout_def)
  show "decides (InstantRateChangeSeekPostsRateRequest env Proceed) (arranged env \<and> effects env ! 5)"
    unfolding InstantRateChangeSeekPostsRateRequest_def
    by (rule decides_eq, (rule decide_rules)+)
      (auto simp: effects_def arranged_def wait_message_valid kMessageTimeout_def split: prod.splits)
  show "decides (UnknownUpstreamEventForwardedUpstream env Proceed) (arranged env \<and> effects env ! 6)"
    unfolding UnknownUpstreamEventForwardedUpstream_def
    by (rule decides_eq, (rule decide_rules)+) (auto simp: effects_def probe_seen Let_def)
qed

text \<open>C37: Each of the seven event cases passes exactly when a non-empty stream was synthesised, the
  feed was built and driven to PLAYING, and the effect the case is about is seen: so each of
  them is a test of the bring-up as well, and none accepts a query answered with the wrong
  kind of answer, a refused event it must see accepted, or a message after its time.\<close>

theorem event_data_cases_verdict:
  "map (\<lambda>m. sink_passed (run_case m fresh_feed_run)) (event_data_cases env) = map (\<lambda>effect. arranged env \<and> effect) (effects env)"
proof -
  have "length (effects env) = 7" by (simp add: effects_def)
  then obtain a b c d e f g where eff: "effects env = [a, b, c, d, e, f, g]"
    by (auto simp: eval_nat_numeral length_Suc_conv)
  show ?thesis
    unfolding event_data_cases_def list.map decides_event_data_cases [THEN decides_run_case, OF fresh_feed_run_passed]
    by (simp add: eff eval_nat_numeral)
qed

text \<open>The AVC case: it passes exactly when the encoder delivered a frame and codec data, the video feed
  was built and driven to PLAYING.\<close>

lemma avc_case_verdict:
  fixes env :: "'e data_env"
  defines "feed \<equiv> MseVideoSinkFeed_new (objects env) (generateH264AvcStream (launch env) kH264Frames)"
  shows "sink_passed (run_case (AvcCapsFieldsParsedReachingPlaying env v) fresh_feed_run) \<longleftrightarrow> v = Proceed
     \<and> isComplete (generateH264AvcStream (launch env) kH264Frames) \<and> video_isValid feed
     \<and> video_startPlaying (clock env) (drive env) feed kPlayingTimeout = Some True"
proof -
  let ?start = "video_startPlaying (clock env) (drive env) feed kPlayingTimeout"
  have start: "decides (case ?start of None \<Rightarrow> crash | Some reachedPlaying \<Rightarrow> check reachedPlaying) (?start = Some True)"
    by (cases ?start) (auto intro: decides_eq [OF decides_crash] decides_eq [OF decides_check])
  have "decides (AvcCapsFieldsParsedReachingPlaying env v) (v = Proceed
     \<and> (isComplete (generateH264AvcStream (launch env) kH264Frames) \<and> ((video_isValid feed \<and> ?start = Some True) \<and> True)))"
    unfolding AvcCapsFieldsParsedReachingPlaying_def Let_def feed_def [symmetric]
    by (intro decides_gated decides_fatal decides_then decides_free start)
  then show ?thesis by (simp add: decides_run_case)
qed

section \<open>Every case returns and destroys its feed\<close>

text \<open>\<open>quiet m\<close>: the computation \<open>m\<close> neither crashes nor frees anything.\<close>

definition quiet :: "(feed_run, unit) state \<Rightarrow> bool" where
  "quiet m \<longleftrightarrow> (\<forall>s. crashed (snd (run_state m s)) = crashed s \<and> freed (snd (run_state m s)) = freed s)"

named_theorems quiet_rules

lemma quiet_basic [quiet_rules]: "quiet (check b)" "quiet (State_Monad.return x)"
  by (simp_all add: quiet_def)

lemma quiet_then [quiet_rules]: "quiet m \<Longrightarrow> quiet n \<Longrightarrow> quiet (State_Monad.bind m (\<lambda>_. n))"
  by (simp add: quiet_def split_beta)

lemma quiet_fatal [quiet_rules]: "quiet m \<Longrightarrow> quiet (fatal b m)"
  by (simp add: quiet_def fatal_def)

lemma quiet_let [quiet_rules]: "(\<And>x. quiet (m x)) \<Longrightarrow> quiet (let y = x in m y)"
  by simp

lemma quiet_prod [quiet_rules]: "(\<And>a b. quiet (m a b)) \<Longrightarrow> quiet (case p of (a, b) \<Rightarrow> m a b)"
  by (cases p) simp

lemma drive_returns:
  assumes "advancing gap (\<lambda>i. clk (Suc i))"
  shows "drive_to_playing clk p report timeout \<noteq> None"
  using deadline_loop_decides [OF assms, of report "clk 0 + timeout" 0]
  by (auto simp: drive_to_playing_def Let_def)

lemma start_returns:
  assumes "advancing gap (\<lambda>i. clk (Suc i))"
  shows "audio_startPlaying clk p f timeout \<noteq> None" "video_startPlaying clk p w timeout \<noteq> None"
  using drive_returns [OF assms] by (auto simp: audio_startPlaying_def video_startPlaying_def split: if_splits)

lemma arrange_frees:
  assumes "advancing gap (\<lambda>i. clock env (Suc i))" "\<And>feed. quiet (body feed)"
  shows "\<not> crashed (run_case (gated Proceed (ARRANGE_PLAYING_FEED env body)) fresh_feed_run)
     \<and> freed (run_case (gated Proceed (ARRANGE_PLAYING_FEED env body)) fresh_feed_run) =
        (if frames (generateAacAdtsStream (launch env) kAacFrames) = [] then [] else audio_destroy (arranged_feed env))"
proof -
  obtain b where b: "audio_startPlaying (clock env) (drive env) (arranged_feed env) kPlayingTimeout = Some b"
    using start_returns(1) [OF assms(1)] by blast
  have body: "crashed (snd (run_state (body feed) s)) = crashed s" "freed (snd (run_state (body feed) s)) = freed s" for feed s
    using assms(2) by (simp_all add: quiet_def)
  show ?thesis
    using b unfolding ARRANGE_PLAYING_FEED_def Let_def arranged_feed_def [symmetric]
    by (cases b) (simp_all add: run_case_def gated_def fatal_def free_def body fresh_feed_run_def split_beta)
qed


text \<open>A sink that refuses the collection for ever, on a clock that ticks every 20 ms.\<close>

definition refusing_env :: "unit data_env" where
  "refusing_env = \<lparr>launch = (\<lambda>_. Some sample_run), objects = all_there, clock = (\<lambda>k. 20 * int k),
     drive = \<lparr>set_state_failure = False, accepts_at = (\<lambda>_ _. False), playing_within = (\<lambda>_. True)\<rparr>, playing = (),
     sink_query = (\<lambda>_ _. (True, Position GST_FORMAT_TIME 0)), sink_event = (\<lambda>_ e. (e, True)), pad_event = (\<lambda>_ e. (e, True)),
     pad_collection = (\<lambda>_ _. True), end_of_stream = (\<lambda>e. e), timed_pop = (\<lambda>_ _ _. True), source_src_pad = True,
     upstream = (\<lambda>_ _. [])\<rparr>"


end
