(* ===== verification/Suite_Registry.thy ===== *)
theory Suite_Registry
  imports Case_Gates
begin

text \<open>
  The registered cases of the whole suite: for each file its suite class, the level group it is
  registered into by \<open>UT_ADD_TEST_TO_GROUP\<close>, and its cases with the tier each declares and the
  capability and release gates at its head, in the order they are written.
\<close>

type_synonym registered_suite = "string \<times> nat \<times> (string \<times> Tier \<times> requirement list) list"

definition l1CapsTests :: registered_suite where
  "l1CapsTests = (''L1CapsTests'', 1, [
     (''SinkPadTemplateIsSingleAlwaysSink'', Core, []),
     (''AdvertisedCapsAreDocumentedSubset'', Core, []),
     (''AudioMimeToCapsMappingCorrect'', Core, []),
     (''VideoMimeToCapsMappingCorrect'', Core, []),
     (''SubtitleMimeToCapsMappingCorrect'', Core, [])])"

definition l1EventTests :: registered_suite where
  "l1EventTests = (''L1EventTests'', 1, [
     (''SeekingQueryReportsNotSeekable'', Core, []),
     (''PositionQueryFalseWithoutClient'', Core, []),
     (''DurationQueryFalseWithoutClient'', Core, []),
     (''SegmentQueryReturnsLastSegment'', Core, []),
     (''UnsupportedSeeksAreRejected'', Core, []),
     (''UnhandledDownstreamEventIsConsumed'', Core, [])])"

definition l1PropertyTests :: registered_suite where
  "l1PropertyTests = (''L1PropertyTests'', 1, [
     (''BaseSinkProperties'', Core, []),
     (''BaseSinkSignals'', Core, []),
     (''AudioSinkProperties'', Core, []),
     (''AudioSinkWebAudioSettableOnlyInNull'', Core, []),
     (''AudioSinkConditionalProperties'', Core, []),
     (''VideoSinkProperties'', Core, []),
     (''VideoSinkDeprecatedAliases'', Core, []),
     (''VideoSinkConditionalProperties'', Core, []),
     (''VideoSinkVisibilityAndDecodeProperties'', Core, [Since ''v0.24.0'']),
     (''SubtitleSinkProperties'', Core, []),
     (''ReadablePropertiesFallbackDefaults'', Core, [])])"

definition l1SinkRegistrationTests :: registered_suite where
  "l1SinkRegistrationTests = (''L1SinkRegistrationTests'', 1, [
     (''VideoSinkRegistered'', Core, []),
     (''AudioSinkRegistered'', Core, []),
     (''RegistrationIsRankGated'', Core, []),
     (''SinkFactoryKlassMetadata'', Core, []),
     (''AudioSinkImplementsStreamVolume'', Core, [])])"

definition l1StateTests :: registered_suite where
  "l1StateTests = (''L1StateTests'', 1, [
     (''NullDelegateStateChangeFails'', Core, []),
     (''NullToReadyReachesReadyWhenRunning'', Core, []),
     (''ReadyToPausedIsAsyncWhenSourceNotAttached'', Core, []),
     (''PausedToPlayingFailsWhenSourceNotAttached'', Core, []),
     (''PausedToReadyTearsDownAndSucceeds'', Core, []),
     (''ReadyToNullReleasesAndSucceeds'', Core, [])])"

definition l1CapabilitiesTests :: registered_suite where
  "l1CapabilitiesTests = (''L1CapabilitiesTests'', 1, [
     (''CreateFactoryAndObject'', Core, []),
     (''BaselineVideoMimeTypeSupportIsConsistent'', Core, []),
     (''Av1MimeTypeSupportedWhenDeclared'', Core, [Cap ''codecs.video.av1'']),
     (''IsVideoMasterReportsStatus'', Core, []),
     (''SupportedMimeTypesPerSourceType'', Core, []),
     (''SupportedPropertiesContract'', Core, [])])"

definition l1ClientLogControlTests :: registered_suite where
  "l1ClientLogControlTests = (''L1ClientLogControlTests'', 1, [
     (''FactoryReturnsSingleton'', Core, []),
     (''HandlerReceivesPopulatedRecords'', Core, []),
     (''RegisteringNewHandlerReplacesPrevious'', Core, []),
     (''NullHandlerCancelsDelivery'', Core, [])])"

definition l1ControlTests :: registered_suite where
  "l1ControlTests = (''L1ControlTests'', 1, [
     (''RegisterClientReturnsTrueAndWritesState'', Core, []),
     (''RegisteredClientLearnsRunningState'', Core, []),
     (''RegisteredClientIsNotifiedOfStateTransition'', Core, [Cap ''control.stateToggle'']),
     (''ClientReleasedOnControlDestruction'', Core, [])])"

definition l1FactoryTests :: registered_suite where
  "l1FactoryTests = (''L1FactoryTests'', 1, [
     (''EveryPublicFactoryIsNonNull'', Core, []),
     (''CreateMediaKeysReturnsNullForUnsupportedKeySystem'', Core, [])])"

definition l1KeysCapabilitiesTests :: registered_suite where
  "l1KeysCapabilitiesTests = (''L1KeysCapabilitiesTests'', 1, [
     (''CapabilitiesObtainable'', Core, []),
     (''SupportsKeySystemConsistentWithList'', Core, []),
     (''SupportedKeySystemVersionContract'', Core, []),
     (''ServerCertificateQueryIsLegal'', Core, []),
     (''WidevineSupportedWhenDeclared'', Core, [Cap ''drm.widevine'']),
     (''PlayReadySupportedWhenDeclared'', Core, [Cap ''drm.playready'']),
     (''ClearKeySupportedWhenDeclared'', Core, [Cap ''drm.clearkey'']),
     (''ClearKeyReportsVersion'', Core, [Cap ''drm.clearkey'']),
     (''ClearKeyHasNoServerCertificate'', Core, [Cap ''drm.clearkey''])])"

definition l1KeysSessionTests :: registered_suite where
  "l1KeysSessionTests = (''L1KeysSessionTests'', 1, [
     (''CreateKeySessionWritesValidId'', Core, [Cap ''drm.clearkey'']),
     (''GenerateRequestDeliversLicenseRequest'', Core, [Cap ''drm.clearkey'']),
     (''UpdateSessionSurfacesUsableKeyStatus'', Core, [Cap ''drm.clearkey'']),
     (''SessionTeardownReturnsOk'', Core, [Cap ''drm.clearkey'']),
     (''UnknownSessionIdReturnsBadSessionId'', Core, [Cap ''drm.clearkey'']),
     (''StoreAndMaintenanceQueriesAnswer'', Core, [Cap ''drm.clearkey'']),
     (''SelectKeyIdAnswersForValidSession'', Core, [Cap ''drm.clearkey'']),
     (''ClientHeldWeaklyAndReleasable'', Core, [Cap ''drm.clearkey''])])"

definition l1PipelineTests :: registered_suite where
  "l1PipelineTests = (''L1PipelineTests'', 1, [
     (''CreateReturnsInstance'', Core, []),
     (''GetClientReturnsSuppliedClient'', Core, [])])"

definition l1WebAudioTests :: registered_suite where
  "l1WebAudioTests = (''L1WebAudioTests'', 1, [
     (''CreateReturnsInstance'', Core, []),
     (''StateMachineNotifiesTransitions'', Core, [Cap ''webaudio.playout'']),
     (''GetBufferAvailableBoundsTheWrite'', Core, []),
     (''GetBufferDelayReportsQueuedFrames'', Core, []),
     (''GetDeviceInfoReportsBufferSizing'', Core, []),
     (''VolumeRoundTrips'', Core, []),
     (''HighPriorityPlayerAppearsToFunction'', Core, []),
     (''GetClientReturnsSuppliedClient'', Core, [])])"

definition l2CapabilityConsistencyTests :: registered_suite where
  "l2CapabilityConsistencyTests = (''L2CapabilityConsistencyTests'', 2, [
     (''SupportedMimesMatchSinkCaps'', Core, []),
     (''VideoMasterNativeMatchesMse'', Core, []),
     (''VolumeContractAgreesAcrossSurfaces'', Core, []),
     (''MuteContractAgreesAcrossSurfaces'', Core, []),
     (''InstalledOptionalPropertiesAreNativeSupported'', Core, [])])"

definition l2PipelineLifecycleTests :: registered_suite where
  "l2PipelineLifecycleTests = (''L2PipelineLifecycleTests'', 2, [
     (''LoadAttachRemoveSource'', Core, []),
     (''AllSourcesAttachedIsLegalOnlyOnce'', Core, []),
     (''MultiSourceAttachComposition'', Core, [])])"

definition l3MemoryUsageTests :: registered_suite where
  "l3MemoryUsageTests = (''L3MemoryUsageTests'', 3, [
     (''CapabilitiesLifecycleChurnDoesNotLeak'', Extended, [])])"

definition l4SinkCapsDataPathTests :: registered_suite where
  "l4SinkCapsDataPathTests = (''L4SinkCapsDataPathTests'', 4, [
     (''AvcCapsFieldsParsedReachingPlaying'', Core, [])])"

definition l4SinkEventDataPathTests :: registered_suite where
  "l4SinkEventDataPathTests = (''L4SinkEventDataPathTests'', 4, [
     (''CapsAttachesSourceReachingPlaying'', Core, []),
     (''StreamCollectionTriggersAllSourcesAttached'', Core, []),
     (''SegmentEventAppliedToServerSource'', Core, []),
     (''EosEventReachesEndOfStream'', Core, []),
     (''FlushHonoursResetTime'', Core, []),
     (''InstantRateChangeSeekPostsRateRequest'', Core, []),
     (''UnknownUpstreamEventForwardedUpstream'', Core, [])])"

definition l4DataFaultTests :: registered_suite where
  "l4DataFaultTests = (''L4DataFaultTests'', 4, [
     (''NoSpaceIsNotAnErrorAndTheSegmentIsResent'', Core, []),
     (''AddSegmentWithAnUnissuedRequestIdIsAnError'', Core, []),
     (''CancelledNeedDataIsNotAnError'', Core, []),
     (''NonFatalPlaybackErrorLeavesStateUnchanged'', Core, [])])"

definition l4DataProtocolTests :: registered_suite where
  "l4DataProtocolTests = (''L4DataProtocolTests'', 4, [
     (''NeedDataProtocolIsWellFormed'', Core, []),
     (''HaveDataEosDrivesEndOfStream'', Core, []),
     (''CleanRunNetworkStateVocabulary'', Core, []),
     (''StarvationIsToleratedAndEventsObserved'', Core, [])])"

definition l4PipelineAuxDataPathTests :: registered_suite where
  "l4PipelineAuxDataPathTests = (''L4PipelineAuxDataPathTests'', 4, [
     (''VolumeRoundTripsOnRealizedPipeline'', Core, []),
     (''MuteRoundTripsPerSource'', Core, []),
     (''SetVideoWindowAcceptsGeometry'', Core, []),
     (''FlushEmitsSourceFlushed'', Core, []),
     (''SetSourcePositionSucceeds'', Core, []),
     (''ProcessAudioGapSucceeds'', Core, []),
     (''BufferingLimitConformsWhenSupported'', Core, []),
     (''UseBufferingRoundTrips'', Core, []),
     (''RenderFrameSucceedsOnceLoaded'', Core, []),
     (''SetLowLatencyIsAccepted'', Core, []),
     (''SyncRoundTrips'', Core, []),
     (''SetSyncOffAcceptedBeforePlaying'', Core, []),
     (''StreamSyncModeConformsWhenSupported'', Core, []),
     (''SwitchSourceAcceptsNewAudioSource'', Core, [])])"

definition l4PipelineTransportDataPathTests :: registered_suite where
  "l4PipelineTransportDataPathTests = (''L4PipelineTransportDataPathTests'', 4, [
     (''PlayPauseStopStateMachine'', Core, []),
     (''SetPlaybackRateSucceedsWhilePlaying'', Core, []),
     (''SetPositionSetsStartThenSeeksWhilePlaying'', Core, [])])"

definition l4PlaybackDataPathTests :: registered_suite where
  "l4PlaybackDataPathTests = (''L4PlaybackDataPathTests'', 4, [
     (''GetPositionSucceedsOncePlaying'', Core, []),
     (''GetDurationNotDeterminableForStreamSource'', Core, []),
     (''GetStatsSucceedsOncePlaying'', Core, [])])"

definition registered_suites :: "registered_suite list" where
  "registered_suites = [l1CapsTests, l1EventTests, l1PropertyTests, l1SinkRegistrationTests,
     l1StateTests, l1CapabilitiesTests, l1ClientLogControlTests, l1ControlTests,
     l1FactoryTests, l1KeysCapabilitiesTests, l1KeysSessionTests, l1PipelineTests,
     l1WebAudioTests, l2CapabilityConsistencyTests, l2PipelineLifecycleTests, l3MemoryUsageTests,
     l4SinkCapsDataPathTests, l4SinkEventDataPathTests, l4DataFaultTests, l4DataProtocolTests,
     l4PipelineAuxDataPathTests, l4PipelineTransportDataPathTests, l4PlaybackDataPathTests]"

record registered_case =
  level :: nat
  case_name :: string
  gates_of :: test_case

definition registered_cases :: "registered_case list" where
  "registered_cases = concat (map (\<lambda>(s, l, cs). map (\<lambda>(n, t, rs).
     \<lparr>level = l, case_name = n, gates_of = \<lparr>suite = s, tier = t, requirements = rs\<rparr>\<rparr>) cs) registered_suites)"

section \<open>The suite is well formed\<close>

definition level_name :: "nat \<Rightarrow> string" where
  "level_name n = (if n = 1 then ''L1'' else if n = 2 then ''L2'' else if n = 3 then ''L3'' else ''L4'')"

text \<open>What a registration must satisfy: the group is one of the four, the class is named after it and
  after no other level, no case is registered twice, and every release a case requires is one
  the target has.\<close>

fun well_registered :: "registered_suite \<Rightarrow> bool" where
  "well_registered (s, l, cs) \<longleftrightarrow> l \<in> {1, 2, 3, 4}
     \<and> list_all (\<lambda>n. prefix n s = (n = level_name l)) [''L1'', ''L2'', ''L3'', ''L4'']
     \<and> distinct (map fst cs)
     \<and> list_all (\<lambda>(_, _, rs). list_all (\<lambda>r. case r of Cap _ \<Rightarrow> True
          | Since v \<Rightarrow> releaseAtLeast kTargetRialtoRelease v = Some True) rs) cs"

lemma suites_well_registered: "list_all well_registered registered_suites" "distinct (map fst registered_suites)"
  "length registered_cases = 121"
  by code_simp+

lemma registered_case_facts:
  assumes "r \<in> set registered_cases"
  shows "n \<in> set [''L1'', ''L2'', ''L3'', ''L4''] \<Longrightarrow> prefix n (suite (gates_of r)) \<longleftrightarrow> n = level_name (level r)"
    and "Since v \<in> set (requirements (gates_of r)) \<Longrightarrow> releaseAtLeast kTargetRialtoRelease v = Some True"
proof -
  from assms obtain s l cs c t rs where r: "(s, l, cs) \<in> set registered_suites" "(c, t, rs) \<in> set cs"
    "r = \<lparr>level = l, case_name = c, gates_of = \<lparr>suite = s, tier = t, requirements = rs\<rparr>\<rparr>"
    by (auto simp: registered_cases_def)
  have w: "well_registered (s, l, cs)" using suites_well_registered(1) r(1) unfolding list_all_iff by blast
  show "n \<in> set [''L1'', ''L2'', ''L3'', ''L4''] \<Longrightarrow> prefix n (suite (gates_of r)) \<longleftrightarrow> n = level_name (level r)"
    using w r(3) by (auto simp: list_all_iff)
  show "Since v \<in> set (requirements (gates_of r)) \<Longrightarrow> releaseAtLeast kTargetRialtoRelease v = Some True"
    using w r by (fastforce simp: list_all_iff)
qed

lemma check_requirements_known:
  "(\<And>v. Since v \<in> set rs \<Longrightarrow> releaseAtLeast kTargetRialtoRelease v = Some True) \<Longrightarrow>
   check_requirements hfp rs =
     Some (if list_all (\<lambda>r. case r of Cap k \<Rightarrow> supports hfp k | Since _ \<Rightarrow> True) rs then Proceed
           else Skipped ''capability-gate'')"
  by (induction hfp rs rule: check_requirements.induct)
    (auto simp: CONFORMANCE_REQUIRE_CAP_def CONFORMANCE_REQUIRE_SINCE_def)

section \<open>Runs of the suite\<close>

definition outcome :: "profile \<Rightarrow> string \<Rightarrow> nat \<Rightarrow> registered_case \<Rightarrow> verdict" where
  "outcome hfp scope tsel r =
     (if scope \<noteq> ''full'' \<and> scope \<noteq> level_name (level r) then Skipped ''scope-gate''
      else if \<not> tier_admits tsel (tier (gates_of r)) then Skipped ''tier-gate''
      else if list_all (\<lambda>q. case q of Cap k \<Rightarrow> supports hfp k | Since _ \<Rightarrow> True) (requirements (gates_of r)) then Proceed
      else Skipped ''capability-gate'')"

lemma decide_outcome:
  assumes "r \<in> set registered_cases" "scope \<in> set [''full'', ''L1'', ''L2'', ''L3'', ''L4'']"
  shows "decide hfp scope tsel (gates_of r) = Some (outcome hfp scope tsel r)"
proof -
  have "scope_admits scope (suite (gates_of r)) \<longleftrightarrow> scope = ''full'' \<or> scope = level_name (level r)"
    using registered_case_facts(1) [OF assms(1)] assms(2) by (auto simp: scope_admits_def)
  moreover have "check_requirements hfp (requirements (gates_of r)) =
     Some (if list_all (\<lambda>q. case q of Cap k \<Rightarrow> supports hfp k | Since _ \<Rightarrow> True) (requirements (gates_of r)) then Proceed
           else Skipped ''capability-gate'')"
    using registered_case_facts(2) [OF assms(1)] by (rule check_requirements_known)
  ultimately show ?thesis by (simp add: decide_def outcome_def)
qed

text \<open>C19: A run of the suite as it is registered.  For every scope that \<open>main\<close> admits, every tier
  selection and every profile, each of the 121 cases gets a verdict, and it is this: a scoped run
  skips exactly the cases of the other level groups, by the names of their classes; then the tier
  decides; then a case is skipped exactly when the profile does not declare a capability it
  requires.  No case is skipped by the release gate, and no release string is unreadable.\<close>

theorem registered_suite_run:
  assumes "fst (scopeIsValid env)"
  shows "run_cases hfp fresh_gates (map (Pair env) (map gates_of registered_cases)) =
     map (\<lambda>r. Some (outcome hfp (scopeName env) (tier_selection env) r)) registered_cases"
proof -
  have valid: "scopeName env \<in> set [''full'', ''L1'', ''L2'', ''L3'', ''L4'']"
    using assms by (auto simp: scopeIsValid_def Let_def split: if_splits)
  show ?thesis
    unfolding run_cases_are_decided by (simp add: decide_outcome [OF _ valid] del: list.set)
qed

text \<open>With no profile, a run of level 1 starts sixty of its seventy-six cases.\<close>

theorem registered_suite_run_witness:
  "length (filter (\<lambda>v. v = Some Proceed) (run_cases None fresh_gates (map (Pair core_env) (map gates_of registered_cases)))) = 60"
proof -
  have valid: "fst (scopeIsValid core_env)"
    by (simp add: scopeIsValid_def core_env_def scopeName_def Let_def)
  have sel: "scopeName core_env = ''L1''" "tier_selection core_env = 1"
    by (simp_all add: core_env_def scopeName_def tier_selection_def)
  have "length (filter (\<lambda>v. v = Some Proceed) (map (\<lambda>r. Some (outcome None ''L1'' 1 r)) registered_cases)) = 60"
    by code_simp
  then show ?thesis unfolding registered_suite_run [OF valid] sel .
qed

end
