(* ===== verification/Spec2Isabelle.thy ===== *)
theory Spec2Isabelle
  imports Clearkey_Cdm Sim_Control Sink_Race Feed_Linear Playback_Reference
    Keys_Cases Memory_Usage Consistency_Cases Native_Cases Keys_Capabilities_Cases Control_Cases Web_Audio_Cases
    Log_Cases Sink_Surfaces Sink_Data_Cases Suite_Registry
begin

text \<open>
  A verification library for the Rialto conformance suite.

  \<^bold>\<open>The program.\<close>  The suite is a C++ executable of unit-test cases that drives the Rialto
  client library and the \<open>rialtomse*sink\<close> GStreamer elements as an application would, with the
  parts it needs to do so: a feeding client that answers the server's requests for media data, an
  encoder that synthesises streams, feeds for the sinks, a ClearKey decryption backend loaded by
  the server, a client of the server manager's control port, and the gates that select which
  cases run.  The Rialto library and server, GStreamer, the HFP profile library, ut-core, the
  socket layer and the clock are not part of the repository: each is an argument of the
  definitions that use it.

  \<^bold>\<open>Conventions\<close> (\<open>Conf_Prelude\<close>).  \<open>std::string\<close> is a list of characters, a byte vector a list of
  8-bit words, fixed-width arithmetic that can wrap is done on words, a null pointer is \<open>None\<close>,
  undefined behaviour and a call that does not return are \<open>None\<close> results.  Stateful code returns the
  new state; what it does to the outside is a log of events in the order they are made.

  \<^bold>\<open>Theories and sources.\<close>

    \<^item> \<open>Base64_Url\<close>, \<open>Json_Scan\<close>, \<open>Clearkey_Cdm\<close>: \<open>backends/opencdm/clearkey/open_cdm.cpp\<close>.  The
      codec and the field scanner by positions, as written; the heap of systems and sessions and
      all entry points.  Shown: the decoder refines a specification on bit strings and inverts the
      encoder; the scanner equals a grammar of the text it reads; the license exchange end to end,
      the effect of an update on each branch, including the partial effect of a failing one;
      invariants of every reachable heap; refinement of the W3C session contract.
    \<^item> \<open>Media_Stream\<close>, \<open>Feed_Client\<close>, \<open>Feed_Race\<close>, \<open>Feed_Linear\<close>: \<open>src/common/MediaFeed.cpp\<close> and
      \<open>include/conformance/MediaFeed.h\<close>.  The client with every handler, observer and wait, its
      calls on the pipeline logged; \<open>Feed_Race\<close> cuts the need-data handler at its lock releases
      and interleaves it with every other operation as an inductive step relation.  Shown: frames
      are accepted in order and without loss, counters are exact, a refused frame is offered
      again, feeding completes, one request is served at a time, and what remains of this under
      interference, with the two operations, and no others, that make the handler's accesses
      outside its mutex undefined; and in \<open>Feed_Linear\<close> that, rewinding or registering anew
      the source of the round under way aside, the interleavings reach exactly what runs of whole
      operations reach, so that the properties of serial runs carry over.
    \<^item> \<open>Mse_Feed\<close>: \<open>src/common/MseSinkFeed.cpp\<close> and \<open>MseVideoSinkFeed.cpp\<close>; \<open>Sim_Control\<close>:
      \<open>src/common/SimControl.cpp\<close>; \<open>Polling\<close>: \<open>include/conformance/AsyncApply.h\<close> and the timed waits.
      Shown: the closed form of the endless replay, when its timestamps are monotonic; in
      \<open>Sink_Race\<close>, with the streaming thread and the test thread interleaved, that the source gets
      the replay in order and at most one buffer after its end, and that a stream synthesised at a
      constant frame length reaches it without a seam; what an
      exchange returns, when it returns, that it releases its resources; the verdict and the bound
      of a poll.
    \<^item> \<open>Release_Gate\<close>, \<open>Case_Gates\<close>: the gate headers, \<open>RegistrationProbe.cpp\<close>, \<open>Surfaces.cpp\<close> and
      \<open>main.cpp\<close>.  Shown: which cases of a run proceed, and that release comparison is
      the linear order of releases (class \<open>linorder\<close>) however they are written.  \<open>Suite_Registry\<close> lists the 121 registered cases of the 24 files with the gates
      at their heads; shown: the verdict of every one of them in every run \<open>main\<close> admits.
    \<^item> \<open>Ut_Case\<close>: a case as a computation in the state monad over a report; \<open>Playback_Session\<close>: the
      calls and the bring-up the end-to-end cases share; \<open>Data_Protocol_Cases\<close>,
      \<open>Data_Fault_Cases\<close>, \<open>Transport_Cases\<close>, \<open>Aux_Cases\<close>: the files of \<open>src/L4_e2e/playback\<close>;
      \<open>Keys_Cases\<close>, \<open>Keys_Capabilities_Cases\<close>, \<open>Control_Cases\<close>, \<open>Web_Audio_Cases\<close>, \<open>Log_Cases\<close>: the files
      \<open>KeysSessionTests\<close>, \<open>KeysCapabilitiesTests\<close>, \<open>ControlTests\<close>, \<open>WebAudioTests\<close> and
      \<open>ClientLogControlTests\<close> of \<open>src/L1_function/native\<close>, the last three over the recording
      sessions of \<open>Listening_Session\<close>; \<open>Native_Cases\<close>: its \<open>FactoryTests\<close>, \<open>PipelineTests\<close> and
      \<open>CapabilitiesTests\<close>, and \<open>L2_module/native/PipelineLifecycleTests.cpp\<close>; \<open>Memory_Usage\<close>:
      \<open>L3_group/native/MemoryUsageTests.cpp\<close>; \<open>Sink_Registry\<close>, \<open>Consistency_Cases\<close>:
      \<open>L2_module/both/CapabilityConsistencyTests.cpp\<close>.  Shown: exactly when each case passes, as a
      condition on what the library answers and delivers, which says what the case really tests;
      that the bring-up is all or nothing; that one server passes all the playback cases
      (\<open>Playback_Reference\<close>) although it notifies at a fixed time and out of order, which bounds what
      those cases can tell apart; that the key cases pass on a library that forwards to
      the backend of \<open>Clearkey_Cdm\<close>; that the transition case leaves the server active or has tried
      25 times.
    \<^item> \<open>Sink_Element\<close>: the element classes and live elements the sink cases work on, with the
      references a case takes and drops.  \<open>Sink_Property_Cases\<close>, \<open>Sink_Caps_Cases\<close>,
      \<open>Sink_Registration_Cases\<close>, \<open>Sink_State_Cases\<close>: the files \<open>PropertyTests\<close>, \<open>CapsTests\<close>,
      \<open>SinkRegistrationTests\<close>, \<open>StateTests\<close> and \<open>EventTests\<close> of \<open>src/L1_function/mse\<close>;
      \<open>Sink_Data_Cases\<close>: \<open>src/L4_e2e/mse\<close>, over \<open>Mse_Feed\<close> and \<open>Media_Stream\<close>.  Shown: the property
      suite is a table of the documented properties; the state suite is passed by every sink that
      refines the state contract and misses no part of it; the caps suite is soundness and no
      more; the rank gate, through a child process that runs the \<open>main\<close> of \<open>Case_Gates\<close>; the
      verdict of each data-path case, and that it returns and destroys its feed.  \<open>Sink_Reference\<close>
      writes sinks from the contract the cases state; \<open>Sink_Surfaces\<close> puts both suites over one
      registry: those sinks pass all L1 and L2 sink cases, and any sinks that do advertise caps
      between the supported and the documented ones.

  \<^bold>\<open>Time and interleaving in the cases.\<close>  Every action of a test thread takes one tick; the callbacks
  the library delivers before it, or during a wait, are a list given for that tick and run
  through the client's own handlers.  So a theorem for all such lists covers every schedule of
  callbacks between the actions of the test; that handlers may be run whole there is what
  \<open>Feed_Linear\<close> shows, for all actions but a rewind of the source that falls into its round.  Waits are on conditions that are never undone
  (locale \<open>latch\<close>), so that a wait answers whether the condition holds when it ends.

  \<^bold>\<open>Interfaces.\<close>  \<open>latch\<close> (conditions that waits rely on), \<open>key_store\<close> and \<open>key_codec\<close> (what the
  decryption sessions need of their key map and codec), \<open>replay_source\<close> (what the replay
  argument needs of a feed, interpreted for audio and for video), its extension \<open>eos_source\<close> (what
  the interleaving with the end of stream needs) and \<open>property_assert\<close> (what an
  assertion on an installed property decides, interpreted for the seven helpers) are locales,
  each interpreted on the definitions that model the code.  Verdicts are composed by the rules
  of \<open>decides\<close> (\<open>Sink_Registry\<close>), element references by those of \<open>owns\<close>.

  \<^bold>\<open>Bounds and loops.\<close>  A polled read-back sleeps 50 ms between reads against a 5 s deadline, so it
  makes at most 101 reads on any clock that advances by the sleep; loops that end only when the
  environment lets them are \<open>partial_function (option)\<close> with \<open>None\<close> for not returning, and that they
  return is proved from what the clock or the peer does.  No fuel is used.

  \<^bold>\<open>Not modelled.\<close>  Log output; references to caps, queries and element factories; exceptions of the allocator; the Python runner, the coverage and
  profile data and the build, packaging and container scripts.
\<close>

end
